(* ===== verification/Prelude.thy ===== *)
theory Prelude
  imports Main "HOL-Library.AList" "HOL-Library.Char_ord" "HOL-Library.List_Lexorder"
    "HOL-Library.Code_Target_Nat"
begin

text \<open>
  What every component shares: the fact collections the proofs are run with, the
  association lists that stand for Go's \<^verbatim>\<open>map[string]T\<close> values, and the table of
  expiring entries (nonces, sessions and unlock tickets are three of them) as an
  interface, with its laws and the lemmas its clients need.
\<close>

named_theorems world_simps \<open>evaluation of clock reads and random reads\<close>
named_theorems auth_simps \<open>field-wise effect of the operations of the authentication manager\<close>
named_theorems store_simps \<open>evaluation of storage operations\<close>
named_theorems err_simps \<open>classification of error values\<close>

type_synonym bytes = string

text \<open>A point in time, in nanoseconds since the Unix epoch (Go: \<^verbatim>\<open>time.Time\<close>).\<close>

type_synonym time = int

subsection \<open>Go maps\<close>

text \<open>
  A Go map is an association list with distinct keys. Lookup is \<^term>\<open>map_of\<close>, assignment
  \<^term>\<open>AList.update\<close>, \<^verbatim>\<open>delete\<close> is \<^term>\<open>AList.delete\<close> and \<^verbatim>\<open>len\<close> is
  \<^term>\<open>length\<close>.
\<close>

definition gmap_ok :: "('k \<times> 'v) list \<Rightarrow> bool" where
  "gmap_ok m \<longleftrightarrow> distinct (map fst m)"

lemma gmap_ok_Nil [simp, intro]: "gmap_ok []"
  by (simp add: gmap_ok_def)

lemma gmap_ok_update [simp, intro]: "gmap_ok m \<Longrightarrow> gmap_ok (AList.update k v m)"
  by (simp add: gmap_ok_def distinct_update)

lemma gmap_ok_delete [simp, intro]: "gmap_ok m \<Longrightarrow> gmap_ok (AList.delete k m)"
  by (simp add: gmap_ok_def distinct_delete)

lemma gmap_ok_filter [simp, intro]: "gmap_ok m \<Longrightarrow> gmap_ok (filter P m)"
  by (simp add: gmap_ok_def distinct_map_filter)

lemma gmap_length_card: "gmap_ok m \<Longrightarrow> length m = card (dom (map_of m))"
  by (simp add: gmap_ok_def dom_map_of_conv_image_fst distinct_card flip: set_map)

lemma map_of_update_apply [simp]:
  "map_of (AList.update k v m) k' = (if k' = k then Some v else map_of m k')"
  by (simp add: update_conv')

lemma map_of_delete_apply [simp]:
  "map_of (AList.delete k m) k' = (if k' = k then None else map_of m k')"
  by (simp add: delete_conv')

lemma map_of_filter_distinct:
  "gmap_ok m \<Longrightarrow>
   map_of (filter (\<lambda>(k, v). P v) m) k
     = (case map_of m k of None \<Rightarrow> None | Some v \<Rightarrow> if P v then Some v else None)"
proof (induction m)
  case Nil
  then show ?case by simp
next
  case (Cons kv m)
  obtain k' v where kv: "kv = (k', v)" by force
  from Cons.prems have ok: "gmap_ok m" and fresh: "k' \<notin> fst ` set m"
    by (auto simp: gmap_ok_def kv)
  from fresh have "map_of m k' = None" by (simp add: map_of_eq_None_iff)
  with Cons.IH [OF ok] show ?case by (auto simp: kv split: option.splits)
qed

subsection \<open>Tables of expiring entries\<close>

text \<open>
  The interface the authentication manager uses three times: a map from strings to expiry
  times, with a sweep that drops what has expired.
\<close>

locale expiring_table =
  fixes get :: "'m \<Rightarrow> 'k \<Rightarrow> time option"
    and put :: "'k \<Rightarrow> time \<Rightarrow> 'm \<Rightarrow> 'm"
    and del :: "'k \<Rightarrow> 'm \<Rightarrow> 'm"
    and sweep :: "time \<Rightarrow> 'm \<Rightarrow> 'm"
    and size_of :: "'m \<Rightarrow> nat"
    and ok :: "'m \<Rightarrow> bool"
  assumes get_put: "get (put k t m) k' = (if k' = k then Some t else get m k')"
    and get_del: "get (del k m) k' = (if k' = k then None else get m k')"
    and get_sweep: "ok m \<Longrightarrow> get (sweep now m) k =
      (case get m k of None \<Rightarrow> None | Some t \<Rightarrow> if now > t then None else Some t)"
    and size_card: "ok m \<Longrightarrow> size_of m = card (dom (get m))"
    and finite_dom: "ok m \<Longrightarrow> finite (dom (get m))"
    and ok_put: "ok m \<Longrightarrow> ok (put k t m)"
    and ok_del: "ok m \<Longrightarrow> ok (del k m)"
    and ok_sweep: "ok m \<Longrightarrow> ok (sweep now m)"
begin

lemmas ok_ops = ok_put ok_del ok_sweep

text \<open>An entry is usable at \<open>now\<close> when it is there and has not expired.\<close>

definition live :: "time \<Rightarrow> 'm \<Rightarrow> 'k \<Rightarrow> bool" where
  "live now m k \<longleftrightarrow> (case get m k of None \<Rightarrow> False | Some t \<Rightarrow> now \<le> t)"

lemma live_sweep: "ok m \<Longrightarrow> live now (sweep now m) k = live now m k"
  by (auto simp: live_def get_sweep split: option.splits)

lemma sweep_only_live: "ok m \<Longrightarrow> get (sweep now m) k \<noteq> None \<Longrightarrow> live now m k"
  by (auto simp: live_def get_sweep split: option.splits if_splits)

lemma consumed: "get (del k m) k = None"
  by (simp add: get_del)

lemma del_frame: "k' \<noteq> k \<Longrightarrow> get (del k m) k' = get m k'"
  by (simp add: get_del)

lemma put_frame: "k' \<noteq> k \<Longrightarrow> get (put k t m) k' = get m k'"
  by (simp add: get_put)

lemma dom_put: "dom (get (put k t m)) = insert k (dom (get m))"
  by (auto simp: dom_def get_put)

lemma dom_del: "dom (get (del k m)) = dom (get m) - {k}"
  by (auto simp: dom_def get_del)

lemma dom_sweep: "ok m \<Longrightarrow> dom (get (sweep now m)) \<subseteq> dom (get m)"
  by (auto simp: dom_def get_sweep split: option.splits if_splits)

lemma size_put: "ok m \<Longrightarrow> size_of (put k t m) \<le> Suc (size_of m)"
  by (simp add: size_card ok_put dom_put card_insert_if finite_dom)

lemma size_del: "ok m \<Longrightarrow> size_of (del k m) \<le> size_of m"
  by (simp add: size_card ok_del dom_del card_Diff1_le finite_dom)

lemma size_sweep: "ok m \<Longrightarrow> size_of (sweep now m) \<le> size_of m"
  by (simp add: size_card ok_sweep card_mono dom_sweep finite_dom)

text \<open>Inserting only below a cap never passes the cap.\<close>

lemma capped_put: "ok m \<Longrightarrow> size_of m < cap \<Longrightarrow> size_of (put k t m) \<le> cap"
  using size_put [of m k t] by simp

lemma put_fresh_size: "ok m \<Longrightarrow> get m k = None \<Longrightarrow> size_of (put k t m) = Suc (size_of m)"
  by (simp add: size_card ok_put dom_put finite_dom domIff)

end

text \<open>
  The implementation: Go's sweep is a loop over the map that deletes expired keys as it
  meets them.
\<close>

definition sweep_loop :: "time \<Rightarrow> (string \<times> time) list \<Rightarrow> (string \<times> time) list" where
  "sweep_loop now m =
     fold (\<lambda>(k, expiresAt) acc. if now > expiresAt then AList.delete k acc else acc) m m"

lemma sweep_fold_filter:
  "fold (\<lambda>(k, e) acc. if now > e then AList.delete k acc else acc) xs acc
     = filter (\<lambda>(k, v). \<not> (\<exists>e. (k, e) \<in> set xs \<and> now > e)) acc"
proof (induction xs arbitrary: acc)
  case Nil
  then show ?case by simp
next
  case (Cons x xs)
  obtain k e where "x = (k, e)" by force
  then show ?case
    by (auto simp: Cons.IH AList.delete_eq intro!: filter_cong)
qed

lemma sweep_loop_filter:
  assumes "gmap_ok m"
  shows "sweep_loop now m = filter (\<lambda>(k, e). \<not> now > e) m"
proof -
  have "\<And>k v e. (k, v) \<in> set m \<Longrightarrow> (k, e) \<in> set m \<Longrightarrow> e = v"
    using assms by (metis gmap_ok_def map_of_is_SomeI option.inject)
  then show ?thesis
    unfolding sweep_loop_def sweep_fold_filter by (auto intro!: filter_cong)
qed

lemma sweep_loop_ok [simp, intro]: "gmap_ok m \<Longrightarrow> gmap_ok (sweep_loop now m)"
  by (simp add: sweep_loop_filter)

interpretation tt: expiring_table map_of AList.update AList.delete sweep_loop length gmap_ok
  by unfold_locales
    (auto simp: sweep_loop_filter map_of_filter_distinct gmap_length_card finite_dom_map_of
      split: option.splits)

subsection \<open>Transition systems with an invariant\<close>

inductive reach_from :: "('s \<Rightarrow> bool) \<Rightarrow> ('s \<Rightarrow> 's \<Rightarrow> bool) \<Rightarrow> 's \<Rightarrow> bool"
  for start :: "'s \<Rightarrow> bool" and trans :: "'s \<Rightarrow> 's \<Rightarrow> bool"
where
  reach_start: "start s \<Longrightarrow> reach_from start trans s"
| reach_trans: "reach_from start trans s \<Longrightarrow> trans s s' \<Longrightarrow> reach_from start trans s'"

locale invariant_system =
  fixes start :: "'s \<Rightarrow> bool"
    and trans :: "'s \<Rightarrow> 's \<Rightarrow> bool"
    and inv :: "'s \<Rightarrow> bool"
  assumes start_inv: "start s \<Longrightarrow> inv s"
    and trans_inv: "inv s \<Longrightarrow> trans s s' \<Longrightarrow> inv s'"
begin

lemma reach_inv: "reach_from start trans s \<Longrightarrow> inv s"
  by (induction rule: reach_from.induct) (auto intro: start_inv trans_inv)

lemma trans_star_inv: "trans\<^sup>*\<^sup>* s s' \<Longrightarrow> inv s \<Longrightarrow> inv s'"
  by (induction rule: rtranclp_induct) (auto intro: trans_inv)

end

end
