(* ===== verification/Go_Text.thy ===== *)
theory Go_Text
  imports Prelude
begin

text \<open>
  What the source uses of Go's strings and of the packages \<^verbatim>\<open>strings\<close>,
  \<^verbatim>\<open>strconv\<close>, \<^verbatim>\<open>unicode/utf8\<close>, \<^verbatim>\<open>unicode\<close>,
  \<^verbatim>\<open>encoding/hex\<close> and \<^verbatim>\<open>crypto/subtle\<close>. A Go string (and a
  \<^verbatim>\<open>[]byte\<close>) is a list of bytes, so a \<^typ>\<open>string\<close> here; its runes are what
  decoding UTF-8 from the left gives, with the replacement rune and width one for an
  invalid byte. The tables of package \<^verbatim>\<open>unicode\<close> for runes outside ASCII are an
  argument; the ASCII rows are written out.
\<close>

subsection \<open>Decimal and hexadecimal\<close>

definition digit_char :: "nat \<Rightarrow> char" where
  "digit_char d = char_of (48 + d)"

fun dec_nat :: "nat \<Rightarrow> string" where
  "dec_nat n = (if n < 10 then [digit_char n] else dec_nat (n div 10) @ [digit_char (n mod 10)])"

declare dec_nat.simps [simp del]

text \<open>The verb \<^verbatim>\<open>%d\<close>.\<close>

definition dec_int :: "int \<Rightarrow> string" where
  "dec_int i = (if i < 0 then CHR ''-'' # dec_nat (nat (- i)) else dec_nat (nat i))"

definition is_dec_digit :: "char \<Rightarrow> bool" where
  "is_dec_digit c \<longleftrightarrow> CHR ''0'' \<le> c \<and> c \<le> CHR ''9''"

definition dec_val :: "string \<Rightarrow> nat" where
  "dec_val s = fold (\<lambda>c n. 10 * n + (of_char c - 48)) s 0"

lemma of_digit_char: "d < 10 \<Longrightarrow> of_char (digit_char d) = (48 + d :: nat)"
  by (simp add: digit_char_def)

lemma digit_char_is_digit: "d < 10 \<Longrightarrow> is_dec_digit (digit_char d)"
  by (simp add: is_dec_digit_def less_eq_char_def of_digit_char)

lemma dec_nat_digits: "c \<in> set (dec_nat n) \<Longrightarrow> is_dec_digit c"
proof (induction n arbitrary: c rule: dec_nat.induct)
  case (1 n)
  show ?case
  proof (cases "n < 10")
    case True
    with "1.prems" show ?thesis by (simp add: dec_nat.simps [of n] digit_char_is_digit)
  next
    case False
    with "1.prems" consider "c \<in> set (dec_nat (n div 10))" | "c = digit_char (n mod 10)"
      by (auto simp: dec_nat.simps [of n])
    then show ?thesis
      using "1.IH" [OF False] by cases (auto simp: digit_char_is_digit)
  qed
qed

lemma dec_val_dec_nat: "dec_val (dec_nat n) = n"
proof (induction n rule: dec_nat.induct)
  case (1 n)
  show ?case
  proof (cases "n < 10")
    case True
    then show ?thesis by (simp add: dec_nat.simps [of n] dec_val_def of_digit_char)
  next
    case False
    with 1 have "dec_val (dec_nat (n div 10)) = n div 10" by simp
    with False show ?thesis
      by (simp add: dec_nat.simps [of n] dec_val_def of_digit_char)
  qed
qed

lemma dec_nat_inject [simp]: "dec_nat a = dec_nat b \<longleftrightarrow> a = b"
  by (metis dec_val_dec_nat)

lemma dec_nat_not_Nil [simp]: "dec_nat n \<noteq> []"
  by (subst dec_nat.simps) simp

lemma hd_dec_nat: "is_dec_digit (hd (dec_nat n))"
  using dec_nat_digits [of "hd (dec_nat n)" n] by simp

lemma dec_int_inject [simp]: "dec_int a = dec_int b \<longleftrightarrow> a = b"
proof -
  have neg: "dec_nat n \<noteq> CHR ''-'' # s" for n s
  proof
    assume "dec_nat n = CHR ''-'' # s"
    with hd_dec_nat [of n] show False by (simp add: is_dec_digit_def less_eq_char_def)
  qed
  show ?thesis
    using neg neg [symmetric] by (auto simp: dec_int_def)
qed

lemma dec_int_chars: "c \<in> set (dec_int i) \<Longrightarrow> is_dec_digit c \<or> c = CHR ''-''"
  by (auto simp: dec_int_def split: if_splits dest: dec_nat_digits)

lemma colon_notin_dec_int: "CHR '':'' \<notin> set (dec_int i)"
  by (auto dest!: dec_int_chars simp: is_dec_digit_def less_eq_char_def)

definition hex_digit :: "nat \<Rightarrow> char" where
  "hex_digit d = (if d < 10 then char_of (48 + d) else char_of (87 + d))"

text \<open>\<^verbatim>\<open>hex.EncodeToString\<close>\<close>

definition hex_encode :: "bytes \<Rightarrow> string" where
  "hex_encode bs = concat (map (\<lambda>b. [hex_digit (of_char b div 16), hex_digit (of_char b mod 16)]) bs)"

lemma length_hex_encode [simp]: "length (hex_encode bs) = 2 * length bs"
  by (induction bs) (simp_all add: hex_encode_def)

lemma of_hex_digit:
  "d < 16 \<Longrightarrow> (of_char (hex_digit d) :: nat) = (if d < 10 then 48 + d else 87 + d)"
  by (simp add: hex_digit_def)

lemma hex_digit_inject: "a < 16 \<Longrightarrow> b < 16 \<Longrightarrow> hex_digit a = hex_digit b \<longleftrightarrow> a = b"
proof
  assume ab: "a < 16" "b < 16" and eq: "hex_digit a = hex_digit b"
  from eq have "(of_char (hex_digit a) :: nat) = of_char (hex_digit b)" by simp
  then have "(if a < 10 then 48 + a else 87 + a) = (if b < 10 then 48 + b else 87 + b)"
    by (simp only: of_hex_digit ab)
  then show "a = b" by (simp split: if_splits)
qed simp

lemma hex_encode_inject: "hex_encode a = hex_encode b \<longleftrightarrow> a = b"
proof (induction a arbitrary: b)
  case Nil
  then show ?case by (cases b) (auto simp: hex_encode_def)
next
  case (Cons x a)
  show ?case
  proof (cases b)
    case Nil
    then show ?thesis by (simp add: hex_encode_def)
  next
    case b: (Cons y b')
    have lt: "(of_char c :: nat) div 16 < 16" for c :: char
      using nat_of_char_less_256 [of c] by (simp add: less_mult_imp_div_less)
    have "(of_char x :: nat) = of_char y" if "(of_char x :: nat) div 16 = of_char y div 16"
        "(of_char x :: nat) mod 16 = of_char y mod 16"
      using that by (metis div_mult_mod_eq)
    with Cons.IH [of b'] lt show ?thesis
      by (auto simp: b hex_encode_def hex_digit_inject)
  qed
qed

subsection \<open>UTF-8\<close>

definition cont_byte :: "char \<Rightarrow> bool" where
  "cont_byte c \<longleftrightarrow> 128 \<le> (of_char c :: nat) \<and> (of_char c :: nat) \<le> 191"

text \<open>Decode the first rune: the rune and how many bytes it takes (\<^verbatim>\<open>utf8.DecodeRune\<close>).\<close>

definition rune_error :: nat where "rune_error = 65533"

fun decode_rune :: "string \<Rightarrow> nat \<times> nat" where
  "decode_rune [] = (rune_error, 0)"
| "decode_rune (a # s) =
     (let b0 = of_char a :: nat; c = (\<lambda>i. of_char (s ! i) mod 64 :: nat) in
      if b0 < 128 then (b0, 1)
      else if 194 \<le> b0 \<and> b0 \<le> 223 \<and> 1 \<le> length s \<and> cont_byte (s ! 0)
      then ((b0 mod 32) * 64 + c 0, 2)
      else if 224 \<le> b0 \<and> b0 \<le> 239 \<and> 2 \<le> length s \<and> cont_byte (s ! 0) \<and> cont_byte (s ! 1)
        \<and> (b0 = 224 \<longrightarrow> 160 \<le> (of_char (s ! 0) :: nat)) \<and> (b0 = 237 \<longrightarrow> (of_char (s ! 0) :: nat) \<le> 159)
      then ((b0 mod 16) * 4096 + c 0 * 64 + c 1, 3)
      else if 240 \<le> b0 \<and> b0 \<le> 244 \<and> 3 \<le> length s \<and> cont_byte (s ! 0) \<and> cont_byte (s ! 1)
        \<and> cont_byte (s ! 2)
        \<and> (b0 = 240 \<longrightarrow> 144 \<le> (of_char (s ! 0) :: nat)) \<and> (b0 = 244 \<longrightarrow> (of_char (s ! 0) :: nat) \<le> 143)
      then ((b0 mod 8) * 262144 + c 0 * 4096 + c 1 * 64 + c 2, 4)
      else (rune_error, 1))"

definition encode_rune :: "nat \<Rightarrow> string" where
  "encode_rune r =
     (if r < 128 then [char_of r]
      else if r < 2048 then [char_of (192 + r div 64), char_of (128 + r mod 64)]
      else if (55296 \<le> r \<and> r \<le> 57343) \<or> 1114111 < r
      then [char_of (239::nat), char_of (191::nat), char_of (189::nat)]
      else if r < 65536
      then [char_of (224 + r div 4096), char_of (128 + (r div 64) mod 64), char_of (128 + r mod 64)]
      else [char_of (240 + r div 262144), char_of (128 + (r div 4096) mod 64),
            char_of (128 + (r div 64) mod 64), char_of (128 + r mod 64)])"

lemma decode_rune_size: "s \<noteq> [] \<Longrightarrow> 1 \<le> snd (decode_rune s) \<and> snd (decode_rune s) \<le> length s"
  by (cases s) (auto simp: Let_def)

text \<open>The runes of a string, each with the bytes it was decoded from.\<close>

function rune_segments :: "string \<Rightarrow> (nat \<times> string) list" where
  "rune_segments s =
     (if s = [] then []
      else let (r, n) = decode_rune s in (r, take n s) # rune_segments (drop n s))"
  by pat_completeness auto
termination
proof (relation "measure length", goal_cases)
  case 1
  show ?case by simp
next
  case (2 s x r n)
  then have "1 \<le> n" "n \<le> length s" "s \<noteq> []"
    using decode_rune_size [of s] by (metis snd_conv)+
  then show ?case by simp
qed

declare rune_segments.simps [simp del]

text \<open>The conversion \<^verbatim>\<open>[]rune(s)\<close>, and joining the pieces again.\<close>

definition runes :: "string \<Rightarrow> nat list" where
  "runes s = map fst (rune_segments s)"

definition join_segments :: "(nat \<times> string) list \<Rightarrow> string" where
  "join_segments segs = concat (map snd segs)"

lemma rune_segments_Nil [simp]: "rune_segments [] = []"
  by (simp add: rune_segments.simps)

lemma join_rune_segments [simp]: "join_segments (rune_segments s) = s"
proof (induction s rule: rune_segments.induct)
  case (1 s)
  show ?case
  proof (cases "s = []")
    case True
    then show ?thesis by (simp add: join_segments_def)
  next
    case False
    obtain r n where d: "decode_rune s = (r, n)" by force
    have "join_segments (rune_segments (drop n s)) = drop n s"
      using "1.IH" [OF False] d by simp
    then show ?thesis
      using False d by (simp add: rune_segments.simps [of s] join_segments_def)
  qed
qed

definition ascii :: "string \<Rightarrow> bool" where
  "ascii s \<longleftrightarrow> (\<forall>c \<in> set s. (of_char c :: nat) < 128)"

lemma ascii_simps [simp]:
  "ascii []" "ascii (c # s) \<longleftrightarrow> (of_char c :: nat) < 128 \<and> ascii s"
  "ascii (s @ t) \<longleftrightarrow> ascii s \<and> ascii t"
  by (auto simp: ascii_def)

lemma rune_segments_Cons_ascii [simp]:
  "(of_char c :: nat) < 128 \<Longrightarrow> rune_segments (c # s) = (of_char c, [c]) # rune_segments s"
  by (subst rune_segments.simps) simp

lemma rune_segments_ascii: "ascii s \<Longrightarrow> rune_segments s = map (\<lambda>c. (of_char c, [c])) s"
  by (induction s) auto

lemma runes_ascii: "ascii s \<Longrightarrow> runes s = map of_char s"
  by (simp add: runes_def rune_segments_ascii)

lemma encode_rune_ascii: "(of_char c :: nat) < 128 \<Longrightarrow> encode_rune (of_char c) = [c]"
  by (simp add: encode_rune_def)

subsection \<open>Whitespace\<close>

text \<open>\<^verbatim>\<open>unicode.IsSpace\<close>: the runes with the property White\_Space.\<close>

definition is_space :: "nat \<Rightarrow> bool" where
  "is_space r \<longleftrightarrow> (9 \<le> r \<and> r \<le> 13) \<or> r = 32 \<or> r = 133 \<or> r = 160 \<or> r = 5760
     \<or> (8192 \<le> r \<and> r \<le> 8202) \<or> r = 8232 \<or> r = 8233 \<or> r = 8239 \<or> r = 8287 \<or> r = 12288"

text \<open>\<^verbatim>\<open>strings.TrimSpace\<close>, and the loop of \<^verbatim>\<open>strings.Fields\<close>.\<close>

definition trim_space :: "string \<Rightarrow> string" where
  "trim_space s = (let sp = (\<lambda>(r, b). is_space r) in
     join_segments (rev (dropWhile sp (rev (dropWhile sp (rune_segments s))))))"

fun fields_acc :: "(nat \<times> string) list \<Rightarrow> string \<Rightarrow> string list" where
  "fields_acc [] cur = (if cur = [] then [] else [cur])"
| "fields_acc ((r, b) # segs) cur =
     (if is_space r then (if cur = [] then fields_acc segs [] else cur # fields_acc segs [])
      else fields_acc segs (cur @ b))"

lemma trim_space_Nil [simp]: "trim_space [] = []"
  by (simp add: trim_space_def join_segments_def)

lemma fields_acc_nonempty: "w \<in> set (fields_acc segs cur) \<Longrightarrow> w \<noteq> []"
  by (induction segs cur rule: fields_acc.induct) (auto split: if_splits)

lemma trim_space_ascii:
  assumes "ascii s"
  shows "trim_space s =
    rev (dropWhile (\<lambda>c. is_space (of_char c)) (rev (dropWhile (\<lambda>c. is_space (of_char c)) s)))"
proof -
  let ?seg = "\<lambda>c. (of_char c :: nat, [c])"
  have join: "join_segments (map ?seg t) = t" for t
    by (induction t) (auto simp: join_segments_def)
  have "(\<lambda>(r, b). is_space r) \<circ> ?seg = (\<lambda>c. is_space (of_char c))"
    by (auto simp: fun_eq_iff)
  then show ?thesis
    by (simp add: trim_space_def rune_segments_ascii [OF assms] dropWhile_map join rev_map)
qed

subsection \<open>Substrings\<close>

definition has_prefix :: "string \<Rightarrow> string \<Rightarrow> bool" where
  "has_prefix s p \<longleftrightarrow> take (length p) s = p"

definition trim_prefix :: "string \<Rightarrow> string \<Rightarrow> string" where
  "trim_prefix s p = (if has_prefix s p then drop (length p) s else s)"

fun contains :: "string \<Rightarrow> string \<Rightarrow> bool" where
  "contains [] p \<longleftrightarrow> p = []"
| "contains (c # s) p \<longleftrightarrow> has_prefix (c # s) p \<or> contains s p"

fun index_byte :: "string \<Rightarrow> char \<Rightarrow> nat option" where
  "index_byte [] c = None"
| "index_byte (d # s) c = (if d = c then Some 0 else map_option Suc (index_byte s c))"

text \<open>\<^verbatim>\<open>strings.SplitN(s, sep, 2)\<close> for a one-byte separator.\<close>

definition split2 :: "string \<Rightarrow> char \<Rightarrow> string list" where
  "split2 s c = (case index_byte s c of None \<Rightarrow> [s] | Some i \<Rightarrow> [take i s, drop (Suc i) s])"

fun split_byte :: "string \<Rightarrow> char \<Rightarrow> string list" where
  "split_byte [] c = [[]]"
| "split_byte (d # s) c =
     (if d = c then [] # split_byte s c
      else case split_byte s c of [] \<Rightarrow> [[d]] | w # ws \<Rightarrow> (d # w) # ws)"

lemma has_prefix_append [simp]: "has_prefix (p @ s) p"
  by (simp add: has_prefix_def)

lemma has_prefix_iff: "has_prefix s p \<longleftrightarrow> (\<exists>t. s = p @ t)"
  by (metis append_eq_conv_conj has_prefix_def append_take_drop_id)

lemma contains_iff: "contains s p \<longleftrightarrow> (\<exists>a b. s = a @ p @ b)"
proof (induction s)
  case Nil
  then show ?case by simp
next
  case (Cons c s)
  have "(\<exists>a b. c # s = a @ p @ b) \<longleftrightarrow> (\<exists>b. c # s = p @ b) \<or> (\<exists>a b. s = a @ p @ b)"
    by (metis append_Cons append_Nil list.sel(3) append_eq_Cons_conv)
  with Cons.IH show ?case by (simp add: has_prefix_iff)
qed

lemma contains_Nil [simp]: "contains s []"
  by (cases s) (simp_all add: has_prefix_def)

lemma index_byte_None: "index_byte s c = None \<longleftrightarrow> c \<notin> set s"
  by (induction s) auto

lemma index_byte_append: "c \<notin> set a \<Longrightarrow> index_byte (a @ c # b) c = Some (length a)"
  by (induction a) auto

lemma index_byte_Some: "index_byte s c = Some i \<Longrightarrow>
  i < length s \<and> s ! i = c \<and> c \<notin> set (take i s) \<and> s = take i s @ c # drop (Suc i) s"
  by (induction s arbitrary: i) (auto split: if_splits)

lemma split2_append [simp]: "c \<notin> set a \<Longrightarrow> split2 (a @ c # b) c = [a, b]"
  by (simp add: split2_def index_byte_append)

lemma split2_none: "c \<notin> set s \<Longrightarrow> split2 s c = [s]"
  by (simp add: split2_def index_byte_None [THEN iffD2])

lemma split_byte_not_Nil [simp]: "split_byte s c \<noteq> []"
  by (induction s) (auto split: list.splits)

subsection \<open>Case mapping\<close>

text \<open>The tables of package \<^verbatim>\<open>unicode\<close>, for runes from 128 on.\<close>

record unicode =
  uni_lower :: "nat \<Rightarrow> nat"
  uni_upper :: "nat \<Rightarrow> nat"
  uni_fold :: "nat \<Rightarrow> nat"
  uni_letter :: "nat \<Rightarrow> bool"
  uni_digit :: "nat \<Rightarrow> bool"

definition lower_rune :: "unicode \<Rightarrow> nat \<Rightarrow> nat" where
  "lower_rune U r = (if r < 128 then (if 65 \<le> r \<and> r \<le> 90 then r + 32 else r) else uni_lower U r)"

definition upper_rune :: "unicode \<Rightarrow> nat \<Rightarrow> nat" where
  "upper_rune U r = (if r < 128 then (if 97 \<le> r \<and> r \<le> 122 then r - 32 else r) else uni_upper U r)"

text \<open>The representative of a rune's simple-folding orbit; for ASCII letters the lower-case one.\<close>

definition fold_rune :: "unicode \<Rightarrow> nat \<Rightarrow> nat" where
  "fold_rune U r = (if r < 128 then (if 65 \<le> r \<and> r \<le> 90 then r + 32 else r) else uni_fold U r)"

definition is_letter :: "unicode \<Rightarrow> nat \<Rightarrow> bool" where
  "is_letter U r \<longleftrightarrow>
     (if r < 128 then (65 \<le> r \<and> r \<le> 90) \<or> (97 \<le> r \<and> r \<le> 122) else uni_letter U r)"

definition is_digit :: "unicode \<Rightarrow> nat \<Rightarrow> bool" where
  "is_digit U r \<longleftrightarrow> (if r < 128 then 48 \<le> r \<and> r \<le> 57 else uni_digit U r)"

text \<open>\<^verbatim>\<open>strings.ToLower\<close>, \<^verbatim>\<open>strings.ToUpper\<close>, \<^verbatim>\<open>strings.EqualFold\<close>.\<close>

definition to_lower :: "unicode \<Rightarrow> string \<Rightarrow> string" where
  "to_lower U s = concat (map (\<lambda>r. encode_rune (lower_rune U r)) (runes s))"

definition to_upper :: "unicode \<Rightarrow> string \<Rightarrow> string" where
  "to_upper U s = concat (map (\<lambda>r. encode_rune (upper_rune U r)) (runes s))"

definition equal_fold :: "unicode \<Rightarrow> string \<Rightarrow> string \<Rightarrow> bool" where
  "equal_fold U a b \<longleftrightarrow> map (fold_rune U) (runes a) = map (fold_rune U) (runes b)"

definition lower_char :: "char \<Rightarrow> char" where
  "lower_char c = (if CHR ''A'' \<le> c \<and> c \<le> CHR ''Z'' then char_of ((of_char c :: nat) + 32) else c)"

lemma equal_fold_refl [simp]: "equal_fold U a a"
  by (simp add: equal_fold_def)

lemma equal_fold_sym: "equal_fold U a b \<longleftrightarrow> equal_fold U b a"
  by (auto simp: equal_fold_def)

lemma equal_fold_trans: "equal_fold U a b \<Longrightarrow> equal_fold U b c \<Longrightarrow> equal_fold U a c"
  by (simp add: equal_fold_def)

lemma to_lower_Nil [simp]: "to_lower U [] = []"
  by (simp add: to_lower_def runes_def)

lemma lower_char_rune:
  "(of_char c :: nat) < 128 \<Longrightarrow> encode_rune (lower_rune U (of_char c)) = [lower_char c]"
  by (auto simp: lower_rune_def lower_char_def encode_rune_def less_eq_char_def)

lemma to_lower_ascii: "ascii s \<Longrightarrow> to_lower U s = map lower_char s"
  by (induction s) (auto simp: to_lower_def runes_def lower_char_rune)

lemma lower_char_idem [simp]: "lower_char (lower_char c) = lower_char c"
  by (auto simp: lower_char_def less_eq_char_def)

lemma ascii_lower: "ascii s \<Longrightarrow> ascii (map lower_char s)"
  by (induction s) (auto simp: lower_char_def less_eq_char_def)

lemma to_lower_idem_ascii: "ascii s \<Longrightarrow> to_lower U (to_lower U s) = to_lower U s"
  by (simp add: to_lower_ascii ascii_lower)

subsection \<open>Cases of decoding\<close>

lemma mod_offset:
  assumes "q * m \<le> (x :: nat)" "x < q * m + m"
  shows "x mod m = x - q * m"
proof -
  have "(q * m + (x - q * m)) mod m = x - q * m"
    using assms by (simp only: mod_mult_self3) simp
  with assms show ?thesis by simp
qed

text \<open>The ways to decode the first rune, with the number of bytes and what they are.\<close>

lemma decode_rune_cases [consumes 2, case_names ascii invalid two three four]:
  assumes "decode_rune s = (r, n)" "s \<noteq> []"
  obtains
    (ascii) a t where "s = a # t" "n = 1" "r = of_char a" "r < 128"
  | (invalid) a t where "s = a # t" "n = 1" "r = rune_error" "128 \<le> (of_char a :: nat)"
  | (two) a b t where "s = a # b # t" "n = 2" "128 \<le> r" "194 \<le> (of_char a :: nat)" "cont_byte b"
      "\<And>t'. decode_rune (a # b # t') = (r, 2)"
  | (three) a b c t where "s = a # b # c # t" "n = 3" "128 \<le> r" "194 \<le> (of_char a :: nat)"
      "cont_byte b" "cont_byte c" "\<And>t'. decode_rune (a # b # c # t') = (r, 3)"
  | (four) a b c d t where "s = a # b # c # d # t" "n = 4" "128 \<le> r" "194 \<le> (of_char a :: nat)"
      "cont_byte b" "cont_byte c" "cont_byte d" "\<And>t'. decode_rune (a # b # c # d # t') = (r, 4)"
proof -
  obtain a s1 where s: "s = a # s1" using assms(2) by (cases s) auto
  let ?b0 = "of_char a :: nat"
  let ?two = "194 \<le> ?b0 \<and> ?b0 \<le> 223 \<and> 1 \<le> length s1 \<and> cont_byte (s1 ! 0)"
  let ?three = "224 \<le> ?b0 \<and> ?b0 \<le> 239 \<and> 2 \<le> length s1 \<and> cont_byte (s1 ! 0) \<and> cont_byte (s1 ! 1)
        \<and> (?b0 = 224 \<longrightarrow> 160 \<le> (of_char (s1 ! 0) :: nat)) \<and> (?b0 = 237 \<longrightarrow> (of_char (s1 ! 0) :: nat) \<le> 159)"
  let ?four = "240 \<le> ?b0 \<and> ?b0 \<le> 244 \<and> 3 \<le> length s1 \<and> cont_byte (s1 ! 0) \<and> cont_byte (s1 ! 1)
        \<and> cont_byte (s1 ! 2)
        \<and> (?b0 = 240 \<longrightarrow> 144 \<le> (of_char (s1 ! 0) :: nat)) \<and> (?b0 = 244 \<longrightarrow> (of_char (s1 ! 0) :: nat) \<le> 143)"
  consider (A) "?b0 < 128" | (B) "\<not> ?b0 < 128" "?two" | (C) "\<not> ?b0 < 128" "\<not> ?two" "?three"
    | (D) "\<not> ?b0 < 128" "\<not> ?two" "\<not> ?three" "?four"
    | (E) "\<not> ?b0 < 128" "\<not> ?two" "\<not> ?three" "\<not> ?four" by blast
  then show thesis
  proof cases
    case A
    with assms(1) s show thesis by (intro ascii [of a s1]) (auto simp: Let_def)
  next
    case B
    then obtain b t where s1: "s1 = b # t" by (cases s1) auto
    have r: "decode_rune (a # b # t') = ((?b0 mod 32) * 64 + of_char b mod 64, 2)" for t'
      using B by (simp add: s1 Let_def)
    have "?b0 mod 32 = ?b0 - 192" using mod_offset [of 6 32 ?b0] B by simp
    with B assms(1) r [of t] show thesis
      by (intro two [of a b t]) (auto simp: s s1 r simp del: decode_rune.simps)
  next
    case C
    then obtain b c t where s1: "s1 = b # c # t" by (cases s1; cases "tl s1") auto
    have r: "decode_rune (a # b # c # t')
        = ((?b0 mod 16) * 4096 + (of_char b mod 64) * 64 + of_char c mod 64, 3)" for t'
      using C by (simp add: s1 Let_def)
    have "(of_char b :: nat) mod 64 = of_char b - 128" "?b0 mod 16 = ?b0 - 224"
      using mod_offset [of 2 64 "of_char b"] mod_offset [of 14 16 ?b0] C
      by (simp_all add: s1 cont_byte_def)
    with C have "128 \<le> (?b0 mod 16) * 4096 + (of_char b mod 64) * 64"
      by (cases "?b0 = 224") (auto simp: s1 cont_byte_def)
    with C assms(1) r [of t] show thesis
      by (intro three [of a b c t]) (auto simp: s s1 r simp del: decode_rune.simps)
  next
    case D
    then obtain b c d t where s1: "s1 = b # c # d # t"
      by (cases s1; cases "tl s1"; cases "tl (tl s1)") auto
    have r: "decode_rune (a # b # c # d # t')
        = ((?b0 mod 8) * 262144 + (of_char b mod 64) * 4096 + (of_char c mod 64) * 64 + of_char d mod 64, 4)"
      for t' using D by (simp add: s1 Let_def)
    have "(of_char b :: nat) mod 64 = of_char b - 128" "?b0 mod 8 = ?b0 - 240"
      using mod_offset [of 2 64 "of_char b"] mod_offset [of 30 8 ?b0] D
      by (simp_all add: s1 cont_byte_def)
    with D have "128 \<le> (?b0 mod 8) * 262144 + (of_char b mod 64) * 4096"
      by (cases "?b0 = 240") (auto simp: s1 cont_byte_def)
    with D assms(1) r [of t] show thesis
      by (intro four [of a b c d t]) (auto simp: s s1 r simp del: decode_rune.simps)
  next
    case E
    then have "decode_rune s = (rune_error, 1)" by (simp add: s Let_def)
    with E assms(1) show thesis by (intro invalid [of a s1]) (auto simp: s)
  qed
qed

declare decode_rune.simps(2) [simp del]

lemma of_char_eq_iff: "(of_char c :: nat) = of_char d \<longleftrightarrow> c = d"
  by (metis char_of_char)

end
