(* ===== verification/Go_World.thy ===== *)
theory Go_World
  imports Go_Text
begin

text \<open>
  The world the code reads from: the clock, the random source and the UUID generator, and
  the error values it passes around. A clock read advances the clock by the next of a list
  of steps, so clocks never go back (Go compares the monotonic readings) and two reads in
  one function may differ. A random read takes the next of a list of outcomes, which may be
  a failure.
\<close>

subsection \<open>Clock, random source, UUIDs\<close>

record world =
  w_clock :: time
  w_ticks :: "nat list"
  w_rand :: "bytes option list"
  w_uuid :: "string option list"

text \<open>\<^verbatim>\<open>time.Now()\<close>\<close>

definition time_now :: "world \<Rightarrow> time \<times> world" where
  "time_now w =
     (case w_ticks w of
        [] \<Rightarrow> (w_clock w, w)
      | d # ds \<Rightarrow> (w_clock w + int d, w\<lparr>w_clock := w_clock w + int d, w_ticks := ds\<rparr>))"

text \<open>\<^verbatim>\<open>rand.Read(b)\<close> for a buffer of \<open>n\<close> bytes: it fills the buffer or fails.\<close>

definition fill_buffer :: "nat \<Rightarrow> bytes \<Rightarrow> bytes" where
  "fill_buffer n bs = take n (bs @ replicate n (char_of (0::nat)))"

definition rand_read :: "nat \<Rightarrow> world \<Rightarrow> bytes option \<times> world" where
  "rand_read n w =
     (case w_rand w of
        [] \<Rightarrow> (None, w)
      | r # rs \<Rightarrow> (map_option (fill_buffer n) r, w\<lparr>w_rand := rs\<rparr>))"

text \<open>\<^verbatim>\<open>uuid.NewV7()\<close>\<close>

definition uuid_new :: "world \<Rightarrow> string option \<times> world" where
  "uuid_new w =
     (case w_uuid w of [] \<Rightarrow> (None, w) | u # us \<Rightarrow> (u, w\<lparr>w_uuid := us\<rparr>))"

lemma length_fill_buffer [simp]: "length (fill_buffer n bs) = n"
  by (simp add: fill_buffer_def)

lemma time_now_mono [world_simps]: "time_now w = (t, w') \<Longrightarrow> w_clock w \<le> t \<and> w_clock w' = t"
  by (auto simp: time_now_def split: list.splits)

lemma time_now_fst_mono: "w_clock w \<le> fst (time_now w)"
  by (auto simp: time_now_def split: list.splits)

lemma rand_read_clock [world_simps]: "rand_read n w = (r, w') \<Longrightarrow> w_clock w' = w_clock w"
  by (auto simp: rand_read_def split: list.splits)

lemma rand_read_length: "rand_read n w = (Some bs, w') \<Longrightarrow> length bs = n"
  by (auto simp: rand_read_def split: list.splits)

lemma uuid_new_clock [world_simps]: "uuid_new w = (r, w') \<Longrightarrow> w_clock w' = w_clock w"
  by (auto simp: uuid_new_def split: list.splits)

subsection \<open>Durations\<close>

abbreviation second :: int where "second \<equiv> 1000000000"

text \<open>The zero \<^verbatim>\<open>time.Time\<close>: the first instant of the year 1, as Unix nanoseconds.\<close>

definition zero_time :: time where "zero_time = -62135596800 * second"

text \<open>\<^verbatim>\<open>t.Unix()\<close> and \<^verbatim>\<open>time.Unix(s, 0)\<close>\<close>

definition unix_of :: "time \<Rightarrow> int" where "unix_of t = t div second"

definition time_unix :: "int \<Rightarrow> time" where "time_unix s = s * second"

lemma unix_of_time_unix [simp]: "unix_of (time_unix s) = s"
  by (simp add: unix_of_def time_unix_def)

lemma time_unix_unix_of: "time_unix (unix_of t) \<le> t" "t < time_unix (unix_of t) + second"
  by (simp_all add: unix_of_def time_unix_def)

text \<open>\<^verbatim>\<open>d.Round(time.Second)\<close>: to the nearest second, halves away from zero.\<close>

definition round_second :: "int \<Rightarrow> int" where
  "round_second d =
     (if d < 0 then - (((- d) + second div 2) div second * second)
      else (d + second div 2) div second * second)"

text \<open>\<^verbatim>\<open>Duration.String\<close> on whole seconds.\<close>

definition duration_string :: "int \<Rightarrow> string" where
  "duration_string d =
     (let s = nat (\<bar>d\<bar> div second); h = s div 3600; m = (s div 60) mod 60;
          body = (if h > 0 then dec_nat h @ ''h'' else []) @
                 (if s \<ge> 60 then dec_nat m @ ''m'' else []) @ dec_nat (s mod 60) @ ''s''
      in if d < 0 \<and> s > 0 then CHR ''-'' # body else body)"

text \<open>\<^verbatim>\<open>int64(d.Seconds())\<close>: truncation towards zero.\<close>

definition trunc_seconds :: "int \<Rightarrow> int" where
  "trunc_seconds d = sgn d * (\<bar>d\<bar> div second)"

lemma int_div_mult_le: "0 < (n::int) \<Longrightarrow> x div n * n \<le> x"
  using pos_mod_sign [of n x] by (simp add: minus_mod_eq_div_mult [symmetric])

lemma trunc_seconds_nonneg:
  assumes "0 \<le> d"
  shows "trunc_seconds d * second \<le> d"
proof (cases "d = 0")
  case False
  with assms have "trunc_seconds d = d div second" by (simp add: trunc_seconds_def)
  then show ?thesis using int_div_mult_le [of second d] by simp
qed (simp add: trunc_seconds_def)

subsection \<open>Errors\<close>

text \<open>The codes of gRPC.\<close>

datatype grpc_code = OK | Canceled | Unknown | InvalidArgument | DeadlineExceeded | NotFound
  | AlreadyExists | PermissionDenied | ResourceExhausted | FailedPrecondition | Aborted
  | OutOfRange | Unimplemented | Internal | Unavailable | DataLoss | Unauthenticated

text \<open>
  The sentinels of \<^verbatim>\<open>internal/port/errors.go\<close>, status errors, plain errors, errors
  that wrap another one (\<^verbatim>\<open>%w\<close> and the logger's \<^verbatim>\<open>WrapErr\<close>, which keeps the
  chain) after a message or before one (\<^verbatim>\<open>"%w: %s"\<close>), and the fatal PIN error.
\<close>

datatype go_error =
    ErrNotFound | ErrAlreadyExists | ErrPINPromptCancelled | ErrNoPINInputMethod
  | ErrPermissionDenied | ErrSessionExpired | ErrRateLimited
  | StatusError grpc_code string
  | Errorf string
  | WrapErr string go_error
  | ErrorSuffix go_error string
  | PINFatalError go_error

definition DefaultPINError :: string where
  "DefaultPINError = ''Incorrect PIN, please try again.''"

fun code_name :: "grpc_code \<Rightarrow> string" where
  "code_name OK = ''OK''"
| "code_name Canceled = ''Canceled''"
| "code_name Unknown = ''Unknown''"
| "code_name InvalidArgument = ''InvalidArgument''"
| "code_name DeadlineExceeded = ''DeadlineExceeded''"
| "code_name NotFound = ''NotFound''"
| "code_name AlreadyExists = ''AlreadyExists''"
| "code_name PermissionDenied = ''PermissionDenied''"
| "code_name ResourceExhausted = ''ResourceExhausted''"
| "code_name FailedPrecondition = ''FailedPrecondition''"
| "code_name Aborted = ''Aborted''"
| "code_name OutOfRange = ''OutOfRange''"
| "code_name Unimplemented = ''Unimplemented''"
| "code_name Internal = ''Internal''"
| "code_name Unavailable = ''Unavailable''"
| "code_name DataLoss = ''DataLoss''"
| "code_name Unauthenticated = ''Unauthenticated''"

text \<open>\<^verbatim>\<open>err.Error()\<close>\<close>

fun error_string :: "go_error \<Rightarrow> string" where
  "error_string ErrNotFound = ''entry not found''"
| "error_string ErrAlreadyExists = ''entry already exists''"
| "error_string ErrPINPromptCancelled = ''PIN prompt cancelled''"
| "error_string ErrNoPINInputMethod = ''no PIN input method available (no GUI display and no TTY)''"
| "error_string ErrPermissionDenied = ''permission denied''"
| "error_string ErrSessionExpired = ''session expired''"
| "error_string ErrRateLimited = ''rate limited''"
| "error_string (StatusError c m) = ''rpc error: code = '' @ code_name c @ '' desc = '' @ m"
| "error_string (Errorf m) = m"
| "error_string (WrapErr m e) = m @ '': '' @ error_string e"
| "error_string (ErrorSuffix e m) = error_string e @ '': '' @ m"
| "error_string (PINFatalError e) = error_string e"

text \<open>\<^verbatim>\<open>errors.Is(err, target)\<close> for a sentinel target.\<close>

fun errors_is :: "go_error \<Rightarrow> go_error \<Rightarrow> bool" where
  "errors_is (WrapErr m e) t \<longleftrightarrow> WrapErr m e = t \<or> errors_is e t"
| "errors_is (ErrorSuffix e m) t \<longleftrightarrow> ErrorSuffix e m = t \<or> errors_is e t"
| "errors_is (PINFatalError e) t \<longleftrightarrow> PINFatalError e = t \<or> errors_is e t"
| "errors_is e t \<longleftrightarrow> e = t"

text \<open>\<^verbatim>\<open>errors.As(err, *PINFatalError)\<close>: the wrapped error of the first match.\<close>

fun errors_as_fatal :: "go_error \<Rightarrow> go_error option" where
  "errors_as_fatal (PINFatalError e) = Some e"
| "errors_as_fatal (WrapErr m e) = errors_as_fatal e"
| "errors_as_fatal (ErrorSuffix e m) = errors_as_fatal e"
| "errors_as_fatal e = None"

text \<open>\<^verbatim>\<open>status.FromError\<close>: a status anywhere in the chain gives its code.\<close>

fun status_from_error :: "go_error \<Rightarrow> (grpc_code \<times> string) option" where
  "status_from_error (StatusError c m) = Some (c, m)"
| "status_from_error (WrapErr m e) =
     (case status_from_error e of None \<Rightarrow> None | Some (c, _) \<Rightarrow> Some (c, error_string (WrapErr m e)))"
| "status_from_error (ErrorSuffix e m) =
     (case status_from_error e of None \<Rightarrow> None | Some (c, _) \<Rightarrow> Some (c, error_string (ErrorSuffix e m)))"
| "status_from_error (PINFatalError e) =
     (case status_from_error e of None \<Rightarrow> None | Some (c, _) \<Rightarrow> Some (c, error_string e))"
| "status_from_error e = None"

text \<open>What the client of a gRPC call receives for an error the handler returned.\<close>

definition wire_error :: "go_error \<Rightarrow> go_error" where
  "wire_error e = (case status_from_error e of
     None \<Rightarrow> StatusError Unknown (error_string e) | Some (c, m) \<Rightarrow> StatusError c m)"

definition error_code :: "go_error \<Rightarrow> grpc_code" where
  "error_code e = (case status_from_error e of None \<Rightarrow> Unknown | Some (c, m) \<Rightarrow> c)"

lemma errors_is_refl [simp, err_simps]: "errors_is e e"
  by (cases e) simp_all

lemma wire_error_status [simp, err_simps]: "wire_error (StatusError c m) = StatusError c m"
  by (simp add: wire_error_def)

lemma error_code_simps [simp, err_simps]:
  "error_code (StatusError c m) = c"
  "error_code (WrapErr m e) = error_code e"
  "error_code (ErrorSuffix e m) = error_code e"
  "error_code (PINFatalError e) = error_code e"
  "error_code ErrNotFound = Unknown"
  "error_code (Errorf m) = Unknown"
  by (auto simp: error_code_def split: option.splits)

lemma error_code_wire [simp, err_simps]: "error_code (wire_error e) = error_code e"
  by (auto simp: wire_error_def error_code_def split: option.splits)

lemma wire_error_is_status: "\<exists>m. wire_error e = StatusError (error_code e) m"
  by (auto simp: wire_error_def error_code_def split: option.splits)

end
