(* ===== verification/Go_Strings.thy ===== *)
theory Go_Strings
  imports Go_World
begin

text \<open>
  More of the standard library's text functions: quoting (\<^verbatim>\<open>%q\<close>), joining, and the line
  scanner of \<^verbatim>\<open>bufio\<close> with its bound on the length of a line.
\<close>

subsection \<open>Quoting\<close>

text \<open>
  \<^verbatim>\<open>strconv.Quote\<close>, which \<^verbatim>\<open>%q\<close> uses for strings. The table of printable runes from 128
  on is the argument.
\<close>

fun hex_width :: "nat \<Rightarrow> nat \<Rightarrow> string" where
  "hex_width 0 n = []"
| "hex_width (Suc w) n = hex_width w (n div 16) @ [hex_digit (n mod 16)]"

definition is_print :: "(nat \<Rightarrow> bool) \<Rightarrow> nat \<Rightarrow> bool" where
  "is_print P r \<longleftrightarrow> (if r < 128 then 32 \<le> r \<and> r < 127 else P r)"

definition quote_rune :: "(nat \<Rightarrow> bool) \<Rightarrow> nat \<times> string \<Rightarrow> string" where
  "quote_rune P rb =
     (let (r, b) = rb; bs = CHR 0x5C in
      if length b = 1 \<and> r = rune_error then bs # CHR ''x'' # hex_width 2 (of_char (hd b))
      else if r = 34 \<or> r = 92 then [bs, char_of r]
      else if is_print P r then encode_rune r
      else if r = 7 then [bs, CHR ''a''] else if r = 8 then [bs, CHR ''b'']
      else if r = 12 then [bs, CHR ''f''] else if r = 10 then [bs, CHR ''n'']
      else if r = 13 then [bs, CHR ''r''] else if r = 9 then [bs, CHR ''t'']
      else if r = 11 then [bs, CHR ''v'']
      else if r < 32 \<or> r = 127 then bs # CHR ''x'' # hex_width 2 r
      else if r < 65536 then bs # CHR ''u'' # hex_width 4 r
      else bs # CHR ''U'' # hex_width 8 r)"

definition strconv_quote :: "(nat \<Rightarrow> bool) \<Rightarrow> string \<Rightarrow> string" where
  "strconv_quote P s = CHR 0x22 # concat (map (quote_rune P) (rune_segments s)) @ [CHR 0x22]"

subsection \<open>Fields\<close>

text \<open>\<^verbatim>\<open>strings.Fields\<close>\<close>

definition string_fields :: "string \<Rightarrow> string list" where
  "string_fields s = fields_acc (rune_segments s) []"

subsection \<open>Joining\<close>

text \<open>\<^verbatim>\<open>strings.Join\<close>\<close>

fun join_strings :: "string list \<Rightarrow> string \<Rightarrow> string" where
  "join_strings [] sep = []"
| "join_strings [s] sep = s"
| "join_strings (s # ss) sep = s @ sep @ join_strings ss sep"

subsection \<open>Lines\<close>

definition newline :: char where "newline = CHR 0x0A"

text \<open>The longest line, with its end, that fits the buffer of a \<^verbatim>\<open>bufio.Scanner\<close>.\<close>

definition maxTokenSize :: nat where "maxTokenSize = 65536"

definition token_too_long :: go_error where
  "token_too_long = Errorf ''bufio.Scanner: token too long''"

text \<open>The pieces between newlines; an empty piece at the end is no line.\<close>

definition raw_lines :: "bytes \<Rightarrow> string list" where
  "raw_lines s = (let ps = split_byte s newline in if last ps = [] then butlast ps else ps)"

definition drop_cr :: "string \<Rightarrow> string" where
  "drop_cr s = (if s \<noteq> [] \<and> last s = CHR 0x0D then butlast s else s)"

fun scan_tokens :: "string list \<Rightarrow> string list \<times> go_error option" where
  "scan_tokens [] = ([], None)"
| "scan_tokens (l # ls) =
     (if maxTokenSize \<le> length l then ([], Some token_too_long)
      else case scan_tokens ls of (ts, e) \<Rightarrow> (drop_cr l # ts, e))"

text \<open>The lines \<^verbatim>\<open>Scan\<close> yields, and the error \<^verbatim>\<open>Err\<close> gives after them.\<close>

definition scan_lines :: "bytes \<Rightarrow> string list \<times> go_error option" where
  "scan_lines s = scan_tokens (raw_lines s)"

lemma split_byte_append:
  "c \<notin> set a \<Longrightarrow> split_byte (a @ c # b) c = a # split_byte b c"
  by (induction a) (auto split: list.splits)

lemma split_byte_none: "c \<notin> set a \<Longrightarrow> split_byte a c = [a]"
  by (induction a) (auto split: list.splits)

text \<open>A text made of lines that end in newlines has exactly these lines.\<close>

lemma raw_lines_concat:
  assumes "\<And>l. l \<in> set ls \<Longrightarrow> newline \<notin> set l"
  shows "raw_lines (concat (map (\<lambda>l. l @ [newline]) ls)) = ls"
proof -
  have "split_byte (concat (map (\<lambda>l. l @ [newline]) ls)) newline = ls @ [[]]"
    using assms by (induction ls) (simp_all add: split_byte_append split_byte_none)
  then show ?thesis by (simp add: raw_lines_def)
qed

lemma scan_tokens_ok:
  "(\<And>l. l \<in> set ls \<Longrightarrow> length l < maxTokenSize) \<Longrightarrow> scan_tokens ls = (map drop_cr ls, None)"
  by (induction ls) (auto simp: not_le)

lemma scan_lines_concat:
  assumes "\<And>l. l \<in> set ls \<Longrightarrow> newline \<notin> set l \<and> length l < maxTokenSize"
  shows "scan_lines (concat (map (\<lambda>l. l @ [newline]) ls)) = (map drop_cr ls, None)"
  using assms by (simp add: scan_lines_def raw_lines_concat scan_tokens_ok)

text \<open>What \<^verbatim>\<open>TrimSpace\<close> leaves alone, and the spaces it takes off the ends, on ASCII.\<close>

definition trimmed :: "string \<Rightarrow> bool" where
  "trimmed s \<longleftrightarrow> s = [] \<or> \<not> is_space (of_char (hd s)) \<and> \<not> is_space (of_char (last s))"

lemma trim_space_trimmed:
  assumes "ascii s" "trimmed s"
  shows "trim_space s = s"
proof (cases "s = []")
  case False
  with assms(2) have "dropWhile (\<lambda>c. is_space (of_char c)) s = s"
    "dropWhile (\<lambda>c. is_space (of_char c)) (rev s) = rev s"
    by (cases s; simp add: trimmed_def; fail) (cases s rule: rev_cases; use assms(2) in \<open>simp add: trimmed_def\<close>)
  then show ?thesis by (simp add: trim_space_ascii [OF assms(1)])
qed simp

lemma trimmed_Cons: "\<not> is_space (of_char c) \<Longrightarrow> trimmed (c # s) \<longleftrightarrow> s = [] \<or> \<not> is_space (of_char (last s))"
  by (auto simp: trimmed_def)

end
