(* ===== verification/Go_Time.thy ===== *)
theory Go_Time
  imports Go_World
begin

text \<open>
  What the source uses of package \<^verbatim>\<open>time\<close> beyond reading the clock: the calendar
  date of an instant, and the text form of RFC 3339 with nanoseconds in which
  \<^verbatim>\<open>time.Time\<close> goes through JSON. The civil year of the calendar computation
  starts in March, so that the leap day is the last day of it.
\<close>

subsection \<open>The calendar\<close>

definition leap_year :: "int \<Rightarrow> bool" where
  "leap_year y \<longleftrightarrow> y mod 4 = 0 \<and> (y mod 100 \<noteq> 0 \<or> y mod 400 = 0)"

definition days_in_month :: "int \<Rightarrow> int \<Rightarrow> int" where
  "days_in_month m y =
     (if m = 2 then (if leap_year y then 29 else 28)
      else if m \<in> {4, 6, 9, 11} then 30 else 31)"

text \<open>Days since 1 March of the year 0: the March-based year and the day in it.\<close>

definition march_split :: "int \<Rightarrow> int \<times> int" where
  "march_split z =
     (let era = z div 146097; doe = z mod 146097;
          c = min 3 (doe div 36524); r1 = doe - c * 36524;
          q = r1 div 1461; r2 = r1 mod 1461;
          k = min 3 (r2 div 365)
      in (400 * era + 100 * c + 4 * q + k, r2 - 365 * k))"

text \<open>The date of a day counted from 1 January 1970, and back.\<close>

definition civil_of_days :: "int \<Rightarrow> int \<times> int \<times> int" where
  "civil_of_days n =
     (let (y, doy) = march_split (n + 719468);
          mp = (5 * doy + 2) div 153;
          m = (if mp < 10 then mp + 3 else mp - 9)
      in (if m \<le> 2 then y + 1 else y, m, doy - (153 * mp + 2) div 5 + 1))"

definition days_of_civil :: "int \<Rightarrow> int \<Rightarrow> int \<Rightarrow> int" where
  "days_of_civil year m d =
     (let y = (if m \<le> 2 then year - 1 else year);
          mp = (m + 9) mod 12
      in 365 * y + y div 4 - y div 100 + y div 400 + (153 * mp + 2) div 5 + d - 1 - 719468)"

lemma div_bounds:
  fixes a :: int
  assumes "0 < n"
  shows "n * (a div n) \<le> a" "a < n * (a div n) + n"
  using pos_mod_sign [OF assms, of a] pos_mod_bound [OF assms, of a] mult_div_mod_eq [of n a] by linarith+

lemma march_split:
  assumes "march_split z = (y, doy)"
  shows "365 * y + y div 4 - y div 100 + y div 400 + doy = z" "0 \<le> doy" "doy \<le> 365"
    "doy = 365 \<Longrightarrow> leap_year (y + 1)"
proof -
  define era where "era = z div 146097"
  define doe where "doe = z mod 146097"
  define c where "c = min 3 (doe div 36524)"
  define r1 where "r1 = doe - c * 36524"
  define q where "q = r1 div 1461"
  define r2 where "r2 = r1 mod 1461"
  define k where "k = min 3 (r2 div 365)"
  have y: "y = 400 * era + 100 * c + 4 * q + k" and doy: "doy = r2 - 365 * k"
    using assms by (simp_all only: march_split_def Let_def prod.inject era_def doe_def c_def r1_def q_def r2_def k_def)
  have doe: "0 \<le> doe" "doe < 146097" by (simp_all add: doe_def)
  have z: "z = 146097 * era + doe" by (simp add: era_def doe_def)
  have c: "0 \<le> c" "c \<le> 3" "c * 36524 \<le> doe" "c < 3 \<Longrightarrow> doe < c * 36524 + 36524"
    "doe \<le> c * 36524 + 36524"
  proof -
    have e: "36524 * (doe div 36524) \<le> doe" "doe < 36524 * (doe div 36524) + 36524"
      by (simp_all add: div_bounds)
    from e doe have "0 \<le> doe div 36524" "doe div 36524 \<le> 4" by linarith+
    with e doe show "0 \<le> c" "c \<le> 3" "c * 36524 \<le> doe" "c < 3 \<Longrightarrow> doe < c * 36524 + 36524"
      "doe \<le> c * 36524 + 36524"
      unfolding c_def min_def by (auto split: if_split_asm)
  qed
  have r1: "0 \<le> r1" "r1 \<le> 36524" "c < 3 \<Longrightarrow> r1 < 36524" using c by (simp_all add: r1_def)
  have q: "r1 = 1461 * q + r2" "0 \<le> r2" "r2 < 1461" by (simp_all add: q_def r2_def)
  have q': "0 \<le> q" "q \<le> 24" using r1(1,2) q by linarith+
  have k: "0 \<le> k" "k \<le> 3" "365 * k \<le> r2" "k < 3 \<Longrightarrow> r2 < 365 * k + 365"
  proof -
    have e: "365 * (r2 div 365) \<le> r2" "r2 < 365 * (r2 div 365) + 365" by (simp_all add: div_bounds)
    with q(2,3) have "0 \<le> r2 div 365" "r2 div 365 \<le> 4" by linarith+
    with e q(2,3) show "0 \<le> k" "k \<le> 3" "365 * k \<le> r2" "k < 3 \<Longrightarrow> r2 < 365 * k + 365"
      unfolding k_def min_def by (auto split: if_split_asm)
  qed
  show "0 \<le> doy" using k by (simp add: doy)
  show "doy \<le> 365" using k q(3) by (cases "k < 3") (auto simp: doy)
  have Y: "y div 4 = 100 * era + 25 * c + q" "y div 100 = 4 * era + c" "y div 400 = era"
  proof -
    show "y div 4 = 100 * era + 25 * c + q"
      by (rule int_div_pos_eq [where r = k]) (use k in \<open>auto simp: y\<close>)
    show "y div 100 = 4 * era + c"
      by (rule int_div_pos_eq [where r = "4 * q + k"]) (use k q' in \<open>auto simp: y\<close>)
    show "y div 400 = era"
      by (rule int_div_pos_eq [where r = "100 * c + 4 * q + k"]) (use k q' c in \<open>auto simp: y\<close>)
  qed
  show "365 * y + y div 4 - y div 100 + y div 400 + doy = z"
    unfolding Y by (simp add: y doy z) (use q(1) r1_def in linarith)
  show "leap_year (y + 1)" if "doy = 365"
  proof -
    have k3: "k = 3" "r2 = 1460" using that k q(3) by (cases "k < 3"; simp add: doy)+
    have "q = 24 \<Longrightarrow> c = 3" using q(1) r1(3) k3(2) c(2) by linarith
    moreover have y1: "y + 1 = 400 * era + 100 * c + 4 * (q + 1)" by (simp add: y k3)
    moreover have "(y + 1) mod 4 = 0"
      by (rule int_mod_pos_eq [where q = "100 * era + 25 * c + (q + 1)"]) (use y1 in auto)
    moreover have "(y + 1) mod 100 = 4 * (q + 1)" if "q < 24"
      by (rule int_mod_pos_eq [where q = "4 * era + c"]) (use y1 q' that in auto)
    ultimately show ?thesis
      using q' by (cases "q = 24") (auto simp: leap_year_def)
  qed
qed

lemma march_month:
  assumes "0 \<le> doy" "doy \<le> 365" "mp = (5 * doy + 2) div (153 :: int)"
  defines "d \<equiv> doy - (153 * mp + 2) div 5 + 1"
  defines "m \<equiv> (if mp < 10 then mp + 3 else mp - 9)"
  shows "0 \<le> mp" "mp \<le> 11" "1 \<le> d" "(m + 9) mod 12 = mp" "1 \<le> m" "m \<le> 12" "d \<le> 31"
    "m \<in> {4, 6, 9, 11} \<Longrightarrow> d \<le> 30" "m = 2 \<Longrightarrow> d \<le> 29" "m = 2 \<Longrightarrow> doy < 365 \<Longrightarrow> d \<le> 28"
proof -
  have b: "153 * mp \<le> 5 * doy + 2" "5 * doy + 2 < 153 * mp + 153"
    using div_bounds [of 153 "5 * doy + 2"] assms(3) by simp_all
  then have "0 \<le> mp" "mp \<le> 11" using assms(1,2) by linarith+
  then have "mp \<in> {0, 1, 2, 3, 4, 5, 6, 7, 8, 9, 10, 11}" by (simp, presburger)
  with b assms(1,2) show "0 \<le> mp" "mp \<le> 11" "1 \<le> d" "(m + 9) mod 12 = mp" "1 \<le> m" "m \<le> 12" "d \<le> 31"
    "m \<in> {4, 6, 9, 11} \<Longrightarrow> d \<le> 30" "m = 2 \<Longrightarrow> d \<le> 29" "m = 2 \<Longrightarrow> doy < 365 \<Longrightarrow> d \<le> 28"
    unfolding d_def m_def by (elim insertE; simp)+
qed

lemma civil_round_trip:
  assumes "civil_of_days n = (y, m, d)"
  shows "days_of_civil y m d = n" "1 \<le> m" "m \<le> 12" "1 \<le> d" "d \<le> days_in_month m y"
proof -
  obtain y0 doy where s: "march_split (n + 719468) = (y0, doy)" by force
  define mp where "mp = (5 * doy + 2) div 153"
  have eqs: "m = (if mp < 10 then mp + 3 else mp - 9)" "y = (if m \<le> 2 then y0 + 1 else y0)"
    "d = doy - (153 * mp + 2) div 5 + 1"
    using assms by (auto simp: civil_of_days_def s mp_def Let_def)
  note ms = march_split [OF s] and mm = march_month [OF march_split(2,3) [OF s] mp_def, folded eqs]
  show "1 \<le> m" "m \<le> 12" "1 \<le> d" using mm by blast+
  have y0: "(if m \<le> 2 then y - 1 else y) = y0" using eqs(2) by simp
  show "days_of_civil y m d = n"
    using ms(1) by (simp add: days_of_civil_def y0 mm(4)) (simp add: eqs(3))
  show "d \<le> days_in_month m y"
  proof (cases "m = 2")
    case True
    then have "y = y0 + 1" using eqs(2) by simp
    with True ms(3,4) mm(9,10) show ?thesis by (cases "doy = 365") (auto simp: days_in_month_def)
  next
    case False
    with mm(7,8) show ?thesis by (auto simp: days_in_month_def)
  qed
qed

subsection \<open>RFC 3339\<close>

definition pad :: "nat \<Rightarrow> nat \<Rightarrow> string" where
  "pad w n = (let s = dec_nat n in replicate (w - length s) (CHR ''0'') @ s)"

definition drop_zeros :: "string \<Rightarrow> string" where
  "drop_zeros s = rev (dropWhile (\<lambda>c. c = CHR ''0'') (rev s))"

definition date_of :: "time \<Rightarrow> int \<times> int \<times> int" where
  "date_of t = civil_of_days (t div second div 86400)"

text \<open>The years that can be written; \<^verbatim>\<open>MarshalJSON\<close> refuses all others.\<close>

definition json_time :: "time \<Rightarrow> bool" where
  "json_time t \<longleftrightarrow> (let y = fst (date_of t) in 0 \<le> y \<and> y < 10000)"

definition format_rfc3339 :: "time \<Rightarrow> string" where
  "format_rfc3339 t =
     (let (y, m, d) = date_of t;
          sod = nat (t div second mod 86400); ns = nat (t mod second)
      in pad 4 (nat y) @ ''-'' @ pad 2 (nat m) @ ''-'' @ pad 2 (nat d) @ ''T'' @
         pad 2 (sod div 3600) @ '':'' @ pad 2 (sod div 60 mod 60) @ '':'' @ pad 2 (sod mod 60) @
         (if ns = 0 then [] else CHR ''.'' # drop_zeros (pad 9 ns)) @ ''Z'')"

definition digits_value :: "string \<Rightarrow> nat option" where
  "digits_value ds = (if ds \<noteq> [] \<and> list_all is_dec_digit ds then Some (dec_val ds) else None)"

text \<open>The fraction, cut at nine digits, in nanoseconds, and what follows it.\<close>

definition parse_fraction :: "string \<Rightarrow> nat \<times> string" where
  "parse_fraction s =
     (case s of
        c # t \<Rightarrow>
          let ds = takeWhile is_dec_digit t in
          if c = CHR ''.'' \<and> ds \<noteq> []
          then (let ds9 = take 9 ds in dec_val ds9 * 10 ^ (9 - length ds9), dropWhile is_dec_digit t)
          else (0, s)
      | [] \<Rightarrow> (0, s))"

text \<open>The offset of the zone, in seconds.\<close>

definition parse_zone :: "string \<Rightarrow> int option" where
  "parse_zone s =
     (if s = ''Z'' then Some 0
      else case s of
        [sg, h1, h2, c, m1, m2] \<Rightarrow>
          (case (digits_value [h1, h2], digits_value [m1, m2]) of
             (Some h, Some m) \<Rightarrow>
               if h \<le> 23 \<and> m \<le> 59 \<and> c = CHR '':'' \<and> (sg = CHR ''+'' \<or> sg = CHR ''-'')
               then Some ((if sg = CHR ''-'' then -1 else 1) * int ((h * 60 + m) * 60)) else None
           | _ \<Rightarrow> None)
      | _ \<Rightarrow> None)"

definition parse_rfc3339 :: "string \<Rightarrow> time option" where
  "parse_rfc3339 s =
     (let field = (\<lambda>a b. digits_value (take (b - a) (drop a s))) in
      if length s < 19 \<or> s ! 4 \<noteq> CHR ''-'' \<or> s ! 7 \<noteq> CHR ''-'' \<or> s ! 10 \<noteq> CHR ''T''
        \<or> s ! 13 \<noteq> CHR '':'' \<or> s ! 16 \<noteq> CHR '':'' then None
      else case (field 0 4, field 5 7, field 8 10, field 11 13, field 14 16, field 17 19) of
        (Some y, Some m, Some d, Some hh, Some mi, Some ss) \<Rightarrow>
          if 1 \<le> m \<and> m \<le> 12 \<and> 1 \<le> d \<and> int d \<le> days_in_month (int m) (int y)
            \<and> hh \<le> 23 \<and> mi \<le> 59 \<and> ss \<le> 59
          then let (ns, rest) = parse_fraction (drop 19 s) in
            (case parse_zone rest of
               None \<Rightarrow> None
             | Some off \<Rightarrow>
                 Some ((days_of_civil (int y) (int m) (int d) * 86400 + int (hh * 3600 + mi * 60 + ss) - off)
                       * second + int ns))
          else None
      | _ \<Rightarrow> None)"

lemma length_dec_nat: "n < 10 ^ w \<Longrightarrow> 0 < w \<Longrightarrow> length (dec_nat n) \<le> w"
proof (induction n arbitrary: w rule: dec_nat.induct)
  case (1 n)
  show ?case
  proof (cases "n < 10")
    case True
    with "1.prems" show ?thesis by (simp add: dec_nat.simps [of n])
  next
    case False
    then obtain w' where w: "w = Suc w'" "0 < w'"
      using "1.prems" by (cases w; cases "w - 1") auto
    with "1.prems" have "n div 10 < 10 ^ w'" by (simp add: less_mult_imp_div_less mult.commute)
    with "1.IH" [OF False this w(2)] w(1) False show ?thesis by (simp add: dec_nat.simps [of n])
  qed
qed

lemma dec_val_fold: "fold (\<lambda>c n. 10 * n + (of_char c - 48)) s a = a * 10 ^ length s + dec_val s"
proof (induction s arbitrary: a)
  case (Cons c s)
  show ?case
    using Cons [of "10 * a + (of_char c - 48)"] Cons [of "of_char c - 48"]
    by (simp add: dec_val_def algebra_simps)
qed (simp add: dec_val_def)

lemma dec_val_append: "dec_val (a @ b) = dec_val a * 10 ^ length b + dec_val b"
  using dec_val_fold [of b "dec_val a"] by (simp add: dec_val_def)

lemma dec_val_zeros [simp]: "dec_val (replicate k (CHR ''0'')) = 0"
  by (induction k) (simp_all add: dec_val_def)

lemma pad_props:
  assumes "n < 10 ^ w" "0 < w"
  shows "length (pad w n) = w" "dec_val (pad w n) = n" "c \<in> set (pad w n) \<Longrightarrow> is_dec_digit c"
proof -
  show "length (pad w n) = w" using length_dec_nat [OF assms] by (simp add: pad_def Let_def)
  show "dec_val (pad w n) = n" by (simp add: pad_def Let_def dec_val_append dec_val_dec_nat)
  show "c \<in> set (pad w n) \<Longrightarrow> is_dec_digit c"
    using dec_nat_digits [of c n] by (auto simp: pad_def Let_def is_dec_digit_def)
qed

lemma digits_value_pad: "n < 10 ^ w \<Longrightarrow> 0 < w \<Longrightarrow> digits_value (pad w n) = Some n"
  using pad_props [of n w] by (auto simp: digits_value_def list_all_iff)

lemma drop_zeros_split: "\<exists>k. s = drop_zeros s @ replicate k (CHR ''0'')"
proof -
  have "takeWhile (\<lambda>c. c = x) xs = replicate (length (takeWhile (\<lambda>c. c = x) xs)) x" for x :: char and xs
    by (induction xs) auto
  then have "rev (takeWhile (\<lambda>c. c = CHR ''0'') (rev s))
      = replicate (length (takeWhile (\<lambda>c. c = CHR ''0'') (rev s))) (CHR ''0'')"
    by (metis rev_replicate)
  moreover have "s = drop_zeros s @ rev (takeWhile (\<lambda>c. c = CHR ''0'') (rev s))"
    by (metis drop_zeros_def rev_append rev_rev_ident takeWhile_dropWhile_id)
  ultimately show ?thesis by metis
qed

lemma parse_fraction_format:
  assumes "ns < 10 ^ 9"
  shows "parse_fraction ((if ns = 0 then [] else CHR ''.'' # drop_zeros (pad 9 ns)) @ ''Z'') = (ns, ''Z'')"
proof (cases "ns = 0")
  case True
  then show ?thesis by (simp add: parse_fraction_def)
next
  case False
  obtain k where k: "pad 9 ns = drop_zeros (pad 9 ns) @ replicate k (CHR ''0'')"
    using drop_zeros_split by blast
  let ?dz = "drop_zeros (pad 9 ns)"
  have len: "length ?dz + k = 9"
    using arg_cong [OF k, of length] pad_props(1) [OF assms] by simp
  have val: "dec_val ?dz * 10 ^ k = ns"
    using arg_cong [OF k, of dec_val] pad_props(2) [OF assms] by (simp add: dec_val_append)
  have dig: "is_dec_digit c" if "c \<in> set ?dz" for c
    using pad_props(3) [OF assms, of c] that k by (metis UnI1 set_append zero_less_numeral)
  have "?dz \<noteq> []" using val False by (auto simp: dec_val_def)
  moreover have "takeWhile is_dec_digit (?dz @ ''Z'') = ?dz" "dropWhile is_dec_digit (?dz @ ''Z'') = ''Z''"
    using dig by (simp_all add: takeWhile_append dropWhile_append is_dec_digit_def less_eq_char_def)
  moreover have "9 - length ?dz = k" "take 9 ?dz = ?dz" using len by simp_all
  ultimately show ?thesis using False val by (simp add: parse_fraction_def Let_def)
qed

lemma parse_format_rfc3339:
  assumes "json_time t"
  shows "parse_rfc3339 (format_rfc3339 t) = Some t"
proof -
  obtain y m d where date: "date_of t = (y, m, d)" by (rule prod_cases3)
  define sod where "sod = nat (t div second mod 86400)"
  define ns where "ns = nat (t mod second)"
  note civil = civil_round_trip [OF date [unfolded date_of_def]]
  have y: "0 \<le> y" "y < 10000" using assms by (simp_all add: json_time_def date)
  have d: "d \<le> 31" using civil(5) by (simp add: days_in_month_def split: if_splits)
  have sod: "sod < 86400" and ns: "ns < 10 ^ 9" by (simp_all add: sod_def ns_def nat_less_iff)
  have hms: "sod div 3600 < 24" "sod div 60 mod 60 < 60" "sod mod 60 < 60"
    using sod by (simp_all add: less_mult_imp_div_less)
  then have hms59: "sod div 60 mod 60 \<le> 59" "sod mod 60 \<le> 59" by linarith+
  have pads: "nat y < 10 ^ 4" "nat m < 10 ^ 2" "nat d < 10 ^ 2" "sod div 3600 < 10 ^ 2"
    "sod div 60 mod 60 < 10 ^ 2" "sod mod 60 < 10 ^ 2"
    using y civil(3) d hms by simp_all
  note len = pads [THEN pad_props(1), simplified] and val = pads [THEN digits_value_pad, simplified]
  let ?rest = "(if ns = 0 then [] else CHR ''.'' # drop_zeros (pad 9 ns)) @ ''Z''"
  have fmt: "format_rfc3339 t = pad 4 (nat y) @ CHR ''-'' # pad 2 (nat m) @ CHR ''-'' # pad 2 (nat d) @
      CHR ''T'' # pad 2 (sod div 3600) @ CHR '':'' # pad 2 (sod div 60 mod 60) @ CHR '':'' #
      pad 2 (sod mod 60) @ ?rest"
    by (simp add: format_rfc3339_def date Let_def sod_def [symmetric] ns_def [symmetric])
  have secs: "int (sod div 3600 * 3600 + sod div 60 mod 60 * 60 + sod mod 60) = int sod"
  proof -
    have "sod div 3600 = sod div 60 div 60" by (simp flip: div_mult2_eq)
    moreover have "sod div 60 div 60 * 60 + sod div 60 mod 60 = sod div 60"
      "sod div 60 * 60 + sod mod 60 = sod" by (simp_all only: div_mult_mod_eq)
    ultimately show ?thesis by linarith
  qed
  have t: "(days_of_civil y m d * 86400 + int sod) * second + int ns = t"
    unfolding civil(1) by (simp add: sod_def ns_def)
  have "parse_fraction ?rest = (ns, ''Z'')" by (rule parse_fraction_format [OF ns])
  moreover have "int (nat m) = m" "int (nat d) = d" "int (nat y) = y" "1 \<le> nat m" "nat m \<le> 12" "1 \<le> nat d"
    using civil y by simp_all
  moreover have "parse_zone ''Z'' = Some 0" by (simp add: parse_zone_def)
  ultimately show ?thesis
    unfolding fmt parse_rfc3339_def
    using hms59 hms(1) civil(5) t
    by (simp add: len val nth_append Let_def secs [simplified])
qed

end
