(* ===== verification/Pin_Hash.thy ===== *)
theory Pin_Hash
  imports Go_World "HOL-Library.Word"
begin

text \<open>
  \<^verbatim>\<open>internal/pinhash/pinhash.go\<close>: salted hashes of PINs. The key derivation
  \<^verbatim>\<open>argon2.IDKey\<close> is a package outside the repository, so it is the argument \<open>K\<close>
  of the definitions (password, salt, passes, memory, threads, key length). The comparison
  \<^verbatim>\<open>subtle.ConstantTimeCompare\<close> is written out on bytes.
\<close>

unbundle bit_operations_syntax

type_synonym idkey = "bytes \<Rightarrow> bytes \<Rightarrow> nat \<Rightarrow> nat \<Rightarrow> nat \<Rightarrow> nat \<Rightarrow> bytes"

definition argonTime :: nat where "argonTime = 3"
definition argonMemory :: nat where "argonMemory = 64 * 1024"
definition argonThreads :: nat where "argonThreads = 4"
definition argonKeyLen :: nat where "argonKeyLen = 32"
definition pinSaltLen :: nat where "pinSaltLen = 16"

subsection \<open>Constant-time comparison\<close>

definition byte_word :: "char \<Rightarrow> 8 word" where
  "byte_word c = of_nat (of_char c)"

text \<open>The differences of all bytes are collected; the answer is 1 when none differs.\<close>

definition ConstantTimeCompare :: "bytes \<Rightarrow> bytes \<Rightarrow> int" where
  "ConstantTimeCompare x y =
     (if length x \<noteq> length y then 0
      else let v = fold (\<lambda>(a, b) v. v OR (byte_word a XOR byte_word b)) (zip x y) 0
           in if v = 0 then 1 else 0)"

lemma byte_word_inject: "byte_word a = byte_word b \<longleftrightarrow> a = b"
proof
  assume "byte_word a = byte_word b"
  then have "unat (byte_word a) = unat (byte_word b)" by simp
  then have "(of_char a :: nat) = of_char b"
    by (simp add: byte_word_def unat_of_nat)
  then show "a = b" by simp
qed simp

lemma fold_or_zero:
  "fold (\<lambda>(a, b) v. v OR (byte_word a XOR byte_word b)) ps v = 0
     \<longleftrightarrow> v = 0 \<and> (\<forall>(a, b) \<in> set ps. a = b)"
proof (induction ps arbitrary: v)
  case Nil
  then show ?case by simp
next
  case (Cons p ps)
  obtain a b where p: "p = (a, b)" by force
  have "v OR (byte_word a XOR byte_word b) = 0 \<longleftrightarrow> v = 0 \<and> a = b"
    by (metis byte_word_inject or.right_neutral or_eq_0_iff xor_self_eq
        bit.xor_left_self xor.right_neutral)
  then show ?case by (auto simp: p Cons.IH)
qed

lemma ConstantTimeCompare_eq: "ConstantTimeCompare x y = 1 \<longleftrightarrow> x = y"
proof (cases "length x = length y")
  case True
  then have "(\<forall>(a, b) \<in> set (zip x y). a = b) \<longleftrightarrow> x = y"
    by (induction x y rule: list_induct2) auto
  with True show ?thesis
    by (simp add: ConstantTimeCompare_def fold_or_zero)
qed (auto simp: ConstantTimeCompare_def)

subsection \<open>Hash and Verify\<close>

definition Hash :: "idkey \<Rightarrow> string \<Rightarrow> world \<Rightarrow> (go_error + bytes \<times> bytes) \<times> world" where
  "Hash K pin w =
     (if pin = [] then (Inl (Errorf ''PIN must not be empty''), w)
      else case rand_read pinSaltLen w of
        (None, w) \<Rightarrow> (Inl (WrapErr ''failed to generate salt'' (Errorf ''rand'')), w)
      | (Some salt, w) \<Rightarrow>
          (Inr (K pin salt argonTime argonMemory argonThreads argonKeyLen, salt), w))"

definition Verify :: "idkey \<Rightarrow> string \<Rightarrow> bytes \<Rightarrow> bytes \<Rightarrow> bool" where
  "Verify K pin hash salt \<longleftrightarrow>
     (let computed = K pin salt argonTime argonMemory argonThreads argonKeyLen
      in ConstantTimeCompare computed hash = 1)"

lemma Verify_eq:
  "Verify K pin hash salt \<longleftrightarrow> hash = K pin salt argonTime argonMemory argonThreads argonKeyLen"
  by (auto simp: Verify_def ConstantTimeCompare_eq)

lemma Hash_world: "Hash K pin w = (r, w') \<Longrightarrow> w_clock w' = w_clock w"
  by (auto simp: Hash_def world_simps split: if_splits prod.splits option.splits)

lemma Hash_Verify: "Hash K pin w = (Inr (hash, salt), w') \<Longrightarrow> Verify K pin hash salt"
  by (auto simp: Hash_def Verify_eq split: if_splits prod.splits option.splits)

lemma Hash_salt_length: "Hash K pin w = (Inr (hash, salt), w') \<Longrightarrow> length salt = pinSaltLen"
  by (auto simp: Hash_def rand_read_length split: if_splits prod.splits option.splits)

end
