(* ===== verification/Auth_Manager.thy ===== *)
theory Auth_Manager
  imports Go_World
begin

text \<open>
  \<^verbatim>\<open>internal/adapters/grpc/auth.go\<close>: challenge nonces, one-time unlock tickets,
  session tokens and the PIN back-off of the server. A method takes the manager and the
  world and returns its result, the manager and the world; the mutex makes each method one
  atomic step. The three maps hold the expiry of each key (the structs \<^verbatim>\<open>nonceEntry\<close>
  and \<^verbatim>\<open>sessionEntry\<close> have that one field).
\<close>

definition nonceTTL :: int where "nonceTTL = 30 * second"
definition sessionTTL :: int where "sessionTTL = 3600 * second"
definition maxSessions :: nat where "maxSessions = 20"
definition pinLockoutBase :: int where "pinLockoutBase = 2 * second"
definition pinLockoutMax :: int where "pinLockoutMax = 60 * second"

record auth_manager =
  nonces :: "(string \<times> time) list"
  sessions :: "(string \<times> time) list"
  unlockTickets :: "(string \<times> time) list"
  gpgPubKey :: bytes
  gpgFingerprint :: string
  pinConfigured :: bool
  pinFailures :: int
  pinLockedUntil :: time

record verify_result =
  vr_Token :: string
  vr_ExpiresAt :: time
  vr_RequiresPIN :: bool
  vr_UnlockTicket :: string

definition NewAuthManager :: "bytes \<Rightarrow> auth_manager" where
  "NewAuthManager pubKey =
     \<lparr>nonces = [], sessions = [], unlockTickets = [], gpgPubKey = pubKey, gpgFingerprint = [],
      pinConfigured = False, pinFailures = 0, pinLockedUntil = zero_time\<rparr>"

subsection \<open>PIN back-off\<close>

text \<open>The unexported helper; the exported method only adds the lock.\<close>

definition checkPINRateLimit :: "auth_manager \<Rightarrow> world \<Rightarrow> go_error option \<times> world" where
  "checkPINRateLimit am w =
     (let (now, w) = time_now w in
      if now < pinLockedUntil am
      then let (now', w) = time_now w;
               remaining = round_second (pinLockedUntil am - now')
           in (Some (Errorf (''too many failed PIN attempts, retry in '' @ duration_string remaining)), w)
      else (None, w))"

definition pin_backoff :: "int \<Rightarrow> int" where
  "pin_backoff failures =
     (let backoff = pinLockoutBase * 2 ^ nat (min (failures - 1) 5)
      in if backoff > pinLockoutMax then pinLockoutMax else backoff)"

text \<open>
  The count is unbounded here; the \<^verbatim>\<open>int\<close> of the code would wrap around after 2^63 failures.
\<close>

definition RecordPINFailure :: "auth_manager \<Rightarrow> world \<Rightarrow> auth_manager \<times> world" where
  "RecordPINFailure am w =
     (let failures = pinFailures am + 1;
          (now, w) = time_now w
      in (am\<lparr>pinFailures := failures, pinLockedUntil := now + pin_backoff failures\<rparr>, w))"

definition ResetPINFailures :: "auth_manager \<Rightarrow> auth_manager" where
  "ResetPINFailures am = am\<lparr>pinFailures := 0, pinLockedUntil := zero_time\<rparr>"

definition CheckPINRateLimit :: "auth_manager \<Rightarrow> world \<Rightarrow> go_error option \<times> world" where
  "CheckPINRateLimit am w = checkPINRateLimit am w"

definition SetPINConfigured :: "bool \<Rightarrow> auth_manager \<Rightarrow> auth_manager" where
  "SetPINConfigured configured am = am\<lparr>pinConfigured := configured\<rparr>"

definition GPGPublicKey :: "auth_manager \<Rightarrow> bytes" where
  "GPGPublicKey am = gpgPubKey am"

definition SetGPGFingerprint :: "string \<Rightarrow> auth_manager \<Rightarrow> auth_manager" where
  "SetGPGFingerprint fp am = am\<lparr>gpgFingerprint := fp\<rparr>"

definition GPGFingerprint :: "auth_manager \<Rightarrow> string" where
  "GPGFingerprint am = gpgFingerprint am"

subsection \<open>Challenges, tickets, sessions\<close>

definition generateTokenSafe :: "world \<Rightarrow> (go_error + string) \<times> world" where
  "generateTokenSafe w =
     (case rand_read 32 w of
        (None, w) \<Rightarrow> (Inl (WrapErr ''crypto/rand failed'' (Errorf ''rand'')), w)
      | (Some b, w) \<Rightarrow> (Inr (hex_encode b), w))"

definition GenerateChallenge ::
  "auth_manager \<Rightarrow> world \<Rightarrow> (go_error + string) \<times> auth_manager \<times> world" where
  "GenerateChallenge am w =
     (case generateTokenSafe w of
        (Inl e, w) \<Rightarrow> (Inl e, am, w)
      | (Inr nonce, w) \<Rightarrow>
          let (now, w) = time_now w;
              swept = sweep_loop now (nonces am)
          in (Inr nonce, am\<lparr>nonces := AList.update nonce (now + nonceTTL) swept\<rparr>, w))"

definition FormatChallenge :: "string \<Rightarrow> string" where
  "FormatChallenge nonce = ''sekeve-challenge:'' @ nonce"

definition unauthenticated :: "string \<Rightarrow> go_error" where
  "unauthenticated m = StatusError Unauthenticated m"

text \<open>
  The tail the two ways to a session share: sweep the sessions at \<open>now\<close>, refuse at the cap
  with the given error, else draw a token.
\<close>

definition issue_session ::
  "time \<Rightarrow> go_error \<Rightarrow> auth_manager \<Rightarrow> world \<Rightarrow> (go_error + string \<times> time) \<times> auth_manager \<times> world"
where
  "issue_session now full am w =
     (let am = am\<lparr>sessions := sweep_loop now (sessions am)\<rparr> in
      if length (sessions am) \<ge> maxSessions then (Inl full, am, w)
      else case generateTokenSafe w of
        (Inl e, w) \<Rightarrow> (Inl (WrapErr ''generate session token'' e), am, w)
      | (Inr token, w) \<Rightarrow>
          let expiresAt = now + sessionTTL
          in (Inr (token, expiresAt), am\<lparr>sessions := AList.update token expiresAt (sessions am)\<rparr>, w))"

definition VerifyNonce ::
  "string \<Rightarrow> auth_manager \<Rightarrow> world \<Rightarrow> (go_error + verify_result) \<times> auth_manager \<times> world" where
  "VerifyNonce nonce am w =
     (case map_of (nonces am) nonce of
        None \<Rightarrow> (Inl (unauthenticated ''nonce not found''), am, w)
      | Some expiresAt \<Rightarrow>
          let (t, w) = time_now w;
              am = am\<lparr>nonces := AList.delete nonce (nonces am)\<rparr>
          in if t > expiresAt then (Inl (unauthenticated ''nonce expired''), am, w)
          else if pinConfigured am then
            let (now, w) = time_now w;
                am = am\<lparr>unlockTickets := sweep_loop now (unlockTickets am)\<rparr>
            in (case generateTokenSafe w of
                  (Inl e, w) \<Rightarrow> (Inl (WrapErr ''generate unlock ticket'' e), am, w)
                | (Inr ticket, w) \<Rightarrow>
                    let (now', w) = time_now w in
                    (Inr \<lparr>vr_Token = [], vr_ExpiresAt = zero_time, vr_RequiresPIN = True,
                          vr_UnlockTicket = ticket\<rparr>,
                     am\<lparr>unlockTickets := AList.update ticket (now' + nonceTTL) (unlockTickets am)\<rparr>, w))
          else
            let (now, w) = time_now w in
            (case issue_session now (StatusError ResourceExhausted ''too many active sessions'') am w of
               (Inl e, am, w) \<Rightarrow> (Inl e, am, w)
             | (Inr (token, expiresAt), am, w) \<Rightarrow>
                 (Inr \<lparr>vr_Token = token, vr_ExpiresAt = expiresAt, vr_RequiresPIN = False,
                       vr_UnlockTicket = []\<rparr>, am, w)))"

definition RedeemUnlockTicket ::
  "string \<Rightarrow> auth_manager \<Rightarrow> world \<Rightarrow> (go_error + string \<times> time) \<times> auth_manager \<times> world" where
  "RedeemUnlockTicket ticket am w =
     (case map_of (unlockTickets am) ticket of
        None \<Rightarrow> (Inl (Errorf ''invalid or expired unlock ticket''), am, w)
      | Some expiresAt \<Rightarrow>
          let am = am\<lparr>unlockTickets := AList.delete ticket (unlockTickets am)\<rparr>;
              (now, w) = time_now w
          in if now > expiresAt then (Inl (Errorf ''unlock ticket expired''), am, w)
          else issue_session now (Errorf ''too many active sessions'') am w)"

definition SetTestToken :: "string \<Rightarrow> auth_manager \<Rightarrow> world \<Rightarrow> auth_manager \<times> world" where
  "SetTestToken token am w =
     (let (now, w) = time_now w
      in (am\<lparr>sessions := AList.update token (now + 24 * 3600 * second) (sessions am)\<rparr>, w))"

definition validateToken :: "string \<Rightarrow> auth_manager \<Rightarrow> world \<Rightarrow> bool \<times> auth_manager \<times> world" where
  "validateToken token am w =
     (case map_of (sessions am) token of
        None \<Rightarrow> (False, am, w)
      | Some expiresAt \<Rightarrow>
          let (now, w) = time_now w in
          if now > expiresAt
          then (False, am\<lparr>sessions := AList.delete token (sessions am)\<rparr>, w)
          else (True, am, w))"

definition InvalidateAllSessions :: "auth_manager \<Rightarrow> auth_manager" where
  "InvalidateAllSessions am = am\<lparr>sessions := []\<rparr>"

definition RevokeSession :: "string \<Rightarrow> auth_manager \<Rightarrow> auth_manager" where
  "RevokeSession token am = am\<lparr>sessions := AList.delete token (sessions am)\<rparr>"

definition SweepExpired :: "auth_manager \<Rightarrow> world \<Rightarrow> auth_manager \<times> world" where
  "SweepExpired am w =
     (let (now, w) = time_now w
      in (am\<lparr>sessions := sweep_loop now (sessions am), nonces := sweep_loop now (nonces am),
             unlockTickets := sweep_loop now (unlockTickets am)\<rparr>, w))"

text \<open>
  The background goroutine: it waits for the ticker or for the end of the context, over the
  sequence of events it is woken by.
\<close>

datatype sweeper_event = CtxDone | TickerFired

fun StartSweeper :: "sweeper_event list \<Rightarrow> auth_manager \<Rightarrow> world \<Rightarrow> auth_manager \<times> world" where
  "StartSweeper [] am w = (am, w)"
| "StartSweeper (CtxDone # evs) am w = (am, w)"
| "StartSweeper (TickerFired # evs) am w =
     (let (am, w) = SweepExpired am w in StartSweeper evs am w)"

text \<open>The full method names that need no token.\<close>

definition skipAuthMethods :: "string set" where
  "skipAuthMethods =
     {''/sekeve.v1.Sekeve/Authenticate'', ''/sekeve.v1.Sekeve/VerifyChallenge'',
      ''/sekeve.v1.Sekeve/HasPIN'', ''/sekeve.v1.Sekeve/Unlock'', ''/grpc.health.v1.Health/Check''}"

subsection \<open>What one operation changes\<close>

lemma generateTokenSafe_clock [world_simps]:
  "generateTokenSafe w = (r, w') \<Longrightarrow> w_clock w' = w_clock w"
  by (auto simp: generateTokenSafe_def world_simps split: prod.splits option.splits)

lemma generateTokenSafe_length: "generateTokenSafe w = (Inr t, w') \<Longrightarrow> length t = 64"
  by (auto simp: generateTokenSafe_def dest: rand_read_length split: prod.splits option.splits)

lemma issue_session_cases [consumes 1, case_names full failed issued]:
  assumes "issue_session now full am w = (r, am', w')"
  obtains
    (full) "r = Inl full" "maxSessions \<le> length (sweep_loop now (sessions am))"
      "am' = am\<lparr>sessions := sweep_loop now (sessions am)\<rparr>" "w' = w"
  | (failed) e where "r = Inl (WrapErr ''generate session token'' e)"
      "am' = am\<lparr>sessions := sweep_loop now (sessions am)\<rparr>" "w_clock w' = w_clock w"
  | (issued) token where "r = Inr (token, now + sessionTTL)" "length token = 64"
      "length (sweep_loop now (sessions am)) < maxSessions"
      "am' = am\<lparr>sessions := AList.update token (now + sessionTTL) (sweep_loop now (sessions am))\<rparr>"
      "w_clock w' = w_clock w"
  using assms generateTokenSafe_clock generateTokenSafe_length
  by (fastforce simp: issue_session_def Let_def split: if_splits prod.splits sum.splits)

lemma issue_session_frame:
  assumes "issue_session now full am w = (r, am', w')"
  shows "nonces am' = nonces am \<and> unlockTickets am' = unlockTickets am
    \<and> pinConfigured am' = pinConfigured am \<and> pinFailures am' = pinFailures am
    \<and> pinLockedUntil am' = pinLockedUntil am \<and> gpgPubKey am' = gpgPubKey am
    \<and> gpgFingerprint am' = gpgFingerprint am \<and> w_clock w' = w_clock w"
  using assms by (cases rule: issue_session_cases) simp_all

text \<open>The two configuration fields change only through their setters.\<close>

lemma VerifyNonce_frame [auth_simps]:
  assumes "VerifyNonce nonce am w = (r, am', w')"
  shows "pinConfigured am' = pinConfigured am" "pinFailures am' = pinFailures am"
    "pinLockedUntil am' = pinLockedUntil am" "gpgPubKey am' = gpgPubKey am"
    "gpgFingerprint am' = gpgFingerprint am"
  using assms
  by (auto simp: VerifyNonce_def Let_def dest!: issue_session_frame
      split: option.splits prod.splits if_splits sum.splits)

lemma RedeemUnlockTicket_frame [auth_simps]:
  assumes "RedeemUnlockTicket ticket am w = (r, am', w')"
  shows "pinConfigured am' = pinConfigured am" "pinFailures am' = pinFailures am"
    "pinLockedUntil am' = pinLockedUntil am" "gpgPubKey am' = gpgPubKey am"
    "gpgFingerprint am' = gpgFingerprint am" "nonces am' = nonces am"
  using assms
  by (auto simp: RedeemUnlockTicket_def Let_def dest!: issue_session_frame
      split: option.splits prod.splits if_splits)

lemma GenerateChallenge_frame [auth_simps]:
  assumes "GenerateChallenge am w = (r, am', w')"
  shows "pinConfigured am' = pinConfigured am" "pinFailures am' = pinFailures am"
    "pinLockedUntil am' = pinLockedUntil am" "gpgPubKey am' = gpgPubKey am"
    "gpgFingerprint am' = gpgFingerprint am" "sessions am' = sessions am"
    "unlockTickets am' = unlockTickets am"
  using assms by (auto simp: GenerateChallenge_def Let_def split: prod.splits sum.splits)

lemma validateToken_frame [auth_simps]:
  assumes "validateToken token am w = (b, am', w')"
  shows "pinConfigured am' = pinConfigured am" "pinFailures am' = pinFailures am"
    "pinLockedUntil am' = pinLockedUntil am" "gpgPubKey am' = gpgPubKey am"
    "gpgFingerprint am' = gpgFingerprint am" "nonces am' = nonces am"
    "unlockTickets am' = unlockTickets am"
  using assms by (auto simp: validateToken_def Let_def split: prod.splits option.splits if_splits)

lemma CheckPINRateLimit_clock [world_simps]:
  "CheckPINRateLimit am w = (r, w') \<Longrightarrow> w_clock w \<le> w_clock w'"
  unfolding CheckPINRateLimit_def checkPINRateLimit_def Let_def
  by (auto split: prod.splits if_splits dest!: time_now_mono)

lemma CheckPINRateLimit_None:
  "CheckPINRateLimit am w = (None, w') \<Longrightarrow> w' = snd (time_now w) \<and> pinLockedUntil am \<le> fst (time_now w)"
  by (auto simp: CheckPINRateLimit_def checkPINRateLimit_def Let_def split: prod.splits if_splits)

lemma CheckPINRateLimit_locked:
  "fst (time_now w) < pinLockedUntil am \<Longrightarrow> \<exists>e. fst (CheckPINRateLimit am w) = Some (Errorf e)"
  by (auto simp: CheckPINRateLimit_def checkPINRateLimit_def Let_def split: prod.splits)

subsection \<open>Live tokens\<close>

text \<open>A token is accepted at \<open>now\<close> when it is in the table and its expiry is not past.\<close>

definition session_live :: "auth_manager \<Rightarrow> time \<Rightarrow> string \<Rightarrow> bool" where
  "session_live am now token \<longleftrightarrow>
     (case map_of (sessions am) token of None \<Rightarrow> False | Some e \<Rightarrow> now \<le> e)"

lemma session_live_tt: "session_live am now token = tt.live now (sessions am) token"
  by (simp add: session_live_def tt.live_def)

lemma validateToken_live:
  "fst (validateToken token am w) = session_live am (fst (time_now w)) token"
  by (auto simp: validateToken_def session_live_def Let_def split: option.splits prod.splits)

lemma validateToken_other:
  assumes "validateToken token am w = (b, am', w')" "t \<noteq> token"
  shows "map_of (sessions am') t = map_of (sessions am) t"
  using assms by (auto simp: validateToken_def Let_def split: option.splits prod.splits if_splits)

subsection \<open>The invariant of the manager\<close>

text \<open>
  The maps are maps, no more sessions than the cap, no negative failure count, and no entry
  that outlives its time to live counted from now.
\<close>

definition ttl_bounded :: "int \<Rightarrow> time \<Rightarrow> (string \<times> time) list \<Rightarrow> bool" where
  "ttl_bounded ttl now m \<longleftrightarrow> (\<forall>k e. map_of m k = Some e \<longrightarrow> e \<le> now + ttl)"

definition auth_inv :: "auth_manager \<Rightarrow> world \<Rightarrow> bool" where
  "auth_inv am w \<longleftrightarrow>
     gmap_ok (nonces am) \<and> gmap_ok (sessions am) \<and> gmap_ok (unlockTickets am)
     \<and> length (sessions am) \<le> maxSessions \<and> 0 \<le> pinFailures am
     \<and> ttl_bounded nonceTTL (w_clock w) (nonces am)
     \<and> ttl_bounded sessionTTL (w_clock w) (sessions am)
     \<and> ttl_bounded nonceTTL (w_clock w) (unlockTickets am)"

lemma ttl_bounded_mono: "ttl_bounded ttl t m \<Longrightarrow> t \<le> t' \<Longrightarrow> ttl_bounded ttl t' m"
  by (fastforce simp: ttl_bounded_def)

lemma ttl_bounded_update:
  "ttl_bounded ttl t m \<Longrightarrow> e \<le> t + ttl \<Longrightarrow> ttl_bounded ttl t (AList.update k e m)"
  by (auto simp: ttl_bounded_def)

lemma ttl_bounded_delete: "ttl_bounded ttl t m \<Longrightarrow> ttl_bounded ttl t (AList.delete k m)"
  by (auto simp: ttl_bounded_def)

lemma ttl_bounded_sweep: "gmap_ok m \<Longrightarrow> ttl_bounded ttl t m \<Longrightarrow> ttl_bounded ttl t (sweep_loop now m)"
  by (auto simp: ttl_bounded_def tt.get_sweep split: option.splits if_splits)

lemma ttl_bounded_Nil [simp]: "ttl_bounded ttl t []"
  by (simp add: ttl_bounded_def)

lemmas ttl_bounded_ops = ttl_bounded_update ttl_bounded_delete ttl_bounded_sweep

lemma auth_inv_clock: "auth_inv am w \<Longrightarrow> w_clock w \<le> w_clock w' \<Longrightarrow> auth_inv am w'"
  by (auto simp: auth_inv_def intro: ttl_bounded_mono)

lemma auth_inv_New: "auth_inv (NewAuthManager pk) w"
  by (simp add: auth_inv_def NewAuthManager_def)

lemma delete_length_le: "length (AList.delete k m) \<le> length m"
  by (simp add: AList.delete_eq)

lemma auth_inv_issue_session:
  assumes run: "issue_session now full am w = (r, am', w')" and inv: "auth_inv am w"
    and now: "now = w_clock w"
  shows "auth_inv am' w'"
  using run
proof (cases rule: issue_session_cases)
  case full
  then show ?thesis using inv tt.size_sweep [of "sessions am" now]
    by (auto simp: auth_inv_def intro: ttl_bounded_ops)
next
  case failed
  then show ?thesis using inv tt.size_sweep [of "sessions am" now]
    by (auto simp: auth_inv_def intro: ttl_bounded_ops)
next
  case (issued token)
  then show ?thesis
    using inv tt.capped_put [of "sweep_loop now (sessions am)" maxSessions token "now + sessionTTL"]
    by (auto simp: auth_inv_def now intro!: ttl_bounded_ops)
qed

lemma auth_inv_VerifyNonce:
  assumes run: "VerifyNonce nonce am w = (r, am', w')" and inv: "auth_inv am w"
  shows "auth_inv am' w'"
proof (cases "map_of (nonces am) nonce")
  case None
  with run inv show ?thesis by (simp add: VerifyNonce_def)
next
  case (Some e)
  obtain t w1 where t: "time_now w = (t, w1)" by force
  obtain now w2 where now: "time_now w1 = (now, w2)" by force
  let ?am = "am\<lparr>nonces := AList.delete nonce (nonces am)\<rparr>"
  have clocks: "w_clock w \<le> w_clock w1" "w_clock w1 \<le> w_clock w2" "now = w_clock w2"
    using t now by (auto dest!: time_now_mono)
  have inv1: "auth_inv ?am w1" and inv2: "auth_inv ?am w2"
    using inv clocks by (auto simp: auth_inv_def intro: ttl_bounded_ops ttl_bounded_mono)
  consider "t > e" | "t \<le> e" "pinConfigured am" | "t \<le> e" "\<not> pinConfigured am" by linarith
  then show ?thesis
  proof cases
    case 1
    with run Some t inv1 show ?thesis by (simp add: VerifyNonce_def)
  next
    case 2
    let ?am2 = "?am\<lparr>unlockTickets := sweep_loop now (unlockTickets am)\<rparr>"
    have inv3: "auth_inv ?am2 w2"
      using inv2 by (auto simp: auth_inv_def intro: ttl_bounded_ops)
    obtain g w3 where g: "generateTokenSafe w2 = (g, w3)" by force
    obtain now' w4 where now': "time_now w3 = (now', w4)" by force
    have "w_clock w2 \<le> w_clock w4" "now' = w_clock w4" "w_clock w3 = w_clock w2"
      using time_now_mono [OF now'] generateTokenSafe_clock [OF g] by auto
    then have inv4: "auth_inv ?am2 w3" "auth_inv ?am2 w4" using inv3 by (auto intro: auth_inv_clock)
    show ?thesis
    proof (cases g)
      case (Inl e')
      with run Some t now 2 g inv4 show ?thesis by (simp add: VerifyNonce_def)
    next
      case (Inr ticket)
      with run Some t now now' 2 g
      have res: "am' = ?am2\<lparr>unlockTickets := AList.update ticket (now' + nonceTTL)
                 (sweep_loop now (unlockTickets am))\<rparr>" "w' = w4"
        by (auto simp: VerifyNonce_def)
      from inv4(2) show ?thesis
        unfolding res \<open>now' = w_clock w4\<close>
        by (auto simp: auth_inv_def intro: ttl_bounded_update)
    qed
  next
    case 3
    with run Some t now show ?thesis
      using auth_inv_issue_session [OF _ inv2 clocks(3)]
      by (auto simp: VerifyNonce_def split: prod.splits sum.splits)
  qed
qed

lemma auth_inv_RedeemUnlockTicket:
  assumes run: "RedeemUnlockTicket ticket am w = (r, am', w')" and inv: "auth_inv am w"
  shows "auth_inv am' w'"
proof (cases "map_of (unlockTickets am) ticket")
  case None
  with run inv show ?thesis by (simp add: RedeemUnlockTicket_def)
next
  case (Some e)
  obtain now w1 where now: "time_now w = (now, w1)" by force
  let ?am = "am\<lparr>unlockTickets := AList.delete ticket (unlockTickets am)\<rparr>"
  have inv1: "auth_inv ?am w1"
    using inv time_now_mono [OF now]
    by (auto simp: auth_inv_def intro: ttl_bounded_ops ttl_bounded_mono)
  with run Some now show ?thesis
    using auth_inv_issue_session [OF _ inv1] time_now_mono [OF now]
    by (auto simp: RedeemUnlockTicket_def Let_def split: if_splits)
qed

lemma auth_inv_GenerateChallenge:
  "GenerateChallenge am w = (r, am', w') \<Longrightarrow> auth_inv am w \<Longrightarrow> auth_inv am' w'"
  unfolding GenerateChallenge_def Let_def
  by (auto simp: auth_inv_def split: prod.splits sum.splits intro!: ttl_bounded_ops
      intro: ttl_bounded_mono dest!: generateTokenSafe_clock time_now_mono)

lemma auth_inv_validateToken:
  "validateToken token am w = (b, am', w') \<Longrightarrow> auth_inv am w \<Longrightarrow> auth_inv am' w'"
  unfolding validateToken_def Let_def
  using delete_length_le [of token "sessions am"]
  by (auto simp: auth_inv_def split: option.splits prod.splits if_splits intro!: ttl_bounded_ops
      intro: ttl_bounded_mono dest!: time_now_mono)

lemma auth_inv_RecordPINFailure:
  "RecordPINFailure am w = (am', w') \<Longrightarrow> auth_inv am w \<Longrightarrow> auth_inv am' w'"
  unfolding RecordPINFailure_def Let_def
  by (auto simp: auth_inv_def split: prod.splits intro: ttl_bounded_mono dest!: time_now_mono)

lemma auth_inv_SweepExpired:
  "SweepExpired am w = (am', w') \<Longrightarrow> auth_inv am w \<Longrightarrow> auth_inv am' w'"
  unfolding SweepExpired_def Let_def
  using tt.size_sweep [of "sessions am" "fst (time_now w)"]
  by (auto simp: auth_inv_def split: prod.splits intro!: ttl_bounded_ops
      intro: ttl_bounded_mono order_trans dest!: time_now_mono)

lemma auth_inv_setters [intro]:
  "auth_inv am w \<Longrightarrow> auth_inv (ResetPINFailures am) w"
  "auth_inv am w \<Longrightarrow> auth_inv (SetPINConfigured b am) w"
  "auth_inv am w \<Longrightarrow> auth_inv (SetGPGFingerprint fp am) w"
  "auth_inv am w \<Longrightarrow> auth_inv (InvalidateAllSessions am) w"
  "auth_inv am w \<Longrightarrow> auth_inv (RevokeSession token am) w"
  using delete_length_le [of token "sessions am"]
  by (auto simp: auth_inv_def ResetPINFailures_def SetPINConfigured_def SetGPGFingerprint_def
      InvalidateAllSessions_def RevokeSession_def intro: ttl_bounded_ops)

lemmas auth_inv_ops = auth_inv_VerifyNonce auth_inv_RedeemUnlockTicket auth_inv_GenerateChallenge
  auth_inv_validateToken auth_inv_RecordPINFailure auth_inv_SweepExpired

subsection \<open>Reachable managers\<close>

text \<open>
  The manager's life: every method the server calls, in any order, with the clock moving
  on between calls. \<^term>\<open>SetTestToken\<close>, which only tests call, is not one of them.
\<close>

datatype auth_op =
    OpGenerate | OpVerify string | OpRedeem string | OpValidate string | OpInvalidateAll
  | OpRevoke string | OpSweep | OpRecordFailure | OpResetFailures | OpCheckRate
  | OpSetPINConfigured bool | OpSetFingerprint string

fun auth_exec :: "auth_op \<Rightarrow> auth_manager \<Rightarrow> world \<Rightarrow> auth_manager \<times> world" where
  "auth_exec OpGenerate am w = snd (GenerateChallenge am w)"
| "auth_exec (OpVerify n) am w = snd (VerifyNonce n am w)"
| "auth_exec (OpRedeem t) am w = snd (RedeemUnlockTicket t am w)"
| "auth_exec (OpValidate t) am w = snd (validateToken t am w)"
| "auth_exec OpInvalidateAll am w = (InvalidateAllSessions am, w)"
| "auth_exec (OpRevoke t) am w = (RevokeSession t am, w)"
| "auth_exec OpSweep am w = SweepExpired am w"
| "auth_exec OpRecordFailure am w = RecordPINFailure am w"
| "auth_exec OpResetFailures am w = (ResetPINFailures am, w)"
| "auth_exec OpCheckRate am w = (am, snd (CheckPINRateLimit am w))"
| "auth_exec (OpSetPINConfigured b) am w = (SetPINConfigured b am, w)"
| "auth_exec (OpSetFingerprint fp) am w = (SetGPGFingerprint fp am, w)"

inductive auth_step :: "auth_manager \<times> world \<Rightarrow> auth_manager \<times> world \<Rightarrow> bool" where
  auth_call: "w_clock w \<le> w_clock w1 \<Longrightarrow> auth_exec oper am w1 = (am', w') \<Longrightarrow>
    auth_step (am, w) (am', w')"

inductive_simps auth_step_simps: "auth_step (am, w) s'"

definition auth_start :: "auth_manager \<times> world \<Rightarrow> bool" where
  "auth_start s \<longleftrightarrow> (\<exists>pk. fst s = NewAuthManager pk)"

lemma auth_exec_inv:
  assumes "auth_exec oper am w = (am', w')" "auth_inv am w"
  shows "auth_inv am' w'"
proof (cases oper)
  case OpCheckRate
  with assms show ?thesis
    using CheckPINRateLimit_clock [of am w "fst (CheckPINRateLimit am w)" w']
    by (auto intro: auth_inv_clock simp: prod_eq_iff)
qed (use assms auth_inv_ops in \<open>auto simp: prod_eq_iff split: prod.splits\<close>)

interpretation auth_sys: invariant_system auth_start auth_step "\<lambda>(am, w). auth_inv am w"
proof unfold_locales
  show "case s of (am, w) \<Rightarrow> auth_inv am w" if "auth_start s" for s
    using that by (cases s) (auto simp: auth_start_def auth_inv_New)
  show "case s' of (am, w) \<Rightarrow> auth_inv am w"
    if "case s of (am, w) \<Rightarrow> auth_inv am w" "auth_step s s'" for s s'
    using that by (cases s) (auto simp: auth_step_simps intro: auth_exec_inv auth_inv_clock)
qed

text \<open>A run of calls in a given order, and that every state of it is reachable.\<close>

fun auth_run :: "auth_op list \<Rightarrow> auth_manager \<Rightarrow> world \<Rightarrow> auth_manager \<times> world" where
  "auth_run [] am w = (am, w)"
| "auth_run (oper # opers) am w = (case auth_exec oper am w of (am, w) \<Rightarrow> auth_run opers am w)"

lemma auth_run_reach:
  "reach_from auth_start auth_step (am, w) \<Longrightarrow> reach_from auth_start auth_step (auth_run opers am w)"
proof (induction opers am w rule: auth_run.induct)
  case (2 oper opers am w)
  obtain am1 w1 where e: "auth_exec oper am w = (am1, w1)" by force
  then have "auth_step (am, w) (am1, w1)" by (auto intro: auth_step.intros)
  with 2 e show ?case by (auto intro: reach_from.reach_trans)
qed simp

lemma auth_run_New: "reach_from auth_start auth_step (auth_run opers (NewAuthManager pk) w)"
  by (rule auth_run_reach, rule reach_from.reach_start) (auto simp: auth_start_def)

subsection \<open>Consumption, gates and the back-off schedule\<close>

lemma VerifyNonce_consumed:
  "VerifyNonce n am w = (r, am', w') \<Longrightarrow> map_of (nonces am') n = None"
  by (auto simp: VerifyNonce_def Let_def dest!: issue_session_frame
      split: option.splits prod.splits if_splits sum.splits)

lemma RedeemUnlockTicket_consumed:
  "RedeemUnlockTicket t am w = (r, am', w') \<Longrightarrow> map_of (unlockTickets am') t = None"
  by (auto simp: RedeemUnlockTicket_def Let_def dest!: issue_session_frame
      split: option.splits prod.splits if_splits)

lemma VerifyNonce_pin_sessions:
  "pinConfigured am \<Longrightarrow> VerifyNonce n am w = (r, am', w') \<Longrightarrow> sessions am' = sessions am"
  by (auto simp: VerifyNonce_def Let_def split: option.splits prod.splits if_splits sum.splits)

lemma VerifyNonce_pin_result:
  "pinConfigured am \<Longrightarrow> VerifyNonce n am w = (Inr vr, am', w') \<Longrightarrow>
   vr_RequiresPIN vr \<and> vr_Token vr = [] \<and>
   map_of (unlockTickets am') (vr_UnlockTicket vr) = Some (w_clock w' + nonceTTL)"
  by (auto simp: VerifyNonce_def Let_def dest!: time_now_mono
      split: option.splits prod.splits if_splits sum.splits)

lemma issue_session_live:
  assumes "issue_session now full am w = (Inr (token, e), am', w')"
  shows "e = now + sessionTTL \<and> map_of (sessions am') token = Some e \<and> w_clock w' = w_clock w"
  using assms by (cases rule: issue_session_cases) simp_all

lemma VerifyNonce_session_result:
  assumes "\<not> pinConfigured am" "VerifyNonce n am w = (Inr vr, am', w')"
  shows "\<not> vr_RequiresPIN vr \<and> vr_ExpiresAt vr = w_clock w' + sessionTTL \<and>
    map_of (sessions am') (vr_Token vr) = Some (vr_ExpiresAt vr)"
  using assms
  by (auto simp: VerifyNonce_def Let_def dest!: issue_session_live time_now_mono
      split: option.splits prod.splits if_splits sum.splits)

lemma pin_backoff_eq:
  assumes "1 \<le> n"
  shows "pin_backoff (int n) = min 60 (2 ^ n) * second"
proof (cases "n \<le> 6")
  case True
  with assms have "n \<in> {1, 2, 3, 4, 5, 6}" by auto
  then show ?thesis
    by (auto simp: pin_backoff_def pinLockoutBase_def pinLockoutMax_def Let_def)
next
  case False
  then have "(2::int) ^ 6 \<le> 2 ^ n" by (intro power_increasing) auto
  moreover have "min (int n - 1) 5 = 5" using False by simp
  ultimately show ?thesis
    by (simp add: pin_backoff_def pinLockoutBase_def pinLockoutMax_def Let_def)
qed

fun record_failures :: "nat \<Rightarrow> auth_manager \<Rightarrow> world \<Rightarrow> auth_manager \<times> world" where
  "record_failures 0 am w = (am, w)"
| "record_failures (Suc n) am w =
     (case record_failures n am w of (am, w) \<Rightarrow> RecordPINFailure am w)"

lemma record_failures_count:
  "record_failures n am w = (am', w') \<Longrightarrow> pinFailures am' = pinFailures am + int n"
  by (induction n arbitrary: am' w')
    (auto simp: RecordPINFailure_def Let_def split: prod.splits)

lemma RecordPINFailure_locks:
  "RecordPINFailure am w = (am', w') \<Longrightarrow>
   pinFailures am' = pinFailures am + 1 \<and>
   pinLockedUntil am' = w_clock w' + pin_backoff (pinFailures am + 1)"
  by (auto simp: RecordPINFailure_def Let_def dest!: time_now_mono split: prod.splits)

lemma CheckPINRateLimit_iff:
  "fst (CheckPINRateLimit am w) = None \<longleftrightarrow> pinLockedUntil am \<le> fst (time_now w)"
  by (auto simp: CheckPINRateLimit_def checkPINRateLimit_def Let_def split: prod.splits)

subsection \<open>Properties\<close>

definition demo_world :: world where
  "demo_world = \<lparr>w_clock = 0, w_ticks = [], w_rand = replicate 8 (Some []), w_uuid = []\<rparr>"

definition demo_token :: string where
  "demo_token = replicate 64 (CHR ''0'')"

text \<open>
  C1: Whatever calls the server has made, there are never more than 20 sessions, every
  session ends within one hour from now, and every challenge nonce and unlock ticket within
  30 seconds.
\<close>

theorem session_tables_bounded:
  assumes "reach_from auth_start auth_step (am, w)"
  shows "length (sessions am) \<le> 20
    \<and> (\<forall>k e. map_of (sessions am) k = Some e \<longrightarrow> e \<le> w_clock w + 3600 * second)
    \<and> (\<forall>k e. map_of (nonces am) k = Some e \<longrightarrow> e \<le> w_clock w + 30 * second)
    \<and> (\<forall>k e. map_of (unlockTickets am) k = Some e \<longrightarrow> e \<le> w_clock w + 30 * second)"
  using auth_sys.reach_inv [OF assms]
  by (auto simp: auth_inv_def ttl_bounded_def maxSessions_def sessionTTL_def nonceTTL_def)

theorem session_tables_bounded_witness:
  "let am = fst (auth_run [OpGenerate, OpVerify demo_token] (NewAuthManager []) demo_world)
   in length (sessions am) = 1 \<and> length (sessions am) \<le> 20"
proof -
  let ?s = "auth_run [OpGenerate, OpVerify demo_token] (NewAuthManager []) demo_world"
  have "reach_from auth_start auth_step (fst ?s, snd ?s)"
    by (simp only: prod.collapse auth_run_New)
  from session_tables_bounded [OF this] have "length (sessions (fst ?s)) \<le> 20" by simp
  moreover have "length (sessions (fst ?s)) = 1" by code_simp
  ultimately show ?thesis by (simp add: Let_def)
qed

text \<open>
  C2: A challenge nonce is good for one attempt: whatever the first verification of it
  returned, a second one with the same nonce is refused as unknown and changes nothing.
\<close>

theorem nonce_used_once:
  assumes "VerifyNonce n am w = (r, am', w')"
  shows "VerifyNonce n am' w2 = (Inl (StatusError Unauthenticated ''nonce not found''), am', w2)"
  using VerifyNonce_consumed [OF assms] by (simp add: VerifyNonce_def unauthenticated_def)

theorem nonce_used_once_witness:
  "\<exists>am' w'. snd (VerifyNonce demo_token (fst (auth_run [OpGenerate] (NewAuthManager []) demo_world))
      (snd (auth_run [OpGenerate] (NewAuthManager []) demo_world))) = (am', w')
    \<and> length (sessions am') = 1
    \<and> fst (VerifyNonce demo_token am' w') = Inl (StatusError Unauthenticated ''nonce not found'')"
proof -
  let ?s = "auth_run [OpGenerate] (NewAuthManager []) demo_world"
  obtain r am' w' where v: "VerifyNonce demo_token (fst ?s) (snd ?s) = (r, am', w')"
    by (cases "VerifyNonce demo_token (fst ?s) (snd ?s)")
  have "length (sessions (fst (snd (VerifyNonce demo_token (fst ?s) (snd ?s))))) = 1" by code_simp
  with v nonce_used_once [OF v, of w'] show ?thesis by auto
qed

text \<open>
  C14: An unlock ticket is redeemed at most once: after an attempt, successful or not, the
  ticket is refused, and no session is created by the second attempt.
\<close>

theorem ticket_redeemed_once:
  assumes "RedeemUnlockTicket t am w = (r, am', w')"
  shows "RedeemUnlockTicket t am' w2 = (Inl (Errorf ''invalid or expired unlock ticket''), am', w2)"
  using RedeemUnlockTicket_consumed [OF assms] by (simp add: RedeemUnlockTicket_def)

theorem ticket_redeemed_once_witness:
  "\<exists>am' w'. snd (RedeemUnlockTicket demo_token
        (fst (auth_run [OpSetPINConfigured True, OpGenerate, OpVerify demo_token] (NewAuthManager []) demo_world))
        (snd (auth_run [OpSetPINConfigured True, OpGenerate, OpVerify demo_token] (NewAuthManager []) demo_world)))
      = (am', w')
    \<and> length (sessions am') = 1
    \<and> fst (RedeemUnlockTicket demo_token am' w') = Inl (Errorf ''invalid or expired unlock ticket'')"
proof -
  let ?s = "auth_run [OpSetPINConfigured True, OpGenerate, OpVerify demo_token] (NewAuthManager []) demo_world"
  obtain r am' w' where v: "RedeemUnlockTicket demo_token (fst ?s) (snd ?s) = (r, am', w')"
    by (cases "RedeemUnlockTicket demo_token (fst ?s) (snd ?s)")
  have "length (sessions (fst (snd (RedeemUnlockTicket demo_token (fst ?s) (snd ?s))))) = 1"
    by code_simp
  with v ticket_redeemed_once [OF v, of w'] show ?thesis by auto
qed

text \<open>
  While a PIN is configured, proving possession of the key is not enough: verifying a
  nonce leaves the sessions as they were, and when it succeeds it gives an empty token and a
  fresh unlock ticket that lasts 30 seconds.
\<close>

theorem pin_gates_sessions:
  assumes "pinConfigured am" "VerifyNonce n am w = (r, am', w')"
  shows "sessions am' = sessions am \<and>
    (case r of Inl e \<Rightarrow> True
     | Inr vr \<Rightarrow> vr_RequiresPIN vr \<and> vr_Token vr = [] \<and>
         map_of (unlockTickets am') (vr_UnlockTicket vr) = Some (w_clock w' + 30 * second))"
  using assms VerifyNonce_pin_sessions VerifyNonce_pin_result
  by (auto simp: nonceTTL_def split: sum.splits)

theorem pin_gates_sessions_witness:
  "\<exists>am w r am' w'. pinConfigured am \<and> VerifyNonce demo_token am w = (Inr r, am', w')
     \<and> sessions am' = sessions am \<and> vr_RequiresPIN r"
proof -
  let ?s = "auth_run [OpSetPINConfigured True, OpGenerate] (NewAuthManager []) demo_world"
  have pin: "pinConfigured (fst ?s)" and ok: "\<not> isl (fst (VerifyNonce demo_token (fst ?s) (snd ?s)))"
    by code_simp+
  obtain x am' w' where v: "VerifyNonce demo_token (fst ?s) (snd ?s) = (x, am', w')"
    by (rule prod_cases3)
  from ok have "\<not> isl x" unfolding v by (simp only: fst_conv not_False_eq_True)
  then obtain r where x: "x = Inr r" by (cases x) simp_all
  from pin_gates_sessions [OF pin v] have "sessions am' = sessions (fst ?s) \<and> vr_RequiresPIN r"
    unfolding x by simp
  with pin v [unfolded x] show ?thesis by blast
qed

text \<open>
  C3: After \<open>n \<ge> 1\<close> failed PIN attempts in a row the manager refuses further attempts until
  \<open>min 60 (2^n)\<close> seconds after the last failure, and accepts them from then on.
\<close>

theorem pin_lockout_schedule:
  assumes "record_failures (Suc n) (ResetPINFailures am) w = (am', w')"
  shows "fst (CheckPINRateLimit am' w2) = None \<longleftrightarrow>
    w_clock w' + min 60 (2 ^ Suc n) * second \<le> fst (time_now w2)"
proof -
  obtain am1 w1 where r: "record_failures n (ResetPINFailures am) w = (am1, w1)" by force
  have "pinFailures am1 = int n"
    using record_failures_count [OF r] by (simp add: ResetPINFailures_def)
  then have "pinLockedUntil am' = w_clock w' + pin_backoff (int (Suc n))"
    using assms r RecordPINFailure_locks [of am1 w1 am' w'] by (simp add: add.commute)
  then show ?thesis
    using pin_backoff_eq [of "Suc n"] by (simp only: CheckPINRateLimit_iff)
qed

theorem pin_lockout_schedule_witness:
  "\<exists>am' w'. record_failures 3 (ResetPINFailures (NewAuthManager [])) demo_world = (am', w')
     \<and> fst (CheckPINRateLimit am' w') \<noteq> None
     \<and> fst (CheckPINRateLimit am' (w'\<lparr>w_clock := w_clock w' + 8 * second\<rparr>)) = None"
proof -
  let ?r = "record_failures (Suc 2) (ResetPINFailures (NewAuthManager [])) demo_world"
  obtain am' w' where r: "?r = (am', w')" by force
  have "w_clock (snd ?r) = 0 \<and> w_ticks (snd ?r) = []" by code_simp
  then have "w_clock w' = 0" "w_ticks w' = []" unfolding r by simp_all
  then have now: "w_clock w' = 0" "fst (time_now w') = 0"
    "fst (time_now (w'\<lparr>w_clock := w_clock w' + 8 * second\<rparr>)) = 8 * second"
    by (simp_all add: time_now_def)
  have "fst (CheckPINRateLimit am' w') \<noteq> None"
    using pin_lockout_schedule [OF r, of w'] now by simp
  moreover have "fst (CheckPINRateLimit am' (w'\<lparr>w_clock := w_clock w' + 8 * second\<rparr>)) = None"
    using pin_lockout_schedule [OF r, of "w'\<lparr>w_clock := w_clock w' + 8 * second\<rparr>"] now by simp
  moreover have "record_failures 3 (ResetPINFailures (NewAuthManager [])) demo_world = (am', w')"
    using r by (simp only: numeral_3_eq_3 numeral_2_eq_2)
  ultimately show ?thesis by blast
qed

text \<open>
  What a sweep at \<open>now\<close> leaves of a table: the entries whose expiry is not before \<open>now\<close>.
\<close>

definition unexpired :: "time \<Rightarrow> (string \<rightharpoonup> time) \<Rightarrow> (string \<rightharpoonup> time)" where
  "unexpired now f k = (case f k of None \<Rightarrow> None | Some e \<Rightarrow> if e < now then None else Some e)"

lemma map_of_sweep: "gmap_ok m \<Longrightarrow> map_of (sweep_loop now m) = unexpired now (map_of m)"
  by (rule ext) (simp add: unexpired_def tt.get_sweep)

lemma sweep_again:
  "gmap_ok m \<Longrightarrow> t \<le> t' \<Longrightarrow> sweep_loop t' (sweep_loop t m) = sweep_loop t' m"
  by (simp add: sweep_loop_filter) (auto intro!: filter_cong)

lemma sweep_delete:
  "gmap_ok m \<Longrightarrow> sweep_loop t (AList.delete k m) = AList.delete k (sweep_loop t m)"
  by (simp add: sweep_loop_filter AList.delete_eq) (auto intro!: filter_cong)

text \<open>Two managers that the next sweep of the sessions makes alike draw the same session.\<close>

lemma issue_session_swept:
  assumes "sweep_loop t (sessions am1) = sweep_loop t (sessions am2)"
  shows "fst (issue_session t full am1 w) = fst (issue_session t full am2 w)"
  using assms by (simp add: issue_session_def Let_def split: prod.split sum.split)

lemma RedeemUnlockTicket_swept:
  assumes "gmap_ok (sessions am)" "gmap_ok (unlockTickets am)" "now \<le> w_clock w"
    and "sessions am' = sweep_loop now (sessions am)"
    and "unlockTickets am' = sweep_loop now (unlockTickets am)"
  shows "fst (RedeemUnlockTicket t am' w) = Inr x \<longleftrightarrow> fst (RedeemUnlockTicket t am w) = Inr x"
proof -
  obtain t1 w1 where r: "time_now w = (t1, w1)" by force
  then have le: "now \<le> t1" using time_now_mono [OF r] assms(3) by linarith
  let ?del = "\<lambda>am. am\<lparr>unlockTickets := AList.delete t (unlockTickets am)\<rparr>"
  have eq: "fst (issue_session t1 full (?del am') w1) = fst (issue_session t1 full (?del am) w1)" for full
    using le assms(1,4) by (intro issue_session_swept) (simp add: sweep_again)
  show ?thesis
  proof (cases "map_of (unlockTickets am) t")
    case None
    then show ?thesis
      using assms(2,5) by (simp add: RedeemUnlockTicket_def map_of_sweep unexpired_def)
  next
    case (Some e)
    then show ?thesis using assms(2,5) eq le r
      by (simp add: RedeemUnlockTicket_def map_of_sweep unexpired_def Let_def)
  qed
qed

lemma VerifyNonce_swept:
  assumes "gmap_ok (sessions am)" "gmap_ok (unlockTickets am)" "gmap_ok (nonces am)" "now \<le> w_clock w"
    and "sessions am' = sweep_loop now (sessions am)" "nonces am' = sweep_loop now (nonces am)"
    and "pinConfigured am' = pinConfigured am"
  shows "fst (VerifyNonce n am' w) = Inr x \<longleftrightarrow> fst (VerifyNonce n am w) = Inr x"
proof -
  obtain t1 w1 where r1: "time_now w = (t1, w1)" by force
  obtain t2 w2 where r2: "time_now w1 = (t2, w2)" by force
  have le: "now \<le> t1" "now \<le> t2"
    using time_now_mono [OF r1] time_now_mono [OF r2] assms(4) by linarith+
  let ?del = "\<lambda>am. am\<lparr>nonces := AList.delete n (nonces am)\<rparr>"
  have eq: "fst (issue_session t2 full (?del am') w2) = fst (issue_session t2 full (?del am) w2)" for full
    using le assms(1,5) by (intro issue_session_swept) (simp add: sweep_again)
  show ?thesis
  proof (cases "map_of (nonces am) n")
    case None
    then show ?thesis
      using assms(3,6) by (simp add: VerifyNonce_def map_of_sweep unexpired_def)
  next
    case (Some e)
    show ?thesis
    proof (cases "e < t1")
      case True
      then show ?thesis using Some assms(3,6) r1
        by (simp add: VerifyNonce_def map_of_sweep unexpired_def)
    next
      case False
      obtain i1 a1 v1 where i1: "issue_session t2 (StatusError ResourceExhausted ''too many active sessions'') (?del am') w2 = (i1, a1, v1)"
        by (rule prod_cases3)
      obtain i2 a2 v2 where i2: "issue_session t2 (StatusError ResourceExhausted ''too many active sessions'') (?del am) w2 = (i2, a2, v2)"
        by (rule prod_cases3)
      have "i1 = i2" using eq [of "StatusError ResourceExhausted ''too many active sessions''"] i1 i2 by simp
      moreover obtain g w3 where "generateTokenSafe w2 = (g, w3)" by force
      ultimately show ?thesis using Some False assms(3,6,7) le r1 r2 i1 i2
        by (cases i2; cases g)
          (auto simp: VerifyNonce_def map_of_sweep unexpired_def Let_def split: prod.splits)
    qed
  qed
qed

text \<open>
  C4: The sweeper is invisible. It removes from the three tables exactly the entries that
  have expired when it runs, and leaves the others as they are; so at any later time a token
  is accepted, a nonce is verified and an unlock ticket is redeemed after a sweep exactly when
  they would have been without it, and with the same session, ticket and expiry.
\<close>

theorem sweep_invisible:
  assumes "auth_inv am w" "SweepExpired am w = (am', w')" "w_clock w' \<le> w_clock w2"
  shows "fst (validateToken token am' w2) = fst (validateToken token am w2)
    \<and> (\<forall>vr. fst (VerifyNonce nonce am' w2) = Inr vr \<longleftrightarrow> fst (VerifyNonce nonce am w2) = Inr vr)
    \<and> (\<forall>session. fst (RedeemUnlockTicket ticket am' w2) = Inr session
         \<longleftrightarrow> fst (RedeemUnlockTicket ticket am w2) = Inr session)
    \<and> map_of (sessions am') = unexpired (w_clock w') (map_of (sessions am))
    \<and> map_of (nonces am') = unexpired (w_clock w') (map_of (nonces am))
    \<and> map_of (unlockTickets am') = unexpired (w_clock w') (map_of (unlockTickets am))"
proof -
  obtain now where now: "time_now w = (now, w')"
    and am': "am' = am\<lparr>sessions := sweep_loop now (sessions am), nonces := sweep_loop now (nonces am),
        unlockTickets := sweep_loop now (unlockTickets am)\<rparr>"
    using assms(2) by (auto simp: SweepExpired_def Let_def split: prod.splits)
  have ok: "gmap_ok (sessions am)" "gmap_ok (nonces am)" "gmap_ok (unlockTickets am)"
    using assms(1) by (simp_all add: auth_inv_def)
  have now': "now = w_clock w'" using time_now_mono [OF now] by simp
  have "now \<le> fst (time_now w2)" using now' time_now_fst_mono [of w2] assms(3) by linarith
  then have "session_live am' t2 token = session_live am t2 token" if "t2 = fst (time_now w2)" for t2
    using that by (auto simp: session_live_def am' tt.get_sweep [OF ok(1)] split: option.splits)
  then have "fst (validateToken token am' w2) = fst (validateToken token am w2)"
    by (simp add: validateToken_live)
  moreover have "fst (VerifyNonce nonce am' w2) = Inr vr \<longleftrightarrow> fst (VerifyNonce nonce am w2) = Inr vr" for vr
    using ok assms(3) now' by (intro VerifyNonce_swept [where now = now]) (simp_all add: am')
  moreover have "fst (RedeemUnlockTicket ticket am' w2) = Inr x
      \<longleftrightarrow> fst (RedeemUnlockTicket ticket am w2) = Inr x" for x
    using ok assms(3) now' by (intro RedeemUnlockTicket_swept [where now = now]) (simp_all add: am')
  ultimately show ?thesis using ok now' by (simp add: am' map_of_sweep)
qed

theorem sweep_invisible_witness:
  "\<exists>am' w'. SweepExpired (fst (auth_run [OpGenerate, OpVerify demo_token] (NewAuthManager []) demo_world))
       (snd (auth_run [OpGenerate, OpVerify demo_token] (NewAuthManager []) demo_world)) = (am', w')
     \<and> fst (validateToken demo_token am' w')"
proof -
  let ?s = "auth_run [OpGenerate, OpVerify demo_token] (NewAuthManager []) demo_world"
  obtain am' w' where r: "SweepExpired (fst ?s) (snd ?s) = (am', w')" by force
  have inv: "auth_inv (fst ?s) (snd ?s)"
    using auth_sys.reach_inv [OF auth_run_New, of "[OpGenerate, OpVerify demo_token]" "[]" demo_world]
    by (simp split: prod.splits)
  have "fst (validateToken demo_token (fst ?s) (snd (SweepExpired (fst ?s) (snd ?s))))"
    by code_simp
  then have "fst (validateToken demo_token (fst ?s) w')" unfolding r by (simp only: snd_conv)
  then show ?thesis
    using sweep_invisible [OF inv r, of w' demo_token] r by blast
qed

end
