(* ===== verification/Entity.thy ===== *)
theory Entity
  imports Go_World
begin

text \<open>
  \<^verbatim>\<open>internal/domain/entity\<close>: entry types, envelopes and the three payloads. An
  \<^verbatim>\<open>EntryType\<close> is a Go \<^verbatim>\<open>int\<close>, so any number can reach the code, not only
  the four constants; nothing computes with it. A map of metadata is an association list.
\<close>

type_synonym entry_type = int

definition EntryTypeUnspecified :: entry_type where "EntryTypeUnspecified = 0"
definition EntryTypeLogin :: entry_type where "EntryTypeLogin = 1"
definition EntryTypeSecret :: entry_type where "EntryTypeSecret = 2"
definition EntryTypeNote :: entry_type where "EntryTypeNote = 3"

lemmas entry_type_defs =
  EntryTypeUnspecified_def EntryTypeLogin_def EntryTypeSecret_def EntryTypeNote_def

definition EntryType_String :: "entry_type \<Rightarrow> string" where
  "EntryType_String t =
     (if t = EntryTypeLogin then ''login''
      else if t = EntryTypeSecret then ''secret''
      else if t = EntryTypeNote then ''note''
      else ''unspecified'')"

definition ParseEntryType :: "string \<Rightarrow> entry_type" where
  "ParseEntryType s =
     (if s = ''login'' then EntryTypeLogin
      else if s = ''secret'' then EntryTypeSecret
      else if s = ''note'' then EntryTypeNote
      else EntryTypeUnspecified)"

lemma ParseEntryType_String:
  "ParseEntryType (EntryType_String t) = (if t \<in> {1, 2, 3} then t else 0)"
  by (auto simp: ParseEntryType_def EntryType_String_def entry_type_defs)

lemma ParseEntryType_range: "ParseEntryType s \<in> {0, 1, 2, 3}"
  by (auto simp: ParseEntryType_def entry_type_defs)

record envelope =
  ID :: string
  Name :: string
  Type :: entry_type
  Meta :: "(string \<times> string) list"
  Payload :: bytes
  CreatedAt :: time
  UpdatedAt :: time

text \<open>The zero value of the struct, which decoding starts from.\<close>

definition zero_envelope :: envelope where
  "zero_envelope = \<lparr>ID = [], Name = [], Type = 0, Meta = [], Payload = [],
     CreatedAt = zero_time, UpdatedAt = zero_time\<rparr>"

record login =
  Site :: string
  Username :: string
  Password :: string
  Notes :: string

record secret_body =
  secret_Name :: string
  secret_Value :: string

record note_body =
  note_Name :: string
  note_Content :: string

text \<open>\<^verbatim>\<open>m[k]\<close> of a map of strings, with the zero value for a missing key.\<close>

definition meta_get :: "(string \<times> string) list \<Rightarrow> string \<Rightarrow> string" where
  "meta_get m k = (case map_of m k of None \<Rightarrow> [] | Some v \<Rightarrow> v)"

text \<open>
  What survives of a value that goes through JSON: strings whose invalid bytes have become
  the replacement rune, and a map rebuilt in the order of its keys.
\<close>

definition utf8_clean :: "string \<Rightarrow> string" where
  "utf8_clean s = concat (map encode_rune (runes s))"

definition json_meta :: "(string \<times> string) list \<Rightarrow> (string \<times> string) list" where
  "json_meta m =
     fold (\<lambda>(k, v) acc. AList.update (utf8_clean k) (utf8_clean v) acc) (sort_key fst m) []"

definition json_envelope :: "envelope \<Rightarrow> envelope" where
  "json_envelope e = e\<lparr>ID := utf8_clean (ID e), Name := utf8_clean (Name e), Meta := json_meta (Meta e)\<rparr>"

lemma utf8_clean_ascii [simp]: "ascii s \<Longrightarrow> utf8_clean s = s"
  by (induction s) (auto simp: utf8_clean_def runes_def encode_rune_ascii)

lemma utf8_clean_Nil [simp]: "utf8_clean [] = []"
  by (simp add: utf8_clean_def runes_def)

lemma json_meta_Nil [simp]: "json_meta [] = []"
  by (simp add: json_meta_def)

lemma json_meta_ok: "gmap_ok (json_meta m)"
proof -
  have "gmap_ok acc \<Longrightarrow>
      gmap_ok (fold (\<lambda>(k, v) acc. AList.update (utf8_clean k) (utf8_clean v) acc) xs acc)"
    for xs acc by (induction xs arbitrary: acc) auto
  then show ?thesis by (simp add: json_meta_def)
qed

lemma map_of_fold_update:
  "map_of (fold (\<lambda>(k, v) acc. AList.update k v acc) xs acc) = map_of acc ++ map_of (rev xs)"
  by (induction xs arbitrary: acc) (auto simp: update_conv' map_add_def fun_eq_iff split: option.splits)

text \<open>On ASCII metadata with distinct keys the map that comes back is the map that went in.\<close>

lemma json_meta_ascii:
  assumes "gmap_ok m" "\<And>k v. (k, v) \<in> set m \<Longrightarrow> ascii k \<and> ascii v"
  shows "map_of (json_meta m) = map_of m"
proof -
  have "fold (\<lambda>(k, v) acc. AList.update (utf8_clean k) (utf8_clean v) acc) (sort_key fst m) []
      = fold (\<lambda>(k, v) acc. AList.update k v acc) (sort_key fst m) []"
    using assms(2) by (intro fold_cong) auto
  moreover have "map_of (rev (sort_key fst m)) = map_of m"
    using assms(1)
    by (intro map_of_inject_set [THEN iffD2]) (auto simp: gmap_ok_def distinct_map simp flip: rev_map)
  ultimately show ?thesis by (simp add: json_meta_def map_of_fold_update)
qed

lemma json_envelope_fields [simp]:
  "ID (json_envelope e) = utf8_clean (ID e)" "Name (json_envelope e) = utf8_clean (Name e)"
  "Type (json_envelope e) = Type e" "Meta (json_envelope e) = json_meta (Meta e)"
  "Payload (json_envelope e) = Payload e" "CreatedAt (json_envelope e) = CreatedAt e"
  "UpdatedAt (json_envelope e) = UpdatedAt e"
  by (simp_all add: json_envelope_def)

end
