(* ===== verification/Json.thy ===== *)
theory Json
  imports Entity
begin

text \<open>
  What the source uses of \<^verbatim>\<open>encoding/json\<close>. A text is cut into tokens and the
  tokens are put together by a machine with a stack of open containers, like the scanner of
  the Go library; the stack may hold 10000 containers. A string keeps its raw form between
  the quotes until a decoder unquotes it. Encoders write tokens without spaces, escape
  \<^verbatim>\<open><\<close>, \<^verbatim>\<open>>\<close> and \<^verbatim>\<open>&\<close>, and replace invalid UTF-8.
\<close>

datatype json =
    JNull | JBool bool | JNum string | JStr string
  | JArr "json list" | JObj "(string \<times> json) list"

datatype token =
    TLBrace | TRBrace | TLBracket | TRBracket | TColon | TComma
  | TStr string | TNum string | TTrue | TFalse | TNull

subsection \<open>Strings\<close>

definition quote :: char where "quote = CHR 0x22"
definition backslash :: char where "backslash = CHR 0x5C"

fun hex_value :: "char \<Rightarrow> nat option" where
  "hex_value c = (let n = of_char c :: nat in
     if 48 \<le> n \<and> n \<le> 57 then Some (n - 48)
     else if 97 \<le> n \<and> n \<le> 102 then Some (n - 87)
     else if 65 \<le> n \<and> n \<le> 70 then Some (n - 55)
     else None)"

text \<open>The four digits after \<^verbatim>\<open>\u\<close>.\<close>

fun hex4 :: "string \<Rightarrow> nat option" where
  "hex4 (a # b # c # d # s) =
     (case (hex_value a, hex_value b, hex_value c, hex_value d) of
        (Some a, Some b, Some c, Some d) \<Rightarrow> Some (((a * 16 + b) * 16 + c) * 16 + d)
      | _ \<Rightarrow> None)"
| "hex4 _ = None"

text \<open>Read up to the closing quote: the raw contents and what follows.\<close>

fun scan_string :: "string \<Rightarrow> (string \<times> string) option" where
  "scan_string [] = None"
| "scan_string (c # cs) =
     (if c = quote then Some ([], cs)
      else if c = backslash then
        (case cs of
           [] \<Rightarrow> None
         | e # es \<Rightarrow>
             if e = CHR ''u'' then
               (if hex4 es = None then None
                else map_option (\<lambda>(raw, rest). (c # e # raw, rest)) (scan_string es))
             else if e \<in> {CHR ''b'', CHR ''f'', CHR ''n'', CHR ''r'', CHR ''t'', backslash, CHR ''/'', quote}
             then map_option (\<lambda>(raw, rest). (c # e # raw, rest)) (scan_string es)
             else None)
      else if (of_char c :: nat) < 32 then None
      else map_option (\<lambda>(raw, rest). (c # raw, rest)) (scan_string cs))"

lemma scan_string_shorter: "scan_string s = Some (raw, rest) \<Longrightarrow> length rest < length s"
  by (induction s arbitrary: raw rest rule: scan_string.induct)
    (force split: if_splits list.splits option.splits)+

definition is_surrogate :: "nat \<Rightarrow> bool" where
  "is_surrogate r \<longleftrightarrow> 55296 \<le> r \<and> r < 57344"

text \<open>\<^verbatim>\<open>utf16.DecodeRune\<close>\<close>

definition utf16_decode :: "nat \<Rightarrow> nat \<Rightarrow> nat option" where
  "utf16_decode r1 r2 =
     (if 55296 \<le> r1 \<and> r1 < 56320 \<and> 56320 \<le> r2 \<and> r2 < 57344
      then Some ((r1 - 55296) * 1024 + (r2 - 56320) + 65536) else None)"

text \<open>The escape sequence at the start of a text, with the runes it stands for and its length.\<close>

definition simple_escape :: "char \<Rightarrow> char option" where
  "simple_escape e =
     (if e = CHR ''b'' then Some (CHR 0x08) else if e = CHR ''f'' then Some (CHR 0x0C)
      else if e = CHR ''n'' then Some (CHR 0x0A) else if e = CHR ''r'' then Some (CHR 0x0D)
      else if e = CHR ''t'' then Some (CHR 0x09)
      else if e \<in> {backslash, CHR ''/'', quote} then Some e else None)"

definition u_escape :: "string \<Rightarrow> nat option" where
  "u_escape s = (case s of a # b # t \<Rightarrow> if a = backslash \<and> b = CHR ''u'' then hex4 t else None | _ \<Rightarrow> None)"

definition unquote_step :: "string \<Rightarrow> string \<times> nat" where
  "unquote_step s =
     (case u_escape s of
        Some r \<Rightarrow>
          if is_surrogate r
          then (case u_escape (drop 6 s) of
                  None \<Rightarrow> (encode_rune rune_error, 6)
                | Some r2 \<Rightarrow>
                   (case utf16_decode r r2 of
                      Some r' \<Rightarrow> (encode_rune r', 12)
                    | None \<Rightarrow> (encode_rune rune_error, 6)))
          else (encode_rune r, 6)
      | None \<Rightarrow>
         (case s of
            [] \<Rightarrow> ([], 1)
          | c # t \<Rightarrow>
              if c = backslash
              then (case t of [] \<Rightarrow> ([], 1)
                    | e # _ \<Rightarrow> (case simple_escape e of Some d \<Rightarrow> [d] | None \<Rightarrow> [], 2))
              else let (r, n) = decode_rune s in (encode_rune r, n)))"

lemma unquote_step_pos: "s \<noteq> [] \<Longrightarrow> 1 \<le> snd (unquote_step s)"
  using decode_rune_size [of s]
  by (auto simp: unquote_step_def split: option.splits list.splits prod.splits)

function unquote :: "string \<Rightarrow> string" where
  "unquote s = (if s = [] then [] else case unquote_step s of (out, n) \<Rightarrow> out @ unquote (drop n s))"
  by pat_completeness auto
termination
proof (relation "measure length", goal_cases)
  case (2 s out n)
  then have "1 \<le> n" "s \<noteq> []" using unquote_step_pos [of s] by (metis snd_conv)+
  then show ?case by (cases s) auto
qed simp

declare unquote.simps [simp del]

lemma unquote_Nil [simp]: "unquote [] = []"
  by (simp add: unquote.simps)

text \<open>The encoder's escape of one rune, given with the bytes it was read from.\<close>

definition hex4_digits :: "nat \<Rightarrow> string" where
  "hex4_digits r = [hex_digit (r div 4096), hex_digit (r div 256 mod 16),
     hex_digit (r div 16 mod 16), hex_digit (r mod 16)]"

definition escape_segment :: "nat \<times> string \<Rightarrow> string" where
  "escape_segment seg = (case seg of (r, b) \<Rightarrow>
     if r < 128 then
       (if r = 34 \<or> r = 92 then backslash # b
        else if r = 8 then [backslash, CHR ''b''] else if r = 12 then [backslash, CHR ''f'']
        else if r = 10 then [backslash, CHR ''n''] else if r = 13 then [backslash, CHR ''r'']
        else if r = 9 then [backslash, CHR ''t'']
        else if r < 32 \<or> r = 60 \<or> r = 62 \<or> r = 38
        then [backslash, CHR ''u''] @ hex4_digits r
        else b)
     else if r = rune_error \<and> length b = 1 then [backslash, CHR ''u''] @ hex4_digits rune_error
     else if r = 8232 \<or> r = 8233 then [backslash, CHR ''u''] @ hex4_digits r
     else b)"

definition escape_string :: "string \<Rightarrow> string" where
  "escape_string s = concat (map escape_segment (rune_segments s))"

lemma hex_value_digit: "d < 16 \<Longrightarrow> hex_value (hex_digit d) = Some d"
  by (auto simp: of_hex_digit Let_def)

lemma hex4_hex4_digits:
  assumes "r < 65536"
  shows "hex4 (hex4_digits r @ t) = Some r"
proof -
  have "r div 256 = r div 16 div 16" "r div 4096 = r div 16 div 16 div 16"
    by (simp_all flip: div_mult2_eq)
  then have "((r div 4096 * 16 + r div 256 mod 16) * 16 + r div 16 mod 16) * 16 + r mod 16 = r"
    by (simp only: div_mult_mod_eq)
  with assms show ?thesis
    by (simp add: hex4_digits_def hex_value_digit del: hex_value.simps)
qed

lemma special_chars [simp]:
  "(of_char c :: nat) = 34 \<longleftrightarrow> c = quote" "(of_char c :: nat) = 92 \<longleftrightarrow> c = backslash"
  using of_char_eq_iff [of c quote] of_char_eq_iff [of c backslash]
  by (simp_all add: quote_def backslash_def)

lemma quote_neq_backslash [simp]: "quote \<noteq> backslash" "backslash \<noteq> quote" "quote \<noteq> CHR ''u''"
    "backslash \<noteq> CHR ''u''"
  by (simp_all add: quote_def backslash_def)

text \<open>How the scanner and the decoder go past the pieces of an escaped string.\<close>

abbreviation scanned :: "string \<Rightarrow> string \<Rightarrow> (string \<times> string) option" where
  "scanned p t \<equiv> map_option (\<lambda>(raw, rest). (p @ raw, rest)) (scan_string t)"

lemma scan_plain:
  "32 \<le> (of_char c :: nat) \<Longrightarrow> c \<noteq> quote \<Longrightarrow> c \<noteq> backslash \<Longrightarrow> scan_string (c # t) = scanned [c] t"
  by simp

lemma scan_simple_escape:
  "e \<in> {CHR ''b'', CHR ''f'', CHR ''n'', CHR ''r'', CHR ''t'', backslash, quote} \<Longrightarrow>
   scan_string (backslash # e # t) = scanned [backslash, e] t"
  by (auto simp: quote_def backslash_def)

lemma scan_hex_digit: "d < 16 \<Longrightarrow> scan_string (hex_digit d # t) = scanned [hex_digit d] t"
proof -
  assume d: "d < 16"
  have "hex_digit d \<noteq> quote" "hex_digit d \<noteq> backslash"
    using of_hex_digit [OF d] special_chars [of "hex_digit d"] by (auto split: if_splits)
  then show ?thesis using of_hex_digit [OF d] by (intro scan_plain) auto
qed

lemma scanned_scanned: "map_option (\<lambda>(raw, rest). (p @ raw, rest)) (scanned q t) = scanned (p @ q) t"
  by (cases "scan_string t") auto

lemma scan_u_escape:
  assumes "r < 65536"
  shows "scan_string ([backslash, CHR ''u''] @ hex4_digits r @ t)
    = scanned ([backslash, CHR ''u''] @ hex4_digits r) t"
proof -
  have lt: "r div 4096 < 16" "r div 256 mod 16 < 16" "r div 16 mod 16 < 16" "r mod 16 < 16"
    using assms by simp_all
  have "scan_string (hex4_digits r @ t) = scanned (hex4_digits r) t"
    unfolding hex4_digits_def append_Cons append_Nil
    by (subst scan_hex_digit [OF lt(1)], subst scan_hex_digit [OF lt(2)],
        subst scan_hex_digit [OF lt(3)], subst scan_hex_digit [OF lt(4)])
      (cases "scan_string t"; auto)
  then show ?thesis
    using hex4_hex4_digits [OF assms, of t] scanned_scanned [of "[backslash, CHR ''u'']" "hex4_digits r" t]
    by simp
qed

lemma u_escape_not: "c \<noteq> backslash \<Longrightarrow> u_escape (c # t) = None"
  by (simp add: u_escape_def split: list.splits)

lemma unquote_plain: "c \<noteq> backslash \<Longrightarrow> (of_char c :: nat) < 128 \<Longrightarrow> unquote (c # t) = c # unquote t"
  by (subst unquote.simps)
    (simp add: unquote_step_def u_escape_not decode_rune.simps Let_def encode_rune_ascii)

lemma unquote_simple_escape:
  "simple_escape e = Some d \<Longrightarrow> unquote (backslash # e # t) = d # unquote t"
proof -
  assume e: "simple_escape e = Some d"
  have "simple_escape (CHR ''u'') = None" by (simp add: simple_escape_def quote_def backslash_def)
  with e have "e \<noteq> CHR ''u''" by auto
  then have "unquote_step (backslash # e # t) = ([d], 2)"
    by (simp add: unquote_step_def u_escape_def e)
  then show ?thesis by (subst unquote.simps) simp
qed

lemma length_hex4_digits [simp]: "length (hex4_digits r) = 4"
  by (simp add: hex4_digits_def)

lemma unquote_u_escape:
  assumes "r < 65536" "\<not> is_surrogate r"
  shows "unquote ([backslash, CHR ''u''] @ hex4_digits r @ t) = encode_rune r @ unquote t"
proof -
  have "u_escape ([backslash, CHR ''u''] @ hex4_digits r @ t) = Some r"
    using hex4_hex4_digits [OF assms(1), of t] by (simp add: u_escape_def)
  then have "unquote_step ([backslash, CHR ''u''] @ hex4_digits r @ t) = (encode_rune r, 6)"
    using assms(2) by (simp add: unquote_step_def)
  then show ?thesis by (subst unquote.simps) simp
qed

lemma unquote_multi:
  assumes "128 \<le> (of_char a :: nat)" "decode_rune (a # s) = (r, n)"
  shows "unquote (a # s) = encode_rune r @ unquote (drop n (a # s))"
proof -
  have "a \<noteq> backslash" using assms(1) by (auto simp: backslash_def)
  then show ?thesis
    using assms(2) by (subst unquote.simps) (simp add: unquote_step_def u_escape_not)
qed

text \<open>The two facts about one segment.\<close>

lemma escape_ascii_cases [consumes 2, case_names simple hex plain]:
  assumes "r = of_char c" "r < 128"
  obtains (simple) e where "escape_segment (r, [c]) = [backslash, e]" "simple_escape e = Some c"
      "e \<in> {CHR ''b'', CHR ''f'', CHR ''n'', CHR ''r'', CHR ''t'', backslash, quote}"
    | (hex) "escape_segment (r, [c]) = [backslash, CHR ''u''] @ hex4_digits r"
    | (plain) "escape_segment (r, [c]) = [c]" "32 \<le> r" "c \<noteq> quote" "c \<noteq> backslash"
proof -
  consider (q) "c = quote \<or> c = backslash"
    | (b) "c = CHR 0x08" | (f) "c = CHR 0x0C" | (n) "c = CHR 0x0A" | (r) "c = CHR 0x0D"
    | (t) "c = CHR 0x09"
    | (h) "r \<notin> {34, 92, 8, 12, 10, 13, 9}" "r < 32 \<or> r = 60 \<or> r = 62 \<or> r = 38"
    | (p) "r \<notin> {34, 92, 8, 12, 10, 13, 9}" "\<not> (r < 32 \<or> r = 60 \<or> r = 62 \<or> r = 38)"
    using assms(1) of_char_eq_iff [of c "CHR 0x08"] of_char_eq_iff [of c "CHR 0x0C"]
      of_char_eq_iff [of c "CHR 0x0A"] of_char_eq_iff [of c "CHR 0x0D"] of_char_eq_iff [of c "CHR 0x09"]
    by simp blast
  then show thesis
  proof cases
    case q
    with assms show thesis
      by (intro simple [of c]) (auto simp: escape_segment_def simple_escape_def quote_def backslash_def)
  next
    case b
    with assms show thesis by (intro simple [of "CHR ''b''"]) (auto simp: escape_segment_def simple_escape_def)
  next
    case f
    with assms show thesis by (intro simple [of "CHR ''f''"]) (auto simp: escape_segment_def simple_escape_def)
  next
    case n
    with assms show thesis by (intro simple [of "CHR ''n''"]) (auto simp: escape_segment_def simple_escape_def)
  next
    case r
    with assms show thesis by (intro simple [of "CHR ''r''"]) (auto simp: escape_segment_def simple_escape_def)
  next
    case t
    with assms show thesis by (intro simple [of "CHR ''t''"]) (auto simp: escape_segment_def simple_escape_def)
  next
    case h
    with assms show thesis by (intro hex) (simp add: escape_segment_def)
  next
    case p
    with assms show thesis by (intro plain) (auto simp: escape_segment_def)
  qed
qed

lemma escape_multi_cases [consumes 2, case_names hex raw]:
  assumes "decode_rune (a # s) = (r, n)" "128 \<le> (of_char a :: nat)"
  obtains (hex) "escape_segment (r, take n (a # s)) = [backslash, CHR ''u''] @ hex4_digits r"
      "r < 65536" "\<not> is_surrogate r"
    | (raw) "escape_segment (r, take n (a # s)) = take n (a # s)"
      "\<And>t. decode_rune (take n (a # s) @ t) = (r, n)" "n \<le> length (a # s)"
      "\<And>c. c \<in> set (take n (a # s)) \<Longrightarrow> 128 \<le> (of_char c :: nat)"
proof (cases "r = 8232 \<or> r = 8233 \<or> (r = rune_error \<and> n = 1)")
  case True
  then show thesis
    by (intro hex) (auto simp: escape_segment_def is_surrogate_def rune_error_def)
next
  case False
  have raw': "escape_segment (r, take n (a # s)) = take n (a # s)" if "128 \<le> r" "2 \<le> n" "n \<le> length (a # s)"
    using that False by (auto simp: escape_segment_def min_def)
  have "a # s \<noteq> []" by simp
  from assms(1) this show thesis
  proof (cases rule: decode_rune_cases)
    case (two a' b t)
    then show thesis by (intro raw raw') (auto simp: cont_byte_def)
  next
    case (three a' b c t)
    then show thesis by (intro raw raw') (auto simp: cont_byte_def)
  next
    case (four a' b c d t)
    then show thesis by (intro raw raw') (auto simp: cont_byte_def)
  qed (use assms(2) False in auto)
qed

lemma scan_raw:
  "(\<And>c. c \<in> set p \<Longrightarrow> 128 \<le> (of_char c :: nat)) \<Longrightarrow> scan_string (p @ t) = scanned p t"
proof (induction p)
  case Nil
  then show ?case by (cases "scan_string t") auto
next
  case (Cons c p)
  then have "128 \<le> (of_char c :: nat)" by simp
  moreover from this have "c \<noteq> quote" "c \<noteq> backslash" by (auto simp: quote_def backslash_def)
  ultimately have "scan_string (c # p @ t) = scanned [c] (p @ t)" by (intro scan_plain) auto
  with Cons show ?case using scanned_scanned [of "[c]" p t] by simp
qed

lemma escape_segment_scan:
  assumes "decode_rune s = (r, n)" "s \<noteq> []"
  shows "scan_string (escape_segment (r, take n s) @ t) = scanned (escape_segment (r, take n s)) t
    \<and> unquote (escape_segment (r, take n s) @ t) = encode_rune r @ unquote t"
proof -
  obtain a s1 where s: "s = a # s1" using assms(2) by (cases s) auto
  show ?thesis
  proof (cases "128 \<le> (of_char a :: nat)")
    case True
    from assms(1) [unfolded s] True show ?thesis
      unfolding s
    proof (cases rule: escape_multi_cases)
      case hex
      then show "scan_string (escape_segment (r, take n (a # s1)) @ t)
          = scanned (escape_segment (r, take n (a # s1))) t
        \<and> unquote (escape_segment (r, take n (a # s1)) @ t) = encode_rune r @ unquote t"
        using scan_u_escape [of r t] unquote_u_escape [of r t] by simp
    next
      case raw
      have "n \<noteq> 0" using decode_rune_size [of "a # s1"] assms(1) s by auto
      then obtain p where p: "take n (a # s1) = a # p" by (cases n) auto
      have "drop n (a # p @ t) = t"
        using raw(3) arg_cong [OF p, of length] by simp
      with unquote_multi [OF True, of "p @ t" r n] raw(2) [of t]
      have "unquote (take n (a # s1) @ t) = encode_rune r @ unquote t" by (simp add: p)
      with raw(1,4) scan_raw [of "take n (a # s1)" t] show
        "scan_string (escape_segment (r, take n (a # s1)) @ t)
          = scanned (escape_segment (r, take n (a # s1))) t
        \<and> unquote (escape_segment (r, take n (a # s1)) @ t) = encode_rune r @ unquote t"
        by simp
    qed
  next
    case False
    then have "r = of_char a \<and> n = 1"
      using assms(1) by (simp add: s decode_rune.simps Let_def)
    then have r: "r = of_char a" "r < 128" and n: "take n s = [a]" using False by (simp_all add: s)
    from r show ?thesis
      unfolding n
    proof (cases rule: escape_ascii_cases)
      case (simple e)
      then show "scan_string (escape_segment (r, [a]) @ t) = scanned (escape_segment (r, [a])) t
        \<and> unquote (escape_segment (r, [a]) @ t) = encode_rune r @ unquote t"
        using scan_simple_escape [of e t] unquote_simple_escape [of e a t] r
        by (simp add: encode_rune_ascii)
    next
      case hex
      then show "scan_string (escape_segment (r, [a]) @ t) = scanned (escape_segment (r, [a])) t
        \<and> unquote (escape_segment (r, [a]) @ t) = encode_rune r @ unquote t"
        using scan_u_escape [of r t] unquote_u_escape [of r t] r(2) by (simp add: is_surrogate_def)
    next
      case plain
      then show "scan_string (escape_segment (r, [a]) @ t) = scanned (escape_segment (r, [a])) t
        \<and> unquote (escape_segment (r, [a]) @ t) = encode_rune r @ unquote t"
        using scan_plain [of a t] unquote_plain [of a t] r by (simp add: encode_rune_ascii)
    qed
  qed
qed

lemma escape_string_Cons:
  "s \<noteq> [] \<Longrightarrow> decode_rune s = (r, n) \<Longrightarrow>
   escape_string s = escape_segment (r, take n s) @ escape_string (drop n s)"
  by (simp add: escape_string_def rune_segments.simps [of s])

lemma escape_string_Nil [simp]: "escape_string [] = []"
  by (simp add: escape_string_def)

text \<open>What is written between the quotes is read back, up to the replacement of bad UTF-8.\<close>

lemma unquote_escape: "unquote (escape_string s) = utf8_clean s"
proof (induction s rule: rune_segments.induct)
  case (1 s)
  show ?case
  proof (cases "s = []")
    case False
    obtain r n where d: "decode_rune s = (r, n)" by force
    have "unquote (escape_string (drop n s)) = utf8_clean (drop n s)"
      using "1.IH" [OF False] d by simp
    with escape_segment_scan [OF d False, of "escape_string (drop n s)"]
    show ?thesis
      by (simp add: escape_string_Cons [OF False d] utf8_clean_def runes_def
          rune_segments.simps [of s] d False)
  qed simp
qed

lemma scan_escape: "scan_string (escape_string s @ quote # rest) = Some (escape_string s, rest)"
proof (induction s rule: rune_segments.induct)
  case (1 s)
  show ?case
  proof (cases "s = []")
    case False
    obtain r n where d: "decode_rune s = (r, n)" by force
    have "scan_string (escape_string (drop n s) @ quote # rest) = Some (escape_string (drop n s), rest)"
      using "1.IH" [OF False] d by simp
    with escape_segment_scan [OF d False, of "escape_string (drop n s) @ quote # rest"]
    show ?thesis by (simp add: escape_string_Cons [OF False d])
  qed simp
qed

subsection \<open>Tokens\<close>

definition is_ws :: "char \<Rightarrow> bool" where
  "is_ws c \<longleftrightarrow> c \<in> {CHR '' '', CHR 0x09, CHR 0x0A, CHR 0x0D}"

definition take_digits :: "string \<Rightarrow> (string \<times> string) option" where
  "take_digits s = (let ds = takeWhile is_dec_digit s
     in if ds = [] then None else Some (ds, dropWhile is_dec_digit s))"

text \<open>The parts of a number after its sign: integer part, fraction, exponent.\<close>

definition scan_int :: "string \<Rightarrow> (string \<times> string) option" where
  "scan_int s = (case s of c # t \<Rightarrow> if c = CHR ''0'' then Some ([c], t) else take_digits s | [] \<Rightarrow> None)"

definition scan_frac :: "string \<Rightarrow> (string \<times> string) option" where
  "scan_frac s = (case s of
     c # t \<Rightarrow> if c = CHR ''.'' then map_option (\<lambda>(ds, r). (c # ds, r)) (take_digits t) else Some ([], s)
   | [] \<Rightarrow> Some ([], s))"

definition scan_exp :: "string \<Rightarrow> (string \<times> string) option" where
  "scan_exp s = (case s of
     c # t \<Rightarrow> if c = CHR ''e'' \<or> c = CHR ''E''
       then (case t of
               d # u \<Rightarrow> if d = CHR ''+'' \<or> d = CHR ''-''
                 then map_option (\<lambda>(ds, r). (c # d # ds, r)) (take_digits u)
                 else map_option (\<lambda>(ds, r). (c # ds, r)) (take_digits t)
             | [] \<Rightarrow> None)
       else Some ([], s)
   | [] \<Rightarrow> Some ([], s))"

definition scan_unsigned :: "string \<Rightarrow> (string \<times> string) option" where
  "scan_unsigned s =
     (case scan_int s of None \<Rightarrow> None
      | Some (a, s1) \<Rightarrow> (case scan_frac s1 of None \<Rightarrow> None
      | Some (b, s2) \<Rightarrow> (case scan_exp s2 of None \<Rightarrow> None
      | Some (c, s3) \<Rightarrow> Some (a @ b @ c, s3))))"

definition scan_number :: "string \<Rightarrow> (string \<times> string) option" where
  "scan_number s = (case s of
     c # t \<Rightarrow> if c = CHR ''-'' then map_option (\<lambda>(ds, r). (c # ds, r)) (scan_unsigned t) else scan_unsigned s
   | [] \<Rightarrow> None)"

definition scan_word :: "string \<Rightarrow> (token \<times> string) option" where
  "scan_word s =
     (if has_prefix s ''true'' then Some (TTrue, drop 4 s)
      else if has_prefix s ''false'' then Some (TFalse, drop 5 s)
      else if has_prefix s ''null'' then Some (TNull, drop 4 s)
      else None)"

definition structural :: "char \<Rightarrow> token option" where
  "structural c =
     (if c = CHR 0x7B then Some TLBrace else if c = CHR 0x7D then Some TRBrace
      else if c = CHR 0x5B then Some TLBracket else if c = CHR 0x5D then Some TRBracket
      else if c = CHR 0x3A then Some TColon else if c = CHR 0x2C then Some TComma else None)"

definition next_token :: "string \<Rightarrow> (token \<times> string) option" where
  "next_token s = (case s of [] \<Rightarrow> None | c # t \<Rightarrow>
     (case structural c of
        Some tok \<Rightarrow> Some (tok, t)
      | None \<Rightarrow>
          if c = quote then map_option (\<lambda>(raw, r). (TStr raw, r)) (scan_string t)
          else if c = CHR ''-'' \<or> is_dec_digit c then map_option (\<lambda>(ds, r). (TNum ds, r)) (scan_number s)
          else scan_word s))"

lemma take_digits_shorter: "take_digits s = Some (ds, r) \<Longrightarrow> length r < length s"
proof -
  assume a: "take_digits s = Some (ds, r)"
  then have "ds \<noteq> []" "s = ds @ r"
    by (auto simp: take_digits_def Let_def split: if_splits)
  then show ?thesis by simp
qed

lemma scan_frac_shorter: "scan_frac s = Some (ds, r) \<Longrightarrow> length r \<le> length s"
  by (auto simp: scan_frac_def dest!: take_digits_shorter split: list.splits if_splits)

lemma scan_exp_shorter: "scan_exp s = Some (ds, r) \<Longrightarrow> length r \<le> length s"
  by (auto simp: scan_exp_def dest!: take_digits_shorter split: list.splits if_splits)

lemma scan_int_shorter: "scan_int s = Some (ds, r) \<Longrightarrow> length r < length s"
  by (auto simp: scan_int_def dest!: take_digits_shorter split: list.splits if_splits)

lemma scan_unsigned_shorter: "scan_unsigned s = Some (ds, r) \<Longrightarrow> length r < length s"
  by (auto simp: scan_unsigned_def dest!: scan_int_shorter scan_frac_shorter scan_exp_shorter
      split: option.splits)

lemma scan_number_shorter: "scan_number s = Some (ds, r) \<Longrightarrow> length r < length s"
  by (auto simp: scan_number_def dest!: scan_unsigned_shorter split: list.splits if_splits)

lemma scan_word_shorter: "scan_word s = Some (tok, r) \<Longrightarrow> length r < length s"
  by (auto simp: scan_word_def has_prefix_iff split: if_splits)

lemma next_token_shorter: "next_token s = Some (tok, r) \<Longrightarrow> length r < length s"
  by (auto simp: next_token_def dest!: scan_string_shorter scan_number_shorter scan_word_shorter
      split: list.splits option.splits if_splits)

function lex :: "string \<Rightarrow> token list option" where
  "lex s = (case s of
     [] \<Rightarrow> Some []
   | c # t \<Rightarrow>
       if is_ws c then lex t
       else (case next_token s of
               None \<Rightarrow> None
             | Some (tok, r) \<Rightarrow> map_option ((#) tok) (lex r)))"
  by pat_completeness auto
termination
  by (relation "measure length") (auto dest: next_token_shorter)

declare lex.simps [simp del]

lemma lex_Nil [simp]: "lex [] = Some []"
  by (simp add: lex.simps)

subsection \<open>The machine\<close>

definition maxNestingDepth :: nat where "maxNestingDepth = 10000"

datatype frame =
    FArr "json list"
  | FObj "(string \<times> json) list"
  | FKey "(string \<times> json) list" string

datatype pstate = PValue | PValueOrEnd | PKeyOrEnd | PKey | PColon | PAfter json

fun value_step :: "token \<Rightarrow> frame list \<Rightarrow> (frame list \<times> pstate) option" where
  "value_step TNull stk = Some (stk, PAfter JNull)"
| "value_step TTrue stk = Some (stk, PAfter (JBool True))"
| "value_step TFalse stk = Some (stk, PAfter (JBool False))"
| "value_step (TNum n) stk = Some (stk, PAfter (JNum n))"
| "value_step (TStr raw) stk = Some (stk, PAfter (JStr raw))"
| "value_step TLBracket stk =
     (if length stk < maxNestingDepth then Some (FArr [] # stk, PValueOrEnd) else None)"
| "value_step TLBrace stk =
     (if length stk < maxNestingDepth then Some (FObj [] # stk, PKeyOrEnd) else None)"
| "value_step _ stk = None"

fun after_step :: "token \<Rightarrow> json \<Rightarrow> frame list \<Rightarrow> (frame list \<times> pstate) option" where
  "after_step TComma v (FArr vs # stk) = Some (FArr (v # vs) # stk, PValue)"
| "after_step TRBracket v (FArr vs # stk) = Some (stk, PAfter (JArr (rev (v # vs))))"
| "after_step TComma v (FKey ms k # stk) = Some (FObj ((k, v) # ms) # stk, PKey)"
| "after_step TRBrace v (FKey ms k # stk) = Some (stk, PAfter (JObj (rev ((k, v) # ms))))"
| "after_step _ v stk = None"

fun json_step :: "token \<Rightarrow> frame list \<times> pstate \<Rightarrow> (frame list \<times> pstate) option" where
  "json_step tok (stk, PValue) = value_step tok stk"
| "json_step tok (FArr vs # stk, PValueOrEnd) =
     (if tok = TRBracket then Some (stk, PAfter (JArr [])) else value_step tok (FArr vs # stk))"
| "json_step (TStr k) (FObj ms # stk, PKeyOrEnd) = Some (FKey ms k # stk, PColon)"
| "json_step TRBrace (FObj ms # stk, PKeyOrEnd) = Some (stk, PAfter (JObj []))"
| "json_step (TStr k) (FObj ms # stk, PKey) = Some (FKey ms k # stk, PColon)"
| "json_step TColon (stk, PColon) = Some (stk, PValue)"
| "json_step tok (stk, PAfter v) = after_step tok v stk"
| "json_step _ _ = None"

fun json_run :: "token list \<Rightarrow> frame list \<times> pstate \<Rightarrow> (frame list \<times> pstate) option" where
  "json_run [] c = Some c"
| "json_run (tok # toks) c = (case json_step tok c of None \<Rightarrow> None | Some c' \<Rightarrow> json_run toks c')"

definition parse_json :: "string \<Rightarrow> json option" where
  "parse_json s =
     (case lex s of None \<Rightarrow> None
      | Some toks \<Rightarrow> (case json_run toks ([], PValue) of Some ([], PAfter v) \<Rightarrow> Some v | _ \<Rightarrow> None))"

subsection \<open>Writing\<close>

fun comma_separated :: "token list list \<Rightarrow> token list" where
  "comma_separated [] = []"
| "comma_separated [ts] = ts"
| "comma_separated (ts # tss) = ts @ TComma # comma_separated tss"

fun json_tokens :: "json \<Rightarrow> token list" where
  "json_tokens JNull = [TNull]"
| "json_tokens (JBool b) = [if b then TTrue else TFalse]"
| "json_tokens (JNum n) = [TNum n]"
| "json_tokens (JStr raw) = [TStr raw]"
| "json_tokens (JArr vs) = TLBracket # comma_separated (map json_tokens vs) @ [TRBracket]"
| "json_tokens (JObj ms) =
     TLBrace # comma_separated (map (\<lambda>(k, v). TStr k # TColon # json_tokens v) ms) @ [TRBrace]"

fun render :: "token \<Rightarrow> string" where
  "render TLBrace = [CHR 0x7B]" | "render TRBrace = [CHR 0x7D]"
| "render TLBracket = [CHR 0x5B]" | "render TRBracket = [CHR 0x5D]"
| "render TColon = [CHR 0x3A]" | "render TComma = [CHR 0x2C]"
| "render (TStr raw) = quote # raw @ [quote]" | "render (TNum n) = n"
| "render TTrue = ''true''" | "render TFalse = ''false''" | "render TNull = ''null''"

definition print_json :: "json \<Rightarrow> string" where
  "print_json v = concat (map render (json_tokens v))"

text \<open>The values encoders build: strings are escapes, numbers are integers.\<close>

definition jstring :: "string \<Rightarrow> json" where "jstring s = JStr (escape_string s)"
definition jint :: "int \<Rightarrow> json" where "jint i = JNum (dec_int i)"

fun json_ok :: "json \<Rightarrow> bool" where
  "json_ok JNull = True"
| "json_ok (JBool b) = True"
| "json_ok (JNum n) = (\<exists>i. n = dec_int i)"
| "json_ok (JStr raw) = (\<exists>s. raw = escape_string s)"
| "json_ok (JArr vs) = (\<forall>v \<in> set vs. json_ok v)"
| "json_ok (JObj ms) = (\<forall>(k, v) \<in> set ms. (\<exists>s. k = escape_string s) \<and> json_ok v)"

fun json_depth :: "json \<Rightarrow> nat" where
  "json_depth (JArr vs) = Suc (fold max (map json_depth vs) 0)"
| "json_depth (JObj ms) = Suc (fold max (map (\<lambda>(k, v). json_depth v) ms) 0)"
| "json_depth _ = 0"

subsection \<open>What is written is read back\<close>

fun token_ok :: "token \<Rightarrow> bool" where
  "token_ok (TNum n) = (\<exists>i. n = dec_int i)"
| "token_ok (TStr raw) = (\<exists>s. raw = escape_string s)"
| "token_ok _ = True"

text \<open>After a number only the end or a structural character can come.\<close>

fun tokens_ok :: "token list \<Rightarrow> bool" where
  "tokens_ok [] = True"
| "tokens_ok (TNum n # ts) =
     (token_ok (TNum n) \<and> (ts = [] \<or> hd ts \<in> {TComma, TRBrace, TRBracket}) \<and> tokens_ok ts)"
| "tokens_ok (t # ts) = (token_ok t \<and> tokens_ok ts)"

definition number_end :: "string \<Rightarrow> bool" where
  "number_end s \<longleftrightarrow> s = [] \<or> hd s \<in> {CHR 0x2C, CHR 0x7D, CHR 0x5D, CHR 0x0A}"

lemma is_dec_digit_nat: "is_dec_digit c \<longleftrightarrow> 48 \<le> (of_char c :: nat) \<and> (of_char c :: nat) \<le> 57"
  by (simp add: is_dec_digit_def less_eq_char_def)

lemma digit_not_special:
  "is_dec_digit c \<Longrightarrow> c \<noteq> CHR ''-'' \<and> structural c = None \<and> c \<noteq> quote \<and> \<not> is_ws c"
proof -
  assume c: "is_dec_digit c"
  then have neq: "c \<noteq> d" if "\<not> is_dec_digit d" for d using that by auto
  show ?thesis by (simp add: structural_def quote_def is_ws_def neq is_dec_digit_nat)
qed

lemma digit_char_0: "digit_char 0 = CHR ''0''"
  by code_simp

lemma number_end_cases:
  assumes "number_end t"
  shows "t = [] \<or> (\<exists>c u. t = c # u \<and> \<not> is_dec_digit c \<and> c \<notin> {CHR ''.'', CHR ''e'', CHR ''E''})"
  using assms by (cases t) (auto simp: number_end_def is_dec_digit_nat)

lemma hd_dec_nat_pos: "0 < n \<Longrightarrow> hd (dec_nat n) \<noteq> CHR ''0''"
proof (induction n rule: dec_nat.induct)
  case (1 n)
  show ?case
  proof (cases "n < 10")
    case True
    with "1.prems" have "(of_char (hd (dec_nat n)) :: nat) \<noteq> 48"
      by (simp add: dec_nat.simps [of n] of_digit_char)
    then show ?thesis by auto
  next
    case False
    with 1 have "hd (dec_nat (n div 10)) \<noteq> CHR ''0''" by simp
    with False show ?thesis by (simp add: dec_nat.simps [of n])
  qed
qed

lemma take_digits_append:
  assumes "number_end t"
  shows "take_digits (dec_nat n @ t) = Some (dec_nat n, t)"
proof -
  have "takeWhile is_dec_digit (dec_nat n @ t) = dec_nat n"
    "dropWhile is_dec_digit (dec_nat n @ t) = t"
    using number_end_cases [OF assms] dec_nat_digits [of _ n]
    by (auto simp: takeWhile_append dropWhile_append)
  then show ?thesis by (simp add: take_digits_def)
qed

lemma scan_unsigned_dec:
  assumes "number_end t"
  shows "scan_unsigned (dec_nat n @ t) = Some (dec_nat n, t)"
proof -
  have "scan_int (dec_nat n @ t) = Some (dec_nat n, t)"
  proof (cases "n = 0")
    case True
    then show ?thesis by (simp add: scan_int_def dec_nat.simps digit_char_0)
  next
    case False
    obtain c u where cu: "dec_nat n = c # u" by (cases "dec_nat n") auto
    with hd_dec_nat_pos [of n] False have "c \<noteq> CHR ''0''" by simp
    then show ?thesis using take_digits_append [OF assms, of n] by (simp add: scan_int_def cu)
  qed
  moreover have "scan_frac t = Some ([], t)" "scan_exp t = Some ([], t)"
    using number_end_cases [OF assms] by (auto simp: scan_frac_def scan_exp_def)
  ultimately show ?thesis by (simp add: scan_unsigned_def)
qed

lemma next_token_number:
  assumes "number_end t"
  shows "next_token (dec_int i @ t) = Some (TNum (dec_int i), t)" "\<not> is_ws (hd (dec_int i))"
proof -
  obtain c u where cu: "dec_nat (nat i) = c # u" by (cases "dec_nat (nat i)") auto
  have c: "is_dec_digit c" using hd_dec_nat [of "nat i"] by (simp add: cu)
  show "next_token (dec_int i @ t) = Some (TNum (dec_int i), t)"
  proof (cases "i < 0")
    case True
    then show ?thesis
      using scan_unsigned_dec [OF assms, of "nat (- i)"]
      by (simp add: dec_int_def next_token_def structural_def quote_def scan_number_def)
  next
    case False
    then show ?thesis
      using scan_unsigned_dec [OF assms, of "nat i"] digit_not_special [OF c] c
      by (simp add: dec_int_def next_token_def cu scan_number_def)
  qed
  show "\<not> is_ws (hd (dec_int i))"
    using digit_not_special [OF c] by (auto simp: dec_int_def cu is_ws_def)
qed

lemma lex_token:
  "next_token (p @ t) = Some (tok, t) \<Longrightarrow> p \<noteq> [] \<Longrightarrow> \<not> is_ws (hd p) \<Longrightarrow>
   lex (p @ t) = map_option ((#) tok) (lex t)"
proof -
  assume "next_token (p @ t) = Some (tok, t)" "p \<noteq> []" "\<not> is_ws (hd p)"
  moreover then obtain c q where "p = c # q" by (cases p) auto
  ultimately show ?thesis by (simp add: lex.simps [of "c # q @ t"])
qed

lemma next_token_render:
  assumes "token_ok tok" "\<And>n. tok = TNum n \<Longrightarrow> number_end t"
  shows "next_token (render tok @ t) = Some (tok, t) \<and> render tok \<noteq> [] \<and> \<not> is_ws (hd (render tok))"
proof (cases tok)
  case (TNum n)
  with assms obtain i where "n = dec_int i" "number_end t" by auto
  with next_token_number [of t i] show ?thesis
    by (auto simp: TNum dec_int_def)
next
  case (TStr raw)
  with assms obtain s where "raw = escape_string s" by auto
  then show ?thesis
    using scan_escape [of s t]
    by (simp add: TStr next_token_def structural_def quote_def is_ws_def)
qed (simp_all add: next_token_def structural_def quote_def is_ws_def is_dec_digit_nat
      scan_word_def has_prefix_def)

lemma tokens_ok_Cons:
  "tokens_ok (t # ts) \<longleftrightarrow> token_ok t \<and> tokens_ok ts \<and>
     (\<forall>n. t = TNum n \<longrightarrow> ts = [] \<or> hd ts \<in> {TComma, TRBrace, TRBracket})"
  by (cases t) auto

lemma lex_render: "tokens_ok ts \<Longrightarrow> lex (concat (map render ts)) = Some ts"
proof (induction ts)
  case (Cons t ts)
  from Cons.prems have ok: "token_ok t" "tokens_ok ts"
    and num: "\<And>n. t = TNum n \<Longrightarrow> number_end (concat (map render ts))"
    by (cases ts; auto simp: tokens_ok_Cons number_end_def)+
  from next_token_render [OF ok(1) num] Cons.IH [OF ok(2)] show ?case
    by (simp add: lex_token)
qed simp

text \<open>The token lists of values are lexed as they are.\<close>

abbreviation closing :: "token list \<Rightarrow> bool" where
  "closing ts \<equiv> ts = [] \<or> hd ts \<in> {TComma, TRBrace, TRBracket}"

lemma tokens_ok_separated:
  assumes "\<And>xs rest. xs \<in> set tss \<Longrightarrow> closing rest \<Longrightarrow> tokens_ok rest \<Longrightarrow> tokens_ok (xs @ rest)"
    and "closing rest" "tokens_ok rest"
  shows "tokens_ok (comma_separated tss @ rest)"
  using assms by (induction tss rule: comma_separated.induct) (auto simp: tokens_ok_Cons)

lemma tokens_ok_json:
  "json_ok v \<Longrightarrow> closing rest \<Longrightarrow> tokens_ok rest \<Longrightarrow> tokens_ok (json_tokens v @ rest)"
proof (induction v arbitrary: rest)
  case (JArr vs)
  have "tokens_ok (comma_separated (map json_tokens vs) @ TRBracket # rest)"
    using JArr by (intro tokens_ok_separated) (auto simp: tokens_ok_Cons)
  then show ?case by (simp add: tokens_ok_Cons)
next
  case (JObj ms)
  have "tokens_ok (comma_separated (map (\<lambda>(k, v). TStr k # TColon # json_tokens v) ms) @ TRBrace # rest)"
    using JObj by (intro tokens_ok_separated) (fastforce simp: tokens_ok_Cons)+
  then show ?case by (simp add: tokens_ok_Cons)
qed (auto simp: tokens_ok_Cons)

text \<open>And the machine builds the value again, if its containers are not nested too deeply.\<close>

lemma json_tokens_not_Nil [simp]: "json_tokens v \<noteq> []"
  by (cases v) auto

lemma json_tokens_hd: "hd (json_tokens v) \<noteq> TRBracket"
  by (cases v) auto

lemma json_run_append:
  "json_run (xs @ ys) c = (case json_run xs c of None \<Rightarrow> None | Some c' \<Rightarrow> json_run ys c')"
  by (induction xs arbitrary: c) (auto split: option.splits)

lemma fold_max_ge: "x \<in> set xs \<or> x = a \<Longrightarrow> x \<le> fold max xs (a::nat)"
proof (induction xs arbitrary: a x)
  case (Cons y xs)
  from Cons.IH [of x "max y a"] Cons.IH [of "max y a" "max y a"] Cons.prems show ?case by auto
qed simp

lemma json_run_array:
  assumes "\<And>v stk. v \<in> set vs \<Longrightarrow> length stk \<le> d \<Longrightarrow>
      json_run (json_tokens v) (stk, PValue) = Some (stk, PAfter v)"
    and "vs \<noteq> []" "length stk < d"
  shows "json_run (comma_separated (map json_tokens vs) @ [TRBracket]) (FArr us # stk, PValue)
    = Some (stk, PAfter (JArr (rev us @ vs)))"
  using assms
proof (induction vs arbitrary: us)
  case (Cons v vs)
  have v: "json_run (json_tokens v) (FArr us # stk, PValue) = Some (FArr us # stk, PAfter v)"
    using Cons.prems by simp
  show ?case
  proof (cases "vs = []")
    case True
    then show ?thesis using v by (simp add: json_run_append)
  next
    case False
    then have "json_run (comma_separated (map json_tokens vs) @ [TRBracket]) (FArr (v # us) # stk, PValue)
      = Some (stk, PAfter (JArr (rev (v # us) @ vs)))"
      using Cons.prems by (intro Cons.IH) auto
    then show ?thesis using v False by (cases vs) (simp_all add: json_run_append)
  qed
qed simp

lemma json_run_object:
  assumes "\<And>k v stk. (k, v) \<in> set ms \<Longrightarrow> length stk \<le> d \<Longrightarrow>
      json_run (json_tokens v) (stk, PValue) = Some (stk, PAfter v)"
    and "ms \<noteq> []" "length stk < d" "st = PKeyOrEnd \<or> st = PKey"
  shows "json_run (comma_separated (map (\<lambda>(k, v). TStr k # TColon # json_tokens v) ms) @ [TRBrace])
      (FObj us # stk, st) = Some (stk, PAfter (JObj (rev us @ ms)))"
  using assms
proof (induction ms arbitrary: us st)
  case (Cons m ms)
  obtain k v where m: "m = (k, v)" by force
  have "json_run (json_tokens v) (FKey us k # stk, PValue) = Some (FKey us k # stk, PAfter v)"
    using Cons.prems(1) [of k v "FKey us k # stk"] Cons.prems(3) by (simp add: m)
  with Cons.prems(4) have v: "json_run (TStr k # TColon # json_tokens v) (FObj us # stk, st)
      = Some (FKey us k # stk, PAfter v)" by auto
  show ?case
  proof (cases "ms = []")
    case True
    then show ?thesis
      using v json_run_append [of "TStr k # TColon # json_tokens v" "[TRBrace]"] by (simp add: m)
  next
    case False
    then have "json_run (comma_separated (map (\<lambda>(k, v). TStr k # TColon # json_tokens v) ms) @ [TRBrace])
        (FObj ((k, v) # us) # stk, PKey) = Some (stk, PAfter (JObj (rev ((k, v) # us) @ ms)))"
      using Cons.prems by (intro Cons.IH) auto
    moreover obtain m' ms' where "ms = m' # ms'" using False by (cases ms) auto
    ultimately show ?thesis
      using v json_run_append [of "TStr k # TColon # json_tokens v"] by (simp add: m)
  qed
qed simp

lemma json_run_first:
  "hd xs \<noteq> TRBracket \<Longrightarrow> xs \<noteq> [] \<Longrightarrow>
   json_run xs (FArr us # stk, PValueOrEnd) = json_run xs (FArr us # stk, PValue)"
  by (cases xs) auto

lemma comma_separated_hd: "xs \<noteq> [] \<Longrightarrow> hd (comma_separated (xs # xss) @ ys) = hd xs"
  by (cases xss) auto

lemma comma_separated_Nil: "xs \<noteq> [] \<Longrightarrow> comma_separated (xs # xss) \<noteq> []"
  by (cases xss) auto

lemma json_run_tokens:
  "json_depth v + length stk \<le> maxNestingDepth \<Longrightarrow>
   json_run (json_tokens v) (stk, PValue) = Some (stk, PAfter v)"
proof (induction v arbitrary: stk)
  case (JArr vs)
  show ?case
  proof (cases vs)
    case Nil
    with JArr.prems show ?thesis by simp
  next
    case (Cons v0 vs0)
    have elem: "json_run (json_tokens v) (stk', PValue) = Some (stk', PAfter v)"
      if "v \<in> set vs" "length stk' \<le> Suc (length stk)" for v stk'
      using JArr.IH [OF that(1), of stk'] JArr.prems that(2)
        fold_max_ge [of "json_depth v" "map json_depth vs" 0] that(1) by simp
    have "json_run (comma_separated (map json_tokens vs) @ [TRBracket]) (FArr [] # stk, PValue)
        = Some (stk, PAfter (JArr (rev [] @ vs)))"
      by (rule json_run_array [where d = "Suc (length stk)"]) (simp_all add: elem Cons)
    moreover have "hd (comma_separated (map json_tokens vs) @ [TRBracket]) \<noteq> TRBracket"
      by (simp only: Cons list.map comma_separated_hd [OF json_tokens_not_Nil] json_tokens_hd not_False_eq_True)
    ultimately show ?thesis
      using JArr.prems by (simp add: json_run_first)
  qed
next
  case (JObj ms)
  show ?case
  proof (cases ms)
    case Nil
    with JObj.prems show ?thesis by simp
  next
    case (Cons m0 ms0)
    have elem: "json_run (json_tokens v) (stk', PValue) = Some (stk', PAfter v)"
      if "(k, v) \<in> set ms" "length stk' \<le> Suc (length stk)" for k v stk'
    proof (rule JObj.IH)
      have "json_depth v \<in> set (map (\<lambda>(k, v). json_depth v) ms)" using that(1) by force
      with fold_max_ge [of "json_depth v" "map (\<lambda>(k, v). json_depth v) ms" 0] JObj.prems that(2)
      show "json_depth v + length stk' \<le> maxNestingDepth" by simp
    qed (use that(1) in \<open>auto simp: snds.simps\<close>)
    have "json_run (comma_separated (map (\<lambda>(k, v). TStr k # TColon # json_tokens v) ms) @ [TRBrace])
        (FObj [] # stk, PKeyOrEnd) = Some (stk, PAfter (JObj (rev [] @ ms)))"
      by (rule json_run_object [where d = "Suc (length stk)"]) (auto intro: elem simp: Cons)
    then show ?thesis using JObj.prems by simp
  qed
qed auto

lemma parse_print_json:
  assumes "json_ok v" "json_depth v \<le> maxNestingDepth"
  shows "parse_json (print_json v) = Some v"
proof -
  have "lex (print_json v) = Some (json_tokens v)"
    unfolding print_json_def using tokens_ok_json [OF assms(1), of "[]"] by (simp add: lex_render)
  with json_run_tokens [of v "[]"] assms(2) show ?thesis by (simp add: parse_json_def)
qed

subsection \<open>Indented text\<close>

text \<open>
  \<^verbatim>\<open>SetIndent("", "  ")\<close>: the encoder writes the compact text and then goes over it
  once more. A container is opened on a line of its own only when something follows in it, so
  that an empty one stays on its line; \<open>need\<close> says that one has just been opened.
\<close>

definition json_newline :: "nat \<Rightarrow> string" where
  "json_newline d = CHR 0x0A # concat (replicate d ''  '')"

fun indent_tokens :: "nat \<Rightarrow> bool \<Rightarrow> token list \<Rightarrow> string" where
  "indent_tokens d need [] = []"
| "indent_tokens d need (t # ts) =
     (if t = TRBrace \<or> t = TRBracket then
        (if need then render t @ indent_tokens d False ts
         else json_newline (d - 1) @ render t @ indent_tokens (d - 1) False ts)
      else
        (let d = (if need then Suc d else d)
         in (if need then json_newline d else []) @ render t @
           (if t = TLBrace \<or> t = TLBracket then indent_tokens d True ts
            else if t = TComma then json_newline d @ indent_tokens d False ts
            else if t = TColon then CHR '' '' # indent_tokens d False ts
            else indent_tokens d False ts)))"

definition indent_json :: "json \<Rightarrow> string" where
  "indent_json v = indent_tokens 0 False (json_tokens v)"

lemma lex_ws: "is_ws c \<Longrightarrow> lex (c # s) = lex s"
  by (simp add: lex.simps [of "c # s"])

lemma lex_newline [simp]: "lex (json_newline d @ s) = lex s"
proof -
  have "lex (concat (replicate d ''  '') @ s) = lex s"
    by (induction d) (simp_all add: lex_ws is_ws_def)
  then show ?thesis by (simp add: json_newline_def lex_ws is_ws_def)
qed

lemma number_end_indent:
  assumes "closing ts" "number_end tail"
  shows "number_end (indent_tokens d False ts @ tail)"
  using assms by (cases ts) (auto simp: number_end_def json_newline_def)

text \<open>The spaces are between the tokens, so the text is lexed to the same tokens.\<close>

lemma lex_indent:
  assumes "number_end tail" "lex tail = Some []"
  shows "tokens_ok ts \<Longrightarrow> lex (indent_tokens d need ts @ tail) = Some ts"
proof (induction ts arbitrary: d need)
  case Nil
  with assms(2) show ?case by simp
next
  case (Cons t ts)
  from Cons.prems have ok: "token_ok t" "tokens_ok ts"
    and num: "\<And>n. t = TNum n \<Longrightarrow> closing ts" by (auto simp: tokens_ok_Cons)
  note IH = Cons.IH [OF ok(2)]
  have tok: "lex (render t @ x) = map_option ((#) t) (lex x)"
    if "\<And>n. t = TNum n \<Longrightarrow> number_end x" for x
    using next_token_render [OF ok(1) that] by (simp add: lex_token)
  have plain: "lex (render t @ x) = map_option ((#) t) (lex x)" if "\<forall>n. t \<noteq> TNum n" for x
    using that by (intro tok) auto
  show ?case
  proof (cases "\<exists>n. t = TNum n")
    case True
    then obtain n where t: "t = TNum n" by blast
    have "lex (render t @ indent_tokens d False ts @ tail) = Some (t # ts)" for d
      using tok [OF number_end_indent [OF num assms(1)]] IH by simp
    then show ?thesis unfolding t by (simp add: Let_def del: render.simps)
  next
    case False
    then show ?thesis using plain IH
      by (cases t) (simp_all add: Let_def lex_ws is_ws_def del: render.simps)
  qed
qed

lemma parse_indent_json:
  assumes "json_ok v" "json_depth v \<le> maxNestingDepth" "tail = [] \<or> tail = [CHR 0x0A]"
  shows "parse_json (indent_json v @ tail) = Some v"
proof -
  have "number_end tail" "lex tail = Some []"
    using assms(3) by (auto simp: number_end_def lex_ws is_ws_def)
  with tokens_ok_json [OF assms(1), of "[]"] have "lex (indent_json v @ tail) = Some (json_tokens v)"
    by (simp add: indent_json_def lex_indent)
  with json_run_tokens [of v "[]"] assms(2) show ?thesis by (simp add: parse_json_def)
qed

end
