(* ===== verification/Codec.thy ===== *)
theory Codec
  imports Json
begin

text \<open>
  How the values of \<^verbatim>\<open>internal/domain/entity\<close> are written as JSON and read back:
  the struct tags of the payloads and of the envelope, \<^verbatim>\<open>[]byte\<close> as base64, and
  \<^verbatim>\<open>time.Time\<close> as RFC 3339 with nanoseconds (in UTC, which is all the storage
  writes). A decoder goes on after a value of the wrong type and reports the first such
  error at the end; an error of a time ends it at once. For times the strict grammar is
  modelled; the Go library also takes a few looser spellings, which nothing writes.
\<close>

subsection \<open>Reading a struct\<close>

datatype dec_out = DOk | DSave go_error | DAbort go_error

definition type_error :: go_error where "type_error = Errorf ''json: cannot unmarshal''"
definition syntax_error :: go_error where "syntax_error = Errorf ''invalid JSON''"

text \<open>
  Field names are compared exactly first and then after folding: ASCII letters to upper
  case, and the two other runes whose folding is an ASCII letter.
\<close>

definition json_fold_rune :: "nat \<Rightarrow> nat" where
  "json_fold_rune r =
     (if 97 \<le> r \<and> r \<le> 122 then r - 32 else if r = 383 then 83 else if r = 8490 then 75 else r)"

definition fold_name :: "string \<Rightarrow> nat list" where
  "fold_name s = map json_fold_rune (runes s)"

definition match_field :: "string list \<Rightarrow> string \<Rightarrow> string option" where
  "match_field names key =
     (case find (\<lambda>n. n = key) names of
        Some n \<Rightarrow> Some n
      | None \<Rightarrow> find (\<lambda>n. fold_name n = fold_name key) names)"

fun decode_members :: "string list \<Rightarrow> (string \<Rightarrow> json \<Rightarrow> 'a \<Rightarrow> dec_out \<times> 'a) \<Rightarrow>
    (string \<times> json) list \<Rightarrow> go_error option \<Rightarrow> 'a \<Rightarrow> go_error option \<times> 'a" where
  "decode_members names upd [] saved x = (saved, x)"
| "decode_members names upd ((k, v) # ms) saved x =
     (case match_field names (unquote k) of
        None \<Rightarrow> decode_members names upd ms saved x
      | Some n \<Rightarrow>
         (case upd n v x of
            (DOk, x) \<Rightarrow> decode_members names upd ms saved x
          | (DSave e, x) \<Rightarrow> decode_members names upd ms (if saved = None then Some e else saved) x
          | (DAbort e, x) \<Rightarrow> (Some e, x)))"

definition decode_object :: "string list \<Rightarrow> (string \<Rightarrow> json \<Rightarrow> 'a \<Rightarrow> dec_out \<times> 'a) \<Rightarrow> json \<Rightarrow> 'a \<Rightarrow>
    go_error option \<times> 'a" where
  "decode_object names upd v x =
     (case v of JObj ms \<Rightarrow> decode_members names upd ms None x
      | JNull \<Rightarrow> (None, x) | _ \<Rightarrow> (Some type_error, x))"

text \<open>\<^verbatim>\<open>json.Unmarshal\<close> into a struct: the text is checked as a whole first.\<close>

definition json_unmarshal :: "string list \<Rightarrow> (string \<Rightarrow> json \<Rightarrow> 'a \<Rightarrow> dec_out \<times> 'a) \<Rightarrow> bytes \<Rightarrow> 'a \<Rightarrow>
    go_error option \<times> 'a" where
  "json_unmarshal names upd data x =
     (case parse_json data of None \<Rightarrow> (Some syntax_error, x) | Some v \<Rightarrow> decode_object names upd v x)"

definition decode_string :: "json \<Rightarrow> string \<Rightarrow> dec_out \<times> string" where
  "decode_string v old =
     (case v of JStr raw \<Rightarrow> (DOk, unquote raw) | JNull \<Rightarrow> (DOk, old) | _ \<Rightarrow> (DSave type_error, old))"

definition parse_int64 :: "string \<Rightarrow> int option" where
  "parse_int64 s =
     (let (neg, ds) = (case s of c # t \<Rightarrow> if c = CHR ''-'' then (True, t) else (False, s) | [] \<Rightarrow> (False, []));
          n = (if neg then - int (dec_val ds) else int (dec_val ds))
      in if ds \<noteq> [] \<and> list_all is_dec_digit ds \<and> - (2 ^ 63) \<le> n \<and> n < 2 ^ 63 then Some n else None)"

definition decode_int :: "json \<Rightarrow> int \<Rightarrow> dec_out \<times> int" where
  "decode_int v old =
     (case v of
        JNum s \<Rightarrow> (case parse_int64 s of Some i \<Rightarrow> (DOk, i) | None \<Rightarrow> (DSave type_error, old))
      | JNull \<Rightarrow> (DOk, old)
      | _ \<Rightarrow> (DSave type_error, old))"

lemma parse_int64_dec_int:
  assumes "- (2 ^ 63) \<le> i" "i < 2 ^ 63"
  shows "parse_int64 (dec_int i) = Some i"
proof (cases "i < 0")
  case True
  with assms show ?thesis
    using dec_nat_digits [of _ "nat (- i)"]
    by (auto simp: parse_int64_def dec_int_def dec_val_dec_nat list_all_iff)
next
  case False
  obtain c t where ct: "dec_nat (nat i) = c # t" by (cases "dec_nat (nat i)") auto
  have "is_dec_digit c" using hd_dec_nat [of "nat i"] by (simp add: ct)
  then have "c \<noteq> CHR ''-''" using digit_not_special by blast
  with False assms dec_nat_digits [of _ "nat i"] dec_val_dec_nat [of "nat i"] show ?thesis
    by (auto simp: parse_int64_def dec_int_def ct list_all_iff)
qed

subsection \<open>Payloads\<close>

definition opt_field :: "string \<Rightarrow> string \<Rightarrow> (string \<times> json) list" where
  "opt_field k s = (if s = [] then [] else [(escape_string k, jstring s)])"

definition field :: "string \<Rightarrow> json \<Rightarrow> string \<times> json" where
  "field k v = (escape_string k, v)"

definition login_json :: "login \<Rightarrow> json" where
  "login_json l = JObj ([field ''site'' (jstring (Site l)), field ''username'' (jstring (Username l)),
     field ''password'' (jstring (Password l))] @ opt_field ''notes'' (Notes l))"

definition secret_json :: "secret_body \<Rightarrow> json" where
  "secret_json s = JObj [field ''name'' (jstring (secret_Name s)), field ''value'' (jstring (secret_Value s))]"

definition note_json :: "note_body \<Rightarrow> json" where
  "note_json n = JObj [field ''name'' (jstring (note_Name n)), field ''content'' (jstring (note_Content n))]"

definition marshal_login :: "login \<Rightarrow> bytes" where "marshal_login l = print_json (login_json l)"
definition marshal_secret :: "secret_body \<Rightarrow> bytes" where "marshal_secret s = print_json (secret_json s)"
definition marshal_note :: "note_body \<Rightarrow> bytes" where "marshal_note n = print_json (note_json n)"

definition zero_login :: login where
  "zero_login = \<lparr>Site = [], Username = [], Password = [], Notes = []\<rparr>"
definition zero_secret :: secret_body where
  "zero_secret = \<lparr>secret_Name = [], secret_Value = []\<rparr>"
definition zero_note :: note_body where
  "zero_note = \<lparr>note_Name = [], note_Content = []\<rparr>"

definition login_fields :: "string \<Rightarrow> json \<Rightarrow> login \<Rightarrow> dec_out \<times> login" where
  "login_fields n v l =
     (if n = ''site'' then let (d, s) = decode_string v (Site l) in (d, l\<lparr>Site := s\<rparr>)
      else if n = ''username'' then let (d, s) = decode_string v (Username l) in (d, l\<lparr>Username := s\<rparr>)
      else if n = ''password'' then let (d, s) = decode_string v (Password l) in (d, l\<lparr>Password := s\<rparr>)
      else let (d, s) = decode_string v (Notes l) in (d, l\<lparr>Notes := s\<rparr>))"

definition secret_fields :: "string \<Rightarrow> json \<Rightarrow> secret_body \<Rightarrow> dec_out \<times> secret_body" where
  "secret_fields n v x =
     (if n = ''name'' then let (d, s) = decode_string v (secret_Name x) in (d, x\<lparr>secret_Name := s\<rparr>)
      else let (d, s) = decode_string v (secret_Value x) in (d, x\<lparr>secret_Value := s\<rparr>))"

definition note_fields :: "string \<Rightarrow> json \<Rightarrow> note_body \<Rightarrow> dec_out \<times> note_body" where
  "note_fields n v x =
     (if n = ''name'' then let (d, s) = decode_string v (note_Name x) in (d, x\<lparr>note_Name := s\<rparr>)
      else let (d, s) = decode_string v (note_Content x) in (d, x\<lparr>note_Content := s\<rparr>))"

definition unmarshal_login :: "bytes \<Rightarrow> go_error option \<times> login" where
  "unmarshal_login data =
     json_unmarshal [''site'', ''username'', ''password'', ''notes''] login_fields data zero_login"

definition unmarshal_secret :: "bytes \<Rightarrow> go_error option \<times> secret_body" where
  "unmarshal_secret data = json_unmarshal [''name'', ''value''] secret_fields data zero_secret"

definition unmarshal_note :: "bytes \<Rightarrow> go_error option \<times> note_body" where
  "unmarshal_note data = json_unmarshal [''name'', ''content''] note_fields data zero_note"

text \<open>Reading a written member.\<close>

lemma unquote_field [simp]: "unquote (escape_string k) = utf8_clean k"
  by (rule unquote_escape)

lemma decode_jstring [simp]: "decode_string (jstring s) old = (DOk, utf8_clean s)"
  by (simp add: decode_string_def jstring_def)

lemma json_ok_jstring [simp]: "json_ok (jstring s)"
  by (auto simp: jstring_def)

lemma json_depth_jstring [simp]: "json_depth (jstring s) = 0"
  by (simp add: jstring_def)

lemma decode_members_field [simp]:
  "ascii k \<Longrightarrow> k \<in> set names \<Longrightarrow>
   decode_members names upd (field k v # ms) saved x =
     (case upd k v x of
        (DOk, x) \<Rightarrow> decode_members names upd ms saved x
      | (DSave e, x) \<Rightarrow> decode_members names upd ms (if saved = None then Some e else saved) x
      | (DAbort e, x) \<Rightarrow> (Some e, x))"
proof -
  assume "ascii k" "k \<in> set names"
  moreover from this(2) have "find (\<lambda>n. n = k) names = Some k" by (induction names) auto
  ultimately show ?thesis by (simp add: field_def match_field_def)
qed

definition clean_login :: "login \<Rightarrow> login" where
  "clean_login l = \<lparr>Site = utf8_clean (Site l), Username = utf8_clean (Username l),
     Password = utf8_clean (Password l), Notes = utf8_clean (Notes l)\<rparr>"

definition clean_secret :: "secret_body \<Rightarrow> secret_body" where
  "clean_secret s = \<lparr>secret_Name = utf8_clean (secret_Name s), secret_Value = utf8_clean (secret_Value s)\<rparr>"

definition clean_note :: "note_body \<Rightarrow> note_body" where
  "clean_note s = \<lparr>note_Name = utf8_clean (note_Name s), note_Content = utf8_clean (note_Content s)\<rparr>"

lemma ascii_code: "ascii s \<longleftrightarrow> list_all (\<lambda>c. (of_char c :: nat) < 128) s"
  by (simp add: ascii_def list_all_iff)

lemma unmarshal_marshal_login: "unmarshal_login (marshal_login l) = (None, clean_login l)"
proof -
  have "parse_json (marshal_login l) = Some (login_json l)"
    unfolding marshal_login_def
    by (rule parse_print_json)
      (auto simp: login_json_def field_def opt_field_def maxNestingDepth_def)
  then show ?thesis
    by (simp add: unmarshal_login_def json_unmarshal_def decode_object_def login_json_def
        opt_field_def login_fields_def zero_login_def clean_login_def flip: field_def)
qed

lemma unmarshal_marshal_secret: "unmarshal_secret (marshal_secret s) = (None, clean_secret s)"
proof -
  have "parse_json (marshal_secret s) = Some (secret_json s)"
    unfolding marshal_secret_def
    by (rule parse_print_json) (auto simp: secret_json_def field_def maxNestingDepth_def)
  then show ?thesis
    by (simp add: unmarshal_secret_def json_unmarshal_def decode_object_def secret_json_def
        secret_fields_def zero_secret_def clean_secret_def)
qed

lemma unmarshal_marshal_note: "unmarshal_note (marshal_note s) = (None, clean_note s)"
proof -
  have "parse_json (marshal_note s) = Some (note_json s)"
    unfolding marshal_note_def
    by (rule parse_print_json) (auto simp: note_json_def field_def maxNestingDepth_def)
  then show ?thesis
    by (simp add: unmarshal_note_def json_unmarshal_def decode_object_def note_json_def
        note_fields_def zero_note_def clean_note_def)
qed

subsection \<open>Property\<close>

text \<open>
  C8: Each kind of payload survives being written and read: reading back what was written
  for a login, a secret or a note reports no error and gives every field again, with invalid
  UTF-8 replaced.
\<close>

theorem payload_roundtrip:
  "unmarshal_login (marshal_login l) = (None, clean_login l) \<and>
   unmarshal_secret (marshal_secret s) = (None, clean_secret s) \<and>
   unmarshal_note (marshal_note n) = (None, clean_note n)"
  by (simp add: unmarshal_marshal_login unmarshal_marshal_secret unmarshal_marshal_note)

end
