(* ===== verification/Envelope_Codec.thy ===== *)
theory Envelope_Codec
  imports Codec Go_Time
begin

text \<open>
  The JSON form in which the storage keeps an envelope: base64 for the payload, RFC 3339
  for the two times, a sorted object for the metadata.
\<close>

subsection \<open>Base64\<close>

definition b64_char :: "nat \<Rightarrow> char" where
  "b64_char n =
     (if n < 26 then char_of (65 + n) else if n < 52 then char_of (71 + n)
      else if n < 62 then char_of (n - 4) else if n = 62 then CHR ''+'' else CHR ''/'')"

definition b64_value :: "char \<Rightarrow> nat option" where
  "b64_value c = (let n = of_char c :: nat in
     if 65 \<le> n \<and> n \<le> 90 then Some (n - 65) else if 97 \<le> n \<and> n \<le> 122 then Some (n - 71)
     else if 48 \<le> n \<and> n \<le> 57 then Some (n + 4) else if n = 43 then Some 62
     else if n = 47 then Some 63 else None)"

fun b64_encode :: "bytes \<Rightarrow> string" where
  "b64_encode [] = []"
| "b64_encode [a] = (let n = of_char a * 16 :: nat in
     [b64_char (n div 64), b64_char (n mod 64), CHR ''='', CHR ''=''])"
| "b64_encode [a, b] = (let n = (of_char a * 256 + of_char b) * 4 :: nat in
     [b64_char (n div 64 div 64), b64_char (n div 64 mod 64), b64_char (n mod 64), CHR ''=''])"
| "b64_encode (a # b # c # s) = (let n = (of_char a * 256 + of_char b) * 256 + of_char c :: nat in
     [b64_char (n div 64 div 64 div 64), b64_char (n div 64 div 64 mod 64),
      b64_char (n div 64 mod 64), b64_char (n mod 64)] @ b64_encode s)"

text \<open>Quantums of four; padding only at the end. Line breaks have been dropped before.\<close>

fun b64_quantums :: "string \<Rightarrow> bytes option" where
  "b64_quantums [] = Some []"
| "b64_quantums (p # q # r # t # s) =
     (case (b64_value p, b64_value q, b64_value r, b64_value t) of
        (Some w, Some x, Some y, Some z) \<Rightarrow>
          let n = ((w * 64 + x) * 64 + y) * 64 + z
          in map_option (\<lambda>bs. char_of (n div 65536) # char_of (n div 256) # char_of n # bs) (b64_quantums s)
      | (Some w, Some x, Some y, None) \<Rightarrow>
          if t = CHR ''='' \<and> s = []
          then let n = ((w * 64 + x) * 64 + y) div 4 in Some [char_of (n div 256), char_of n] else None
      | (Some w, Some x, None, None) \<Rightarrow>
          if r = CHR ''='' \<and> t = CHR ''='' \<and> s = [] then Some [char_of ((w * 64 + x) div 16)] else None
      | _ \<Rightarrow> None)"
| "b64_quantums _ = None"

definition b64_decode :: "string \<Rightarrow> bytes option" where
  "b64_decode s = b64_quantums (filter (\<lambda>c. c \<noteq> CHR 0x0A \<and> c \<noteq> CHR 0x0D) s)"

lemma b64_value_char: "n < 64 \<Longrightarrow> b64_value (b64_char n) = Some n"
  by (auto simp: b64_value_def b64_char_def Let_def)

lemma b64_value_pad: "b64_value (CHR ''='') = None"
  by (simp add: b64_value_def)

lemma char_of_of_char_add: "char_of (256 * k + (of_char c :: nat)) = c"
  by (rule of_char_eq_iff [THEN iffD1]) simp

lemma b64_quantums_encode: "b64_quantums (b64_encode bs) = Some bs"
proof (induction bs rule: b64_encode.induct)
  case (2 a)
  have lt: "(of_char a :: nat) < 256" by simp
  then have "of_char a * 16 div 64 < (64 :: nat)" by (intro less_mult_imp_div_less) simp
  moreover have "(x * 16 div 64 * 64 + x * 16 mod 64) div 16 = x" for x :: nat by (simp only: div_mult_mod_eq)
  ultimately show ?case by (simp add: b64_value_char b64_value_pad Let_def)
next
  case (3 a b)
  let ?n = "(of_char a * 256 + of_char b) * 4 :: nat"
  have lt: "(of_char a :: nat) < 256" "(of_char b :: nat) < 256" by simp_all
  then have "of_char a \<le> (255 :: nat)" "of_char b \<le> (255 :: nat)" by linarith+
  then have "?n div 64 div 64 < 64" by (intro less_mult_imp_div_less) simp
  moreover have "((?n div 64 div 64 * 64 + ?n div 64 mod 64) * 64 + ?n mod 64) div 4
      = 256 * of_char a + of_char b"
    by (simp only: div_mult_mod_eq) simp
  ultimately show ?case
    by (simp add: b64_value_char b64_value_pad Let_def char_of_of_char_add)
next
  case (4 a b c s)
  let ?n = "(of_char a * 256 + of_char b) * 256 + of_char c :: nat"
  have lt: "(of_char a :: nat) < 256" "(of_char b :: nat) < 256" "(of_char c :: nat) < 256" by simp_all
  then have "of_char a \<le> (255 :: nat)" "of_char b \<le> (255 :: nat)" "of_char c \<le> (255 :: nat)"
    by linarith+
  then have "?n div 64 div 64 div 64 < 64" by (intro less_mult_imp_div_less) simp
  moreover have n: "((?n div 64 div 64 div 64 * 64 + ?n div 64 div 64 mod 64) * 64 + ?n div 64 mod 64) * 64
      + ?n mod 64 = ?n"
    by (simp only: div_mult_mod_eq)
  moreover have "char_of (?n div 65536) = a" "char_of (?n div 256) = b" "char_of ?n = c"
  proof -
    have d: "?n div 256 = of_char a * 256 + of_char b" "(of_char a * 256 + of_char b) div 256 = (of_char a :: nat)"
    proof -
      have q: "(k * 256 + of_char x) div 256 = (k :: nat)" for k x by simp
      show "?n div 256 = of_char a * 256 + of_char b" "(of_char a * 256 + of_char b) div 256 = (of_char a :: nat)"
        by (rule q)+
    qed
    have "?n div 65536 = ?n div 256 div 256" by (simp flip: div_mult2_eq)
    with d show "char_of (?n div 65536) = a" "char_of (?n div 256) = b" "char_of ?n = c"
      using char_of_of_char_add [of "of_char a" b] char_of_of_char_add [of "of_char a * 256 + of_char b" c]
      by (simp_all only: mult.commute [of 256] char_of_char)
  qed
  ultimately show ?case
    using 4 by (simp add: b64_value_char Let_def)
qed simp_all

definition plain_chars :: "string \<Rightarrow> bool" where
  "plain_chars s \<longleftrightarrow> (\<forall>c \<in> set s. 32 \<le> (of_char c :: nat) \<and> (of_char c :: nat) < 128
     \<and> (of_char c :: nat) \<notin> {34, 92, 60, 62, 38})"

lemma plain_ascii: "plain_chars s \<Longrightarrow> ascii s"
  by (auto simp: plain_chars_def ascii_def)

lemma escape_plain: "plain_chars s \<Longrightarrow> escape_string s = s"
  by (induction s) (auto simp: escape_string_def plain_chars_def escape_segment_def)

lemma plain_append [simp]: "plain_chars (a @ b) \<longleftrightarrow> plain_chars a \<and> plain_chars b"
  by (auto simp: plain_chars_def)

lemma plain_Cons: "plain_chars (c # s) \<longleftrightarrow> 32 \<le> (of_char c :: nat) \<and> (of_char c :: nat) < 128
     \<and> (of_char c :: nat) \<notin> {34, 92, 60, 62, 38} \<and> plain_chars s"
  by (auto simp: plain_chars_def)

lemma b64_char_plain: "n < 64 \<Longrightarrow> plain_chars [b64_char n]"
  by (auto simp: plain_chars_def b64_char_def simp del: special_chars)

lemma b64_encode_plain: "plain_chars (b64_encode bs)"
proof -
  have lt: "(of_char c :: nat) \<le> 255" for c :: char
    using nat_of_char_less_256 [of c] by linarith
  have digits: "c \<in> b64_char ` {..<64} \<union> {CHR ''=''}" if "c \<in> set (b64_encode bs)" for c
    using that
  proof (induction bs rule: b64_encode.induct)
    case (2 a)
    have "of_char a * 16 div 64 < (64 :: nat)" using lt [of a] by (intro less_mult_imp_div_less) simp
    with 2 show ?case by (auto simp: Let_def)
  next
    case (3 a b)
    have "(of_char a * 256 + of_char b) * 4 div 64 div 64 < (64 :: nat)"
      using lt [of a] lt [of b] by (intro less_mult_imp_div_less) simp
    with 3 show ?case by (auto simp: Let_def)
  next
    case (4 a b c s)
    have "((of_char a * 256 + of_char b) * 256 + of_char c) div 64 div 64 div 64 < (64 :: nat)"
      using lt [of a] lt [of b] lt [of c] by (intro less_mult_imp_div_less) simp
    with 4 show ?case by (auto simp: Let_def)
  qed simp
  have "plain_chars [c]" if "c \<in> set (b64_encode bs)" for c
    using digits [OF that] b64_char_plain by (auto simp: plain_chars_def simp del: special_chars)
  then show ?thesis by (auto simp: plain_chars_def simp del: special_chars)
qed

lemma b64_decode_encode: "b64_decode (b64_encode bs) = Some bs"
proof -
  have "filter (\<lambda>c. c \<noteq> CHR 0x0A \<and> c \<noteq> CHR 0x0D) (b64_encode bs) = b64_encode bs"
    using b64_encode_plain [of bs] by (auto simp: plain_chars_def intro!: filter_True)
  then show ?thesis by (simp add: b64_decode_def b64_quantums_encode)
qed

subsection \<open>Times\<close>

lemma digit_plain: "is_dec_digit c \<Longrightarrow> plain_chars [c]"
  by (auto simp: plain_chars_def is_dec_digit_nat simp del: special_chars)

lemma pad_plain: "plain_chars (pad w n)"
  using dec_nat_digits [of _ n] digit_plain
  by (auto simp: pad_def Let_def plain_chars_def simp del: special_chars)

lemma drop_zeros_plain: "plain_chars s \<Longrightarrow> plain_chars (drop_zeros s)"
  by (auto simp: plain_chars_def drop_zeros_def dest: set_dropWhileD simp del: special_chars)

lemma plain_literals:
  "plain_chars (CHR ''-'' # s) = plain_chars s" "plain_chars (CHR '':'' # s) = plain_chars s"
  "plain_chars (CHR ''T'' # s) = plain_chars s" "plain_chars (CHR ''.'' # s) = plain_chars s"
  "plain_chars (CHR ''Z'' # s) = plain_chars s" "plain_chars []"
  by (simp_all add: plain_Cons plain_chars_def [of "[]"] del: special_chars)

lemma format_rfc3339_plain: "plain_chars (format_rfc3339 t)"
proof -
  obtain y m d where date: "date_of t = (y, m, d)" by (rule prod_cases3)
  show ?thesis
    unfolding format_rfc3339_def date Let_def prod.case
    by (simp only: plain_append append_Cons append_Nil plain_literals pad_plain drop_zeros_plain
        simp_thms split: if_split)
qed

definition time_json :: "time \<Rightarrow> json" where "time_json t = JStr (format_rfc3339 t)"

definition time_error :: go_error where
  "time_error = Errorf ''Time.UnmarshalJSON: input is not a JSON string or not a time''"

text \<open>\<^verbatim>\<open>UnmarshalJSON\<close> works on the raw text; its error ends the decoding.\<close>

definition decode_time :: "json \<Rightarrow> time \<Rightarrow> dec_out \<times> time" where
  "decode_time v old =
     (case v of
        JNull \<Rightarrow> (DOk, old)
      | JStr raw \<Rightarrow> (case parse_rfc3339 raw of Some t \<Rightarrow> (DOk, t) | None \<Rightarrow> (DAbort time_error, old))
      | _ \<Rightarrow> (DAbort time_error, old))"

subsection \<open>Bytes and metadata\<close>

definition bytes_json :: "bytes \<Rightarrow> json" where
  "bytes_json bs = (if bs = [] then JNull else JStr (b64_encode bs))"

text \<open>A slice of bytes can also come as an array of numbers.\<close>

fun decode_byte_array :: "json list \<Rightarrow> bool \<times> bytes" where
  "decode_byte_array [] = (True, [])"
| "decode_byte_array (v # vs) =
     (let (ok, bs) = decode_byte_array vs in
      case v of
        JNull \<Rightarrow> (ok, char_of (0::nat) # bs)
      | JNum s \<Rightarrow> (case parse_int64 s of
            Some i \<Rightarrow> if 0 \<le> i \<and> i < 256 then (ok, char_of (nat i) # bs) else (False, char_of (0::nat) # bs)
          | None \<Rightarrow> (False, char_of (0::nat) # bs))
      | _ \<Rightarrow> (False, char_of (0::nat) # bs))"

definition decode_bytes :: "json \<Rightarrow> bytes \<Rightarrow> dec_out \<times> bytes" where
  "decode_bytes v old =
     (case v of
        JNull \<Rightarrow> (DOk, [])
      | JStr raw \<Rightarrow> (case b64_decode (unquote raw) of
            Some bs \<Rightarrow> (DOk, bs) | None \<Rightarrow> (DSave (Errorf ''illegal base64 data''), old))
      | JArr vs \<Rightarrow> (let (ok, bs) = decode_byte_array vs in (if ok then DOk else DSave type_error, bs))
      | _ \<Rightarrow> (DSave type_error, old))"

definition meta_json :: "(string \<times> string) list \<Rightarrow> json" where
  "meta_json m = JObj (map (\<lambda>(k, v). field k (jstring v)) (sort_key fst m))"

text \<open>Members are assigned to the map one after the other.\<close>

fun decode_map :: "(string \<times> json) list \<Rightarrow> bool \<Rightarrow> (string \<times> string) list \<Rightarrow> bool \<times> (string \<times> string) list" where
  "decode_map [] ok m = (ok, m)"
| "decode_map ((k, v) # ms) ok m =
     (case decode_string v [] of
        (DOk, s) \<Rightarrow> decode_map ms ok (AList.update (unquote k) s m)
      | (_, s) \<Rightarrow> decode_map ms False (AList.update (unquote k) s m))"

definition decode_meta :: "json \<Rightarrow> (string \<times> string) list \<Rightarrow> dec_out \<times> (string \<times> string) list" where
  "decode_meta v old =
     (case v of
        JObj ms \<Rightarrow> (let (ok, m) = decode_map ms True old in (if ok then DOk else DSave type_error, m))
      | JNull \<Rightarrow> (DOk, [])
      | _ \<Rightarrow> (DSave type_error, old))"

subsection \<open>The envelope\<close>

definition envelope_json :: "envelope \<Rightarrow> json" where
  "envelope_json e = JObj
     ([field ''id'' (jstring (ID e)), field ''name'' (jstring (Name e)), field ''type'' (jint (Type e))] @
      (if Meta e = [] then [] else [field ''meta'' (meta_json (Meta e))]) @
      [field ''payload'' (bytes_json (Payload e)),
       field ''created_at'' (time_json (CreatedAt e)), field ''updated_at'' (time_json (UpdatedAt e))])"

definition envelope_names :: "string list" where
  "envelope_names = [''id'', ''name'', ''type'', ''meta'', ''payload'', ''created_at'', ''updated_at'']"

definition envelope_fields :: "string \<Rightarrow> json \<Rightarrow> envelope \<Rightarrow> dec_out \<times> envelope" where
  "envelope_fields n v e =
     (if n = ''id'' then let (d, s) = decode_string v (ID e) in (d, e\<lparr>ID := s\<rparr>)
      else if n = ''name'' then let (d, s) = decode_string v (Name e) in (d, e\<lparr>Name := s\<rparr>)
      else if n = ''type'' then let (d, i) = decode_int v (Type e) in (d, e\<lparr>Type := i\<rparr>)
      else if n = ''meta'' then let (d, m) = decode_meta v (Meta e) in (d, e\<lparr>Meta := m\<rparr>)
      else if n = ''payload'' then let (d, b) = decode_bytes v (Payload e) in (d, e\<lparr>Payload := b\<rparr>)
      else if n = ''created_at'' then let (d, t) = decode_time v (CreatedAt e) in (d, e\<lparr>CreatedAt := t\<rparr>)
      else let (d, t) = decode_time v (UpdatedAt e) in (d, e\<lparr>UpdatedAt := t\<rparr>))"

definition marshal_envelope :: "envelope \<Rightarrow> go_error + bytes" where
  "marshal_envelope e =
     (if json_time (CreatedAt e) \<and> json_time (UpdatedAt e) then Inr (print_json (envelope_json e))
      else Inl (Errorf ''Time.MarshalJSON: year outside of range [0,9999]''))"

definition unmarshal_envelope :: "bytes \<Rightarrow> go_error + envelope" where
  "unmarshal_envelope data =
     (case json_unmarshal envelope_names envelope_fields data zero_envelope of
        (None, e) \<Rightarrow> Inr e | (Some x, _) \<Rightarrow> Inl x)"

text \<open>The \<^verbatim>\<open>int\<close> of the type has 64 bits.\<close>

definition int64_type :: "envelope \<Rightarrow> bool" where
  "int64_type e \<longleftrightarrow> - (2 ^ 63) \<le> Type e \<and> Type e < 2 ^ 63"

lemma decode_map_written:
  "decode_map (map (\<lambda>(k, v). field k (jstring v)) ps) ok m
    = (ok, fold (\<lambda>(k, v) acc. AList.update (utf8_clean k) (utf8_clean v) acc) ps m)"
  by (induction ps arbitrary: m) (auto simp: field_def)

lemma decode_written [simp]:
  "decode_meta (meta_json m) [] = (DOk, json_meta m)"
  "decode_bytes (bytes_json bs) [] = (DOk, bs)"
  "json_time t \<Longrightarrow> decode_time (time_json t) t0 = (DOk, t)"
  "- (2 ^ 63) \<le> i \<Longrightarrow> i < 2 ^ 63 \<Longrightarrow> decode_int (jint i) j = (DOk, i)"
proof -
  show "decode_meta (meta_json m) [] = (DOk, json_meta m)"
    by (simp add: decode_meta_def meta_json_def decode_map_written json_meta_def)
  have "unquote (b64_encode bs) = b64_encode bs"
    using unquote_escape [of "b64_encode bs"]
    by (simp add: escape_plain plain_ascii b64_encode_plain)
  then show "decode_bytes (bytes_json bs) [] = (DOk, bs)"
    by (simp add: decode_bytes_def bytes_json_def b64_decode_encode)
  show "json_time t \<Longrightarrow> decode_time (time_json t) t0 = (DOk, t)"
    by (simp add: decode_time_def time_json_def parse_format_rfc3339)
  show "- (2 ^ 63) \<le> i \<Longrightarrow> i < 2 ^ 63 \<Longrightarrow> decode_int (jint i) j = (DOk, i)"
    by (simp add: decode_int_def jint_def parse_int64_dec_int)
qed

lemma json_ok_written [simp]:
  "json_ok (meta_json m)" "json_ok (bytes_json bs)" "json_ok (time_json t)" "json_ok (jint i)"
proof -
  show "json_ok (meta_json m)" by (auto simp: meta_json_def field_def)
  show "json_ok (bytes_json bs)"
    using escape_plain [OF b64_encode_plain [of bs]] by (auto simp: bytes_json_def intro: sym)
  show "json_ok (time_json t)"
    using escape_plain [OF format_rfc3339_plain [of t]] by (auto simp: time_json_def intro: sym)
  show "json_ok (jint i)" by (auto simp: jint_def)
qed

lemma json_depth_written [simp]:
  "json_depth (meta_json m) = 1" "json_depth (bytes_json bs) = 0" "json_depth (time_json t) = 0"
  "json_depth (jint i) = 0"
proof -
  have "fold max (map (\<lambda>(k, v). json_depth v) (map (\<lambda>(k, v). field k (jstring v)) ps)) 0 = 0" for ps
    by (induction ps) (auto simp: field_def)
  then show "json_depth (meta_json m) = 1" by (simp add: meta_json_def)
qed (simp_all add: bytes_json_def time_json_def jint_def)

lemma unmarshal_marshal_envelope:
  assumes "marshal_envelope e = Inr d" "int64_type e"
  shows "unmarshal_envelope d = Inr (json_envelope e)"
proof -
  from assms(1) have times: "json_time (CreatedAt e)" "json_time (UpdatedAt e)"
    and d: "d = print_json (envelope_json e)" by (auto simp: marshal_envelope_def split: if_splits)
  have "parse_json d = Some (envelope_json e)"
    unfolding d by (rule parse_print_json) (auto simp: envelope_json_def field_def maxNestingDepth_def)
  with times assms(2) show ?thesis
    by (simp add: unmarshal_envelope_def json_unmarshal_def decode_object_def envelope_json_def
        envelope_names_def envelope_fields_def zero_envelope_def json_envelope_def int64_type_def)
qed

subsection \<open>Property\<close>

text \<open>
  C9: The stored form of an envelope loses nothing: when both times are in the years 0 to
  9999 the envelope can be written, and reading it back gives the same type, payload and
  times to the nanosecond, and the strings and metadata with invalid UTF-8 replaced.
\<close>

theorem envelope_roundtrip:
  assumes "json_time (CreatedAt e)" "json_time (UpdatedAt e)" "int64_type e"
  shows "\<exists>d. marshal_envelope e = Inr d \<and> unmarshal_envelope d = Inr (json_envelope e)"
  using assms unmarshal_marshal_envelope [OF _ assms(3)] by (simp add: marshal_envelope_def)

theorem envelope_roundtrip_witness:
  "\<exists>d. marshal_envelope (zero_envelope\<lparr>Type := 2, Payload := ''x'', UpdatedAt := 1735689600123456789\<rparr>) = Inr d
     \<and> unmarshal_envelope d
       = Inr (json_envelope (zero_envelope\<lparr>Type := 2, Payload := ''x'', UpdatedAt := 1735689600123456789\<rparr>))"
proof (rule envelope_roundtrip)
  let ?e = "zero_envelope\<lparr>Type := 2, Payload := ''x'', UpdatedAt := 1735689600123456789\<rparr>"
  show "json_time (CreatedAt ?e)" "json_time (UpdatedAt ?e)" by code_simp+
  show "int64_type ?e" by code_simp
qed

end
