(* ===== verification/Storage.thy ===== *)
theory Storage
  imports Envelope_Codec "HOL-Library.RBT"
begin

text \<open>
  \<^verbatim>\<open>internal/adapters/storage/bbolt.go\<close>: the three buckets and the operations on
  them. The database \<^verbatim>\<open>go.etcd.io/bbolt\<close> is a package outside the repository: its
  bucket operations and the outcome of a commit are the argument \<open>B\<close>, and what the code
  relies on (lookups after writes, iteration in the byte order of the keys) is the locale
  \<open>bbolt\<close>. Entries are kept in the JSON
  form of \<open>Envelope_Codec\<close>.
\<close>

subsection \<open>The database\<close>

record 'b store =
  bucketEntries :: 'b
  bucketIndexType :: 'b
  bucketAuth :: 'b

record 'b bolt =
  b_empty :: 'b
  b_get :: "'b \<Rightarrow> bytes \<Rightarrow> bytes option"
  b_put :: "'b \<Rightarrow> bytes \<Rightarrow> bytes \<Rightarrow> go_error + 'b"
  b_delete :: "'b \<Rightarrow> bytes \<Rightarrow> go_error + 'b"
  b_pairs :: "'b \<Rightarrow> (bytes \<times> bytes) list"
  b_commit :: "world \<Rightarrow> 'b store \<Rightarrow> go_error option"

definition keyGPGPublicKey :: bytes where "keyGPGPublicKey = ''gpg_public_key''"
definition keyPINHash :: bytes where "keyPINHash = ''pin_hash''"
definition keyPINSalt :: bytes where "keyPINSalt = ''pin_salt''"

text \<open>
  \<^verbatim>\<open>db.Update\<close>: a transaction whose body fails, or whose commit fails, leaves the
  database as it was. The body also yields a value, what it did to captured variables.
\<close>

definition db_update ::
  "'b bolt \<Rightarrow> ('b store \<Rightarrow> world \<Rightarrow> (go_error + 'b store) \<times> 'a \<times> world) \<Rightarrow> 'b store \<Rightarrow> world \<Rightarrow>
   go_error option \<times> 'a \<times> 'b store \<times> world" where
  "db_update B body st w =
     (case body st w of
        (Inl e, x, w) \<Rightarrow> (Some e, x, st, w)
      | (Inr st', x, w) \<Rightarrow>
          (case b_commit B w st' of
             Some e \<Rightarrow> (Some e, x, st, w)
           | None \<Rightarrow> (None, x, st', w)))"

definition bind_err :: "'e + 'a \<Rightarrow> ('a \<Rightarrow> 'e + 'c) \<Rightarrow> 'e + 'c" where
  "bind_err r f = (case r of Inl e \<Rightarrow> Inl e | Inr x \<Rightarrow> f x)"

definition wrap_left :: "string \<Rightarrow> go_error + 'a \<Rightarrow> go_error + 'a" where
  "wrap_left m r = (case r of Inl e \<Rightarrow> Inl (WrapErr m e) | Inr x \<Rightarrow> Inr x)"

lemma bind_err_Inr: "bind_err r f = Inr y \<longleftrightarrow> (\<exists>x. r = Inr x \<and> f x = Inr y)"
  by (simp add: bind_err_def split: sum.splits)

lemma wrap_left_Inr [simp]: "wrap_left m r = Inr x \<longleftrightarrow> r = Inr x"
  by (simp add: wrap_left_def split: sum.splits)

subsection \<open>Operations\<close>

text \<open>
  The errors of \<^verbatim>\<open>bolt.Open\<close> and of the creation of each bucket come from
  outside, and so does what an existing file holds.
\<close>

definition NewBboltStore :: "'b bolt \<Rightarrow> go_error option \<Rightarrow> (bytes \<Rightarrow> go_error option) \<Rightarrow>
    'b store option \<Rightarrow> go_error + 'b store" where
  "NewBboltStore B openErr bucketErr existing =
     (case openErr of
        Some e \<Rightarrow> Inl (WrapErr ''failed to open bbolt database'' e)
      | None \<Rightarrow>
         (case find (\<lambda>b. bucketErr b \<noteq> None) [''entries'', ''index_type'', ''auth''] of
            Some b \<Rightarrow> Inl (WrapErr ''failed to initialise buckets''
               (WrapErr (''create bucket '' @ CHR 0x22 # b @ [CHR 0x22]) (the (bucketErr b))))
          | None \<Rightarrow>
             (case existing of
                None \<Rightarrow> Inr \<lparr>bucketEntries = b_empty B, bucketIndexType = b_empty B, bucketAuth = b_empty B\<rparr>
              | Some st \<Rightarrow> Inr st)))"

definition typeIndexKey :: "envelope \<Rightarrow> bytes" where
  "typeIndexKey e = dec_int (Type e) @ CHR '':'' # ID e"

definition create_tx :: "'b bolt \<Rightarrow> envelope \<Rightarrow> bytes \<Rightarrow> 'b store \<Rightarrow> go_error + 'b store" where
  "create_tx B envelope data st =
     bind_err (wrap_left ''put entries'' (b_put B (bucketEntries st) (ID envelope) data)) (\<lambda>bEntries.
     bind_err (wrap_left ''put index_type''
         (b_put B (bucketIndexType st) (typeIndexKey envelope) (ID envelope))) (\<lambda>bType.
     Inr (st\<lparr>bucketEntries := bEntries, bucketIndexType := bType\<rparr>)))"

definition Create :: "'b bolt \<Rightarrow> envelope \<Rightarrow> 'b store \<Rightarrow> world \<Rightarrow>
    go_error option \<times> envelope \<times> 'b store \<times> world" where
  "Create B envelope st w =
     (case uuid_new w of
        (None, w) \<Rightarrow> (Some (WrapErr ''failed to generate UUID'' (Errorf ''uuid'')), envelope, st, w)
      | (Some u, w) \<Rightarrow>
          let (now, w) = time_now w;
              envelope = envelope\<lparr>ID := u, CreatedAt := now, UpdatedAt := now\<rparr>
          in (case marshal_envelope envelope of
                Inl e \<Rightarrow> (Some (WrapErr ''failed to marshal envelope'' e), envelope, st, w)
              | Inr data \<Rightarrow>
                 (case db_update B (\<lambda>st w. (create_tx B envelope data st, (), w)) st w of
                    (Some e, _, st, w) \<Rightarrow> (Some (WrapErr ''failed to create entry'' e), envelope, st, w)
                  | (None, _, st, w) \<Rightarrow> (None, envelope, st, w))))"

text \<open>The two writes that move an entry from one type to another in the index.\<close>

definition reindex :: "'b bolt \<Rightarrow> envelope \<Rightarrow> envelope \<Rightarrow> 'b \<Rightarrow> go_error + 'b" where
  "reindex B oldEnv envelope typeIdx =
     (if Type oldEnv \<noteq> Type envelope
      then bind_err (wrap_left ''delete old index_type'' (b_delete B typeIdx (typeIndexKey oldEnv)))
             (\<lambda>typeIdx. wrap_left ''put index_type''
                (b_put B typeIdx (typeIndexKey envelope) (ID envelope)))
      else Inr typeIdx)"

definition update_tx :: "'b bolt \<Rightarrow> envelope \<Rightarrow> 'b store \<Rightarrow> world \<Rightarrow>
    (go_error + 'b store) \<times> envelope \<times> world" where
  "update_tx B envelope st w =
     (case b_get B (bucketEntries st) (ID envelope) of
        None \<Rightarrow> (Inl ErrNotFound, envelope, w)
      | Some existing \<Rightarrow>
         (case unmarshal_envelope existing of
            Inl e \<Rightarrow> (Inl (WrapErr ''failed to unmarshal existing entry'' e), envelope, w)
          | Inr oldEnv \<Rightarrow>
             (case reindex B oldEnv envelope (bucketIndexType st) of
                Inl e \<Rightarrow> (Inl e, envelope, w)
              | Inr typeIdx \<Rightarrow>
                  let (now, w) = time_now w;
                      envelope = envelope\<lparr>CreatedAt := CreatedAt oldEnv, UpdatedAt := now\<rparr>
                  in (case marshal_envelope envelope of
                        Inl e \<Rightarrow> (Inl (WrapErr ''failed to marshal envelope'' e), envelope, w)
                      | Inr data \<Rightarrow>
                          (bind_err (wrap_left ''put entries''
                               (b_put B (bucketEntries st) (ID envelope) data))
                             (\<lambda>bEntries. Inr (st\<lparr>bucketEntries := bEntries, bucketIndexType := typeIdx\<rparr>)),
                           envelope, w)))))"

definition Update :: "'b bolt \<Rightarrow> envelope \<Rightarrow> 'b store \<Rightarrow> world \<Rightarrow>
    go_error option \<times> envelope \<times> 'b store \<times> world" where
  "Update B envelope st w =
     (case db_update B (update_tx B envelope) st w of
        (None, envelope, st, w) \<Rightarrow> (None, envelope, st, w)
      | (Some e, envelope, st, w) \<Rightarrow>
          (Some (if errors_is e ErrNotFound then ErrNotFound
                 else WrapErr ''failed to update entry'' e), envelope, st, w))"

definition GetByID :: "'b bolt \<Rightarrow> string \<Rightarrow> 'b store \<Rightarrow> go_error + envelope" where
  "GetByID B eid st =
     (case b_get B (bucketEntries st) eid of
        None \<Rightarrow> Inl ErrNotFound
      | Some data \<Rightarrow>
         (case unmarshal_envelope data of
            Inl e \<Rightarrow> Inl (if errors_is e ErrNotFound then ErrNotFound
                           else WrapErr ''failed to get entry'' e)
          | Inr envelope \<Rightarrow> Inr envelope))"

text \<open>The two loops of \<^verbatim>\<open>List\<close>: over all entries, and over a range of the index.\<close>

fun list_all_loop :: "(bytes \<times> bytes) list \<Rightarrow> go_error + envelope list" where
  "list_all_loop [] = Inr []"
| "list_all_loop ((k, v) # rest) =
     (case unmarshal_envelope v of
        Inl e \<Rightarrow> Inl e
      | Inr env \<Rightarrow> bind_err (list_all_loop rest) (\<lambda>envs. Inr (env # envs)))"

fun list_type_loop :: "'b bolt \<Rightarrow> 'b \<Rightarrow> bytes \<Rightarrow> (bytes \<times> bytes) list \<Rightarrow>
    go_error + envelope list" where
  "list_type_loop B bEntries pre [] = Inr []"
| "list_type_loop B bEntries pre ((k, idVal) # rest) =
     (if has_prefix k pre
      then (case b_get B bEntries idVal of
              None \<Rightarrow> list_type_loop B bEntries pre rest
            | Some data \<Rightarrow>
               (case unmarshal_envelope data of
                  Inl e \<Rightarrow> Inl e
                | Inr env \<Rightarrow> bind_err (list_type_loop B bEntries pre rest) (\<lambda>envs. Inr (env # envs))))
      else Inr [])"

text \<open>\<^verbatim>\<open>c.Seek(prefix)\<close> and the pairs that \<^verbatim>\<open>c.Next()\<close> gives from there.\<close>

definition cursor_from :: "'b bolt \<Rightarrow> bytes \<Rightarrow> 'b \<Rightarrow> (bytes \<times> bytes) list" where
  "cursor_from B pre b = dropWhile (\<lambda>(k, v). k < pre) (b_pairs B b)"

definition StoreList :: "'b bolt \<Rightarrow> entry_type \<Rightarrow> 'b store \<Rightarrow> go_error + envelope list" where
  "StoreList B entryType st =
     wrap_left ''failed to list entries''
       (if entryType = EntryTypeUnspecified then list_all_loop (b_pairs B (bucketEntries st))
        else let pre = dec_int entryType @ '':''
             in list_type_loop B (bucketEntries st) pre (cursor_from B pre (bucketIndexType st)))"

definition delete_tx :: "'b bolt \<Rightarrow> string \<Rightarrow> 'b store \<Rightarrow> go_error + 'b store" where
  "delete_tx B eid st =
     (case b_get B (bucketEntries st) eid of
        None \<Rightarrow> Inl ErrNotFound
      | Some data \<Rightarrow>
          bind_err
            (case unmarshal_envelope data of
               Inl e \<Rightarrow> Inr (bucketIndexType st)
             | Inr env \<Rightarrow> wrap_left ''delete index_type''
                 (b_delete B (bucketIndexType st) (typeIndexKey env))) (\<lambda>bType.
          bind_err (wrap_left ''delete entries'' (b_delete B (bucketEntries st) eid)) (\<lambda>bEntries.
          Inr (st\<lparr>bucketEntries := bEntries, bucketIndexType := bType\<rparr>))))"

definition DeleteByID :: "'b bolt \<Rightarrow> string \<Rightarrow> 'b store \<Rightarrow> world \<Rightarrow>
    go_error option \<times> 'b store \<times> world" where
  "DeleteByID B eid st w =
     (case db_update B (\<lambda>st w. (delete_tx B eid st, (), w)) st w of
        (None, _, st, w) \<Rightarrow> (None, st, w)
      | (Some e, _, st, w) \<Rightarrow>
          (Some (if errors_is e ErrNotFound then ErrNotFound
                 else WrapErr ''failed to delete entry'' e), st, w))"

subsection \<open>The bucket of the authentication data\<close>

definition StoreAuthKey :: "'b bolt \<Rightarrow> bytes \<Rightarrow> 'b store \<Rightarrow> world \<Rightarrow> go_error option \<times> 'b store \<times> world" where
  "StoreAuthKey B pubKey st w =
     (case db_update B (\<lambda>st w.
          (bind_err (b_put B (bucketAuth st) keyGPGPublicKey pubKey) (\<lambda>b. Inr (st\<lparr>bucketAuth := b\<rparr>)),
           (), w)) st w of
        (None, _, st, w) \<Rightarrow> (None, st, w)
      | (Some e, _, st, w) \<Rightarrow> (Some (WrapErr ''failed to store auth key'' e), st, w))"

definition GetAuthKey :: "'b bolt \<Rightarrow> 'b store \<Rightarrow> go_error + bytes" where
  "GetAuthKey B st =
     (case b_get B (bucketAuth st) keyGPGPublicKey of None \<Rightarrow> Inl ErrNotFound | Some v \<Rightarrow> Inr v)"

definition StorePINHash :: "'b bolt \<Rightarrow> bytes \<Rightarrow> bytes \<Rightarrow> 'b store \<Rightarrow> world \<Rightarrow>
    go_error option \<times> 'b store \<times> world" where
  "StorePINHash B hash salt st w =
     (case db_update B (\<lambda>st w.
          (bind_err (b_put B (bucketAuth st) keyPINHash hash) (\<lambda>b.
           bind_err (b_put B b keyPINSalt salt) (\<lambda>b. Inr (st\<lparr>bucketAuth := b\<rparr>))), (), w)) st w of
        (r, _, st, w) \<Rightarrow> (r, st, w))"

definition GetPINHash :: "'b bolt \<Rightarrow> 'b store \<Rightarrow> go_error + bytes \<times> bytes" where
  "GetPINHash B st =
     (case (b_get B (bucketAuth st) keyPINHash, b_get B (bucketAuth st) keyPINSalt) of
        (Some h, Some sv) \<Rightarrow> Inr (h, sv)
      | _ \<Rightarrow> Inl ErrNotFound)"

definition DeletePINHash :: "'b bolt \<Rightarrow> 'b store \<Rightarrow> world \<Rightarrow> go_error option \<times> 'b store \<times> world" where
  "DeletePINHash B st w =
     (case db_update B (\<lambda>st w.
          (bind_err (b_delete B (bucketAuth st) keyPINHash) (\<lambda>b.
           bind_err (b_delete B b keyPINSalt) (\<lambda>b. Inr (st\<lparr>bucketAuth := b\<rparr>))), (), w)) st w of
        (r, _, st, w) \<Rightarrow> (r, st, w))"

subsection \<open>What the code relies on\<close>

text \<open>The limits are those of bbolt: \<^verbatim>\<open>MaxKeySize\<close> and \<^verbatim>\<open>MaxValueSize\<close>.\<close>

text \<open>In the byte order the keys with a given prefix are one interval.\<close>

lemma prefix_not_less: "\<not> p @ t < (p :: bytes)"
  by (induction p) simp_all

lemma prefix_interval: "p \<le> a \<Longrightarrow> a \<le> p @ t \<Longrightarrow> has_prefix a (p :: bytes)"
proof (induction p arbitrary: a)
  case Nil
  then show ?case by (simp add: has_prefix_def)
next
  case (Cons c p)
  then show ?case by (cases a) (auto simp: has_prefix_def)
qed

lemma cursor_prefix_filter:
  fixes ps :: "(bytes \<times> bytes) list"
  assumes "sorted_wrt (<) (map fst ps)"
  shows "takeWhile (\<lambda>(k, v). has_prefix k pre) (dropWhile (\<lambda>(k, v). k < pre) ps)
    = filter (\<lambda>(k, v). has_prefix k pre) ps"
  using assms
proof (induction ps)
  case (Cons p ps)
  obtain k v where p: "p = (k, v)" by force
  from Cons.prems have gt: "k < k'" if "(k', v') \<in> set ps" for k' v'
    using that by (auto simp: p)
  have IH: "takeWhile (\<lambda>(k, v). has_prefix k pre) (dropWhile (\<lambda>(k, v). k < pre) ps)
    = filter (\<lambda>(k, v). has_prefix k pre) ps"
    using Cons by simp
  consider "k < pre" | "pre \<le> k" "has_prefix k pre" | "pre \<le> k" "\<not> has_prefix k pre" by force
  then show ?case
  proof cases
    case 1
    then have "\<not> has_prefix k pre" using prefix_not_less by (auto simp: has_prefix_iff)
    with 1 IH show ?thesis by (simp add: p)
  next
    case 2
    have "dropWhile (\<lambda>(k, v). k < pre) ps = ps"
      using gt 2(1) by (cases ps) fastforce+
    with 2 IH show ?thesis by (simp add: p)
  next
    case 3
    have "\<not> has_prefix k' pre" if "(k', v') \<in> set ps" for k' v'
    proof
      assume "has_prefix k' pre"
      then obtain t where "k' = pre @ t" by (auto simp: has_prefix_iff)
      with prefix_interval [of pre k t] 3 gt [OF that] show False by (simp add: less_imp_le)
    qed
    then have "filter (\<lambda>(k, v). has_prefix k pre) ps = []" by (auto simp: filter_empty_conv)
    moreover from 3(1) have "\<not> k < pre" by simp
    ultimately show ?thesis using 3(2) by (simp add: p)
  qed
qed simp

text \<open>A common prefix does not matter for the order.\<close>

lemma append_less_append: "p @ a < p @ b \<longleftrightarrow> a < (b :: bytes)"
  by (induction p) simp_all

locale bbolt =
  fixes B :: "'b bolt"
  assumes get_empty: "b_get B (b_empty B) k = None"
    and put_ok: "k \<noteq> [] \<Longrightarrow> length k \<le> 32768 \<Longrightarrow> length v \<le> 2147483646 \<Longrightarrow> \<exists>b'. b_put B b k v = Inr b'"
    and put_get: "b_put B b k v = Inr b' \<Longrightarrow> b_get B b' k' = (if k' = k then Some v else b_get B b k')"
    and del_ok: "\<exists>b'. b_delete B b k = Inr b'"
    and del_get: "b_delete B b k = Inr b' \<Longrightarrow> b_get B b' k' = (if k' = k then None else b_get B b k')"
    and pairs_sorted: "sorted_wrt (<) (map fst (b_pairs B b))"
    and pairs_get: "map_of (b_pairs B b) k = b_get B b k"
begin

lemma pairs_distinct: "distinct (map fst (b_pairs B b))"
  using pairs_sorted [of b] by (simp add: strict_sorted_iff)

lemma pairs_mem: "(k, v) \<in> set (b_pairs B b) \<longleftrightarrow> b_get B b k = Some v"
  using pairs_distinct [of b] by (simp flip: pairs_get)

lemma put_fun: "b_put B b k v = Inr b' \<Longrightarrow> b_get B b' = (b_get B b)(k \<mapsto> v)"
  by (rule ext) (simp add: put_get [of b k v b'])

lemma del_fun: "b_delete B b k = Inr b' \<Longrightarrow> b_get B b' = (b_get B b)(k := None)"
  by (rule ext) (simp add: del_get [of b k b'])

lemma put_get_simps [store_simps]:
  "b_put B b k v = Inr b' \<Longrightarrow> b_get B b' k = Some v"
  "b_put B b k v = Inr b' \<Longrightarrow> k' \<noteq> k \<Longrightarrow> b_get B b' k' = b_get B b k'"
  by (simp_all add: put_get)

lemma del_get_simps [store_simps]:
  "b_delete B b k = Inr b' \<Longrightarrow> b_get B b' k = None"
  "b_delete B b k = Inr b' \<Longrightarrow> k' \<noteq> k \<Longrightarrow> b_get B b' k' = b_get B b k'"
  by (simp_all add: del_get)

lemma del_never_fails: "b_delete B b k \<noteq> Inl e"
  using del_ok [of b k] by auto

end

subsection \<open>The abstract view and the invariant\<close>

text \<open>What is stored under an identifier, and the canonical text form of a UUID.\<close>

definition stored :: "'b bolt \<Rightarrow> 'b store \<Rightarrow> string \<Rightarrow> envelope option" where
  "stored B st k =
     (case b_get B (bucketEntries st) k of
        None \<Rightarrow> None
      | Some d \<Rightarrow> (case unmarshal_envelope d of Inl e \<Rightarrow> None | Inr env \<Rightarrow> Some env))"

definition key_ok :: "string \<Rightarrow> bool" where
  "key_ok k \<longleftrightarrow> ascii k \<and> length k = 36"

text \<open>The key of the index for a type and an identifier.\<close>

definition index_key :: "entry_type \<Rightarrow> string \<Rightarrow> bytes" where
  "index_key t k = dec_int t @ CHR '':'' # k"

lemma typeIndexKey_index_key: "typeIndexKey e = index_key (Type e) (ID e)"
  by (simp add: typeIndexKey_def index_key_def)

lemma index_key_inject [simp]: "index_key t k = index_key t' k' \<longleftrightarrow> t = t' \<and> k = k'"
proof
  assume eq: "index_key t k = index_key t' k'"
  have "split2 (index_key t k) (CHR '':'') = [dec_int t, k]" for t k
    by (simp add: index_key_def colon_notin_dec_int)
  from this [of t k] this [of t' k'] show "t = t' \<and> k = k'" unfolding eq by simp
qed simp

text \<open>The index has exactly one key for each entry.\<close>

definition index_of :: "(bytes \<Rightarrow> bytes option) \<Rightarrow> (string \<Rightarrow> envelope option) \<Rightarrow> bool" where
  "index_of I S \<longleftrightarrow> (\<forall>k v. I k = Some v \<longleftrightarrow> (\<exists>e. S v = Some e \<and> k = index_key (Type e) v))"

lemma index_of_Some: "index_of I S \<Longrightarrow> I k = Some v \<longleftrightarrow> (\<exists>e. S v = Some e \<and> k = index_key (Type e) v)"
  by (simp add: index_of_def)

lemma index_of_insert:
  assumes "index_of I S" "S v0 = None"
  shows "index_of (I(index_key (Type e) v0 \<mapsto> v0)) (S(v0 \<mapsto> e))"
  unfolding index_of_def using assms by (auto simp: index_of_Some)

lemma index_of_remove:
  assumes "index_of I S" "S v0 = Some e"
  shows "index_of (I(index_key (Type e) v0 := None)) (S(v0 := None))"
  unfolding index_of_def using assms by (auto simp: index_of_Some)

lemma index_of_replace:
  assumes "index_of I S" "S v0 = Some old" "Type e = Type old"
  shows "index_of I (S(v0 \<mapsto> e))"
  unfolding index_of_def using assms by (auto simp: index_of_Some)

lemma index_of_retype:
  assumes "index_of I S" "S v0 = Some old"
  shows "index_of (I(index_key (Type old) v0 := None, index_key (Type e) v0 \<mapsto> v0)) (S(v0 \<mapsto> e))"
  using index_of_insert [OF index_of_remove [OF assms], of v0 e] by simp

text \<open>
  Every entry decodes and is filed under its own identifier, and the index matches.
\<close>

definition store_inv :: "'b bolt \<Rightarrow> 'b store \<Rightarrow> bool" where
  "store_inv B st \<longleftrightarrow>
     (\<forall>k d. b_get B (bucketEntries st) k = Some d \<longrightarrow>
        key_ok k \<and> (\<exists>e. unmarshal_envelope d = Inr e \<and> ID e = k)) \<and>
     index_of (b_get B (bucketIndexType st)) (stored B st)"

definition fresh_uuid :: "'b bolt \<Rightarrow> 'b store \<Rightarrow> world \<Rightarrow> bool" where
  "fresh_uuid B st w \<longleftrightarrow>
     (case uuid_new w of (Some u, _) \<Rightarrow> key_ok u \<and> stored B st u = None | _ \<Rightarrow> True)"

lemma store_inv_entry:
  assumes "store_inv B st" "b_get B (bucketEntries st) k = Some d"
  obtains e where "unmarshal_envelope d = Inr e" "ID e = k" "key_ok k" "stored B st k = Some e"
  using assms by (auto simp: store_inv_def stored_def)

lemma store_inv_stored: "store_inv B st \<Longrightarrow> stored B st k = Some e \<Longrightarrow> ID e = k \<and> key_ok k"
  by (cases "b_get B (bucketEntries st) k") (auto simp: stored_def elim: store_inv_entry)

lemma store_inv_get_None:
  "store_inv B st \<Longrightarrow> b_get B (bucketEntries st) k = None \<longleftrightarrow> stored B st k = None"
  by (cases "b_get B (bucketEntries st) k") (auto simp: stored_def elim: store_inv_entry)

lemma store_inv_index:
  "store_inv B st \<Longrightarrow> index_of (b_get B (bucketIndexType st)) (stored B st)"
  by (simp add: store_inv_def)

lemma stored_auth [simp]: "stored B (st\<lparr>bucketAuth := b\<rparr>) = stored B st"
  by (simp add: stored_def fun_eq_iff)

lemma store_inv_auth [simp]: "store_inv B (st\<lparr>bucketAuth := b\<rparr>) \<longleftrightarrow> store_inv B st"
  by (simp add: store_inv_def stored_def)

lemma utf8_clean_key [simp]: "key_ok k \<Longrightarrow> utf8_clean k = k"
  by (simp add: key_ok_def)

text \<open>A transaction that fails leaves the store alone.\<close>

lemma db_update_cases [consumes 1, case_names failed committed]:
  assumes "db_update B body st w = (r, x, st', w')"
  obtains (failed) e where "r = Some e" "st' = st"
  | (committed) "r = None" "body st w = (Inr st', x, w')"
proof -
  obtain q y w1 where b: "body st w = (q, y, w1)" by (rule prod_cases3)
  show thesis
  proof (cases q)
    case (Inl e)
    with assms b show thesis by (intro failed [of e]) (auto simp: db_update_def)
  next
    case (Inr st1)
    show thesis
    proof (cases "b_commit B w1 st1")
      case None
      with assms b Inr show thesis by (intro committed) (auto simp: db_update_def)
    next
      case (Some e)
      with assms b Inr show thesis by (intro failed [of e]) (auto simp: db_update_def)
    qed
  qed
qed

lemma db_update_rollback: "db_update B body st w = (Some e, x, st', w') \<Longrightarrow> st' = st"
  by (auto elim!: db_update_cases)

subsection \<open>The operations refine a finite map\<close>

context bbolt begin

lemma create_tx_stored:
  assumes inv: "store_inv B st" and key: "key_ok (ID env)" "stored B st (ID env) = None"
    and data: "marshal_envelope env = Inr data" "int64_type env"
    and run: "create_tx B env data st = Inr st'"
  shows "stored B st' = (stored B st)(ID env \<mapsto> json_envelope env)"
    and "bucketAuth st' = bucketAuth st" and "store_inv B st'"
proof -
  from run obtain be bt where be: "b_put B (bucketEntries st) (ID env) data = Inr be"
    and bt: "b_put B (bucketIndexType st) (typeIndexKey env) (ID env) = Inr bt"
    and st': "st' = st\<lparr>bucketEntries := be, bucketIndexType := bt\<rparr>"
    by (auto simp: create_tx_def bind_err_Inr)
  note dec = unmarshal_marshal_envelope [OF data]
  show view: "stored B st' = (stored B st)(ID env \<mapsto> json_envelope env)"
    by (auto simp: stored_def st' put_get [OF be] dec fun_eq_iff)
  show "bucketAuth st' = bucketAuth st" by (simp add: st')
  have entries: "key_ok k \<and> (\<exists>e. unmarshal_envelope d = Inr e \<and> ID e = k)"
    if "b_get B (bucketEntries st') k = Some d" for k d
    using that key dec
    by (auto simp: st' put_get [OF be] split: if_splits elim: store_inv_entry [OF inv])
  have "index_of (b_get B (bucketIndexType st')) (stored B st')"
    using index_of_insert [OF store_inv_index [OF inv] key(2), of "json_envelope env"]
    by (simp add: view) (simp add: st' put_fun [OF bt] typeIndexKey_index_key)
  then show "store_inv B st'" unfolding store_inv_def using entries by blast
qed

text \<open>The index after an entry has changed its type.\<close>

lemma reindex_index:
  assumes "reindex B old env idx = Inr idx'" "ID old = ID env"
    and "index_of (b_get B idx) S" "S (ID env) = Some old" "Type e = Type env"
  shows "index_of (b_get B idx') (S(ID env \<mapsto> e))"
proof (cases "Type old = Type env")
  case True
  with assms show ?thesis by (simp add: reindex_def index_of_replace)
next
  case False
  with assms(1) obtain i1 where "b_delete B idx (typeIndexKey old) = Inr i1"
    "b_put B i1 (typeIndexKey env) (ID env) = Inr idx'"
    by (auto simp: reindex_def bind_err_Inr)
  with index_of_retype [OF assms(3,4), of e] assms(2,5) show ?thesis
    by (simp add: put_fun del_fun typeIndexKey_index_key)
qed

lemma update_tx_cases [consumes 2, case_names missing failed rewritten]:
  assumes "update_tx B env st w = (r, env', w')" "store_inv B st"
  obtains
    (missing) "r = Inl ErrNotFound" "stored B st (ID env) = None"
  | (failed) e where "r = Inl e" "stored B st (ID env) \<noteq> None"
  | (rewritten) old now data be bt where "stored B st (ID env) = Some old"
      "env' = env\<lparr>CreatedAt := CreatedAt old, UpdatedAt := now\<rparr>" "now = w_clock w'"
      "marshal_envelope env' = Inr data" "b_put B (bucketEntries st) (ID env) data = Inr be"
      "reindex B old env (bucketIndexType st) = Inr bt"
      "r = Inr (st\<lparr>bucketEntries := be, bucketIndexType := bt\<rparr>)"
proof (cases "b_get B (bucketEntries st) (ID env)")
  case None
  with assms(1) show thesis by (intro missing) (auto simp: update_tx_def stored_def)
next
  case (Some d)
  with assms(2) obtain old where old: "unmarshal_envelope d = Inr old" "stored B st (ID env) = Some old"
    by (rule store_inv_entry)
  obtain now w1 where now: "time_now w = (now, w1)" by force
  note run = assms(1) [unfolded update_tx_def Some option.case old sum.case now prod.case Let_def]
  show thesis
  proof (cases r)
    case (Inl e)
    with old show thesis by (intro failed) auto
  next
    case (Inr st')
    with run obtain bt where bt: "reindex B old env (bucketIndexType st) = Inr bt"
      by (cases "reindex B old env (bucketIndexType st)") auto
    let ?e = "env\<lparr>CreatedAt := CreatedAt old, UpdatedAt := now\<rparr>"
    from run Inr bt obtain data where data: "marshal_envelope ?e = Inr data"
      by (cases "marshal_envelope ?e") auto
    from run [unfolded bt sum.case data]
    have eqs: "bind_err (wrap_left ''put entries'' (b_put B (bucketEntries st) (ID env) data))
        (\<lambda>be. Inr (st\<lparr>bucketEntries := be, bucketIndexType := bt\<rparr>)) = r" "env' = ?e" "w' = w1"
      by simp_all
    then obtain be where be: "b_put B (bucketEntries st) (ID env) data = Inr be"
      "r = Inr (st\<lparr>bucketEntries := be, bucketIndexType := bt\<rparr>)"
      using Inr by (simp add: bind_err_Inr) blast
    show thesis
      using old(2) eqs(2) _ _ be(1) bt be(2)
      by (rule rewritten) (use data eqs time_now_mono [OF now] in simp_all)
  qed
qed

lemma update_tx_stored:
  assumes inv: "store_inv B st" and typ_ok: "int64_type env"
    and run: "update_tx B env st w = (Inr st', env', w')"
  shows "\<exists>old. stored B st (ID env) = Some old \<and>
      env' = env\<lparr>CreatedAt := CreatedAt old, UpdatedAt := w_clock w'\<rparr> \<and>
      stored B st' = (stored B st)(ID env \<mapsto> json_envelope env')"
    and "bucketAuth st' = bucketAuth st" and "store_inv B st'"
proof -
  from run inv obtain old data be bt where old: "stored B st (ID env) = Some old"
    and env': "env' = env\<lparr>CreatedAt := CreatedAt old, UpdatedAt := w_clock w'\<rparr>"
    and data: "marshal_envelope env' = Inr data" and be: "b_put B (bucketEntries st) (ID env) data = Inr be"
    and bt: "reindex B old env (bucketIndexType st) = Inr bt"
    and st': "st' = st\<lparr>bucketEntries := be, bucketIndexType := bt\<rparr>"
    by (cases rule: update_tx_cases) auto
  have typ': "int64_type env'" using typ_ok by (simp add: env' int64_type_def)
  note dec = unmarshal_marshal_envelope [OF data typ']
  have id: "ID old = ID env" "key_ok (ID env)" and id': "ID env' = ID env" "Type env' = Type env"
    using store_inv_stored [OF inv old] by (simp_all add: env')
  have view: "stored B st' = (stored B st)(ID env \<mapsto> json_envelope env')"
    by (auto simp: stored_def st' put_get [OF be] dec fun_eq_iff)
  with old env' show "\<exists>old. stored B st (ID env) = Some old \<and>
      env' = env\<lparr>CreatedAt := CreatedAt old, UpdatedAt := w_clock w'\<rparr> \<and>
      stored B st' = (stored B st)(ID env \<mapsto> json_envelope env')" by blast
  show "bucketAuth st' = bucketAuth st" by (simp add: st')
  have entries: "key_ok k \<and> (\<exists>e. unmarshal_envelope d = Inr e \<and> ID e = k)"
    if "b_get B (bucketEntries st') k = Some d" for k d
    using that id id' dec
    by (auto simp: st' put_get [OF be] split: if_splits elim: store_inv_entry [OF inv])
  have "index_of (b_get B (bucketIndexType st')) (stored B st')"
    using reindex_index [OF bt id(1) store_inv_index [OF inv] old, of "json_envelope env'"] id'
    by (simp add: view) (simp add: st')
  then show "store_inv B st'" unfolding store_inv_def using entries by blast
qed

lemma delete_tx_stored:
  assumes inv: "store_inv B st" and run: "delete_tx B eid st = Inr st'"
  shows "\<exists>old. stored B st eid = Some old"
    and "stored B st' = (stored B st)(eid := None)"
    and "bucketAuth st' = bucketAuth st" and "store_inv B st'"
proof -
  from run obtain d where d: "b_get B (bucketEntries st) eid = Some d"
    by (auto simp: delete_tx_def split: option.splits)
  with inv obtain e where e: "unmarshal_envelope d = Inr e" "ID e = eid" "stored B st eid = Some e"
    by (rule store_inv_entry)
  with run d obtain be bt where be: "b_delete B (bucketEntries st) eid = Inr be"
    and bt: "b_delete B (bucketIndexType st) (typeIndexKey e) = Inr bt"
    and st': "st' = st\<lparr>bucketEntries := be, bucketIndexType := bt\<rparr>"
    by (auto simp: delete_tx_def bind_err_Inr)
  show "\<exists>old. stored B st eid = Some old" using e by blast
  show view: "stored B st' = (stored B st)(eid := None)"
    by (simp add: stored_def st' del_fun [OF be] fun_eq_iff)
  show "bucketAuth st' = bucketAuth st" by (simp add: st')
  have entries: "key_ok k \<and> (\<exists>e. unmarshal_envelope d = Inr e \<and> ID e = k)"
    if "b_get B (bucketEntries st') k = Some d" for k d
    using that by (auto simp: st' del_fun [OF be] split: if_splits elim: store_inv_entry [OF inv])
  have "index_of (b_get B (bucketIndexType st')) (stored B st')"
    using index_of_remove [OF store_inv_index [OF inv] e(3)] e(2)
    by (simp add: view) (simp add: st' del_fun [OF bt] typeIndexKey_index_key)
  then show "store_inv B st'" unfolding store_inv_def using entries by blast
qed

lemma GetByID_stored:
  "store_inv B st \<Longrightarrow>
   GetByID B k st = (case stored B st k of None \<Rightarrow> Inl ErrNotFound | Some e \<Rightarrow> Inr e)"
  by (cases "b_get B (bucketEntries st) k")
    (auto simp: GetByID_def stored_def elim: store_inv_entry)

text \<open>The entries in the order of their identifiers.\<close>

definition store_ids :: "'b store \<Rightarrow> string list" where
  "store_ids st = map fst (b_pairs B (bucketEntries st))"

lemma store_ids_sorted: "sorted_wrt (<) (store_ids st)"
  by (simp add: store_ids_def pairs_sorted)

lemma store_ids_set:
  assumes "store_inv B st"
  shows "set (store_ids st) = dom (stored B st)"
proof -
  have "k \<in> set (store_ids st) \<longleftrightarrow> b_get B (bucketEntries st) k \<noteq> None" for k
    by (simp add: store_ids_def map_of_eq_None_iff flip: pairs_get)
  with store_inv_get_None [OF assms] show ?thesis by auto
qed

lemma list_all_loop_map:
  "(\<And>k v. (k, v) \<in> set ps \<Longrightarrow> unmarshal_envelope v = Inr (f k)) \<Longrightarrow>
   list_all_loop ps = Inr (map f (map fst ps))"
proof (induction ps)
  case (Cons p ps)
  obtain k v where p: "p = (k, v)" by force
  from Cons have "list_all_loop ps = Inr (map f (map fst ps))" by simp
  moreover have "unmarshal_envelope v = Inr (f k)" using Cons.prems by (simp add: p)
  ultimately show ?case by (simp add: p bind_err_def)
qed simp

lemma StoreList_all:
  assumes "store_inv B st"
  shows "StoreList B EntryTypeUnspecified st = Inr (map (\<lambda>k. the (stored B st k)) (store_ids st))"
proof -
  have "list_all_loop (b_pairs B (bucketEntries st))
      = Inr (map (\<lambda>k. the (stored B st k)) (map fst (b_pairs B (bucketEntries st))))"
    by (rule list_all_loop_map)
      (auto simp: pairs_mem elim: store_inv_entry [OF assms])
  then show ?thesis by (simp add: StoreList_def wrap_left_def store_ids_def)
qed

lemma list_type_loop_map:
  "(\<And>k v. (k, v) \<in> set (takeWhile (\<lambda>(k, v). has_prefix k pre) ps) \<Longrightarrow>
      \<exists>d. b_get B be v = Some d \<and> unmarshal_envelope d = Inr (f v)) \<Longrightarrow>
   list_type_loop B be pre ps
     = Inr (map f (map snd (takeWhile (\<lambda>(k, v). has_prefix k pre) ps)))"
proof (induction ps)
  case (Cons p ps)
  obtain k v where p: "p = (k, v)" by force
  show ?case
  proof (cases "has_prefix k pre")
    case True
    with Cons.prems [of k v] obtain d where "b_get B be v = Some d" "unmarshal_envelope d = Inr (f v)"
      by (auto simp: p)
    moreover have "list_type_loop B be pre ps
        = Inr (map f (map snd (takeWhile (\<lambda>(k, v). has_prefix k pre) ps)))"
      using True Cons.prems by (intro Cons.IH) (auto simp: p)
    ultimately show ?thesis using True by (simp add: p bind_err_def)
  qed (simp add: p)
qed simp

text \<open>The scan of the index finds exactly the entries of the type, in the same order.\<close>

definition ids_of_type :: "entry_type \<Rightarrow> 'b store \<Rightarrow> string list" where
  "ids_of_type t st = filter (\<lambda>k. Type (the (stored B st k)) = t) (store_ids st)"

lemma index_scan:
  fixes t :: entry_type
  assumes inv: "store_inv B st"
  defines "pre \<equiv> dec_int t @ '':''"
  defines "scan \<equiv> takeWhile (\<lambda>(k, v). has_prefix k pre) (cursor_from B pre (bucketIndexType st))"
  shows "(k, v) \<in> set scan \<longleftrightarrow> k = index_key t v \<and> (\<exists>e. stored B st v = Some e \<and> Type e = t)"
    and "map snd scan = ids_of_type t st"
proof -
  let ?idx = "b_pairs B (bucketIndexType st)"
  have scan: "scan = filter (\<lambda>(k, v). has_prefix k pre) ?idx"
    unfolding scan_def cursor_from_def by (rule cursor_prefix_filter) (rule pairs_sorted)
  have key: "index_key t' v = index_key t v" if "has_prefix (index_key t' v) pre" for t' v
  proof -
    from that obtain r where "index_key t' v = index_key t r"
      by (auto simp: has_prefix_iff pre_def index_key_def)
    then show ?thesis by simp
  qed
  have pre: "has_prefix (index_key t v) pre" for v
    by (simp add: has_prefix_iff pre_def index_key_def)
  show mem: "(k, v) \<in> set scan \<longleftrightarrow> k = index_key t v \<and> (\<exists>e. stored B st v = Some e \<and> Type e = t)"
    for k v
    using key pre by (auto simp: scan pairs_mem index_of_Some [OF store_inv_index [OF inv]])
  have keys: "map fst scan = map (index_key t) (map snd scan)"
    using mem by (auto simp: case_prod_beta intro!: map_cong)
  have "sorted_wrt (<) (map fst scan)"
    unfolding scan using pairs_sorted [of "bucketIndexType st"]
    by (simp add: sorted_wrt_map sorted_wrt_filter)
  then have "sorted_wrt (<) (map snd scan)"
    unfolding keys by (simp add: sorted_wrt_map index_key_def append_less_append)
  moreover have "sorted_wrt (<) (ids_of_type t st)"
    by (simp add: ids_of_type_def sorted_wrt_filter store_ids_sorted)
  moreover have "set (map snd scan) = set (ids_of_type t st)"
  proof -
    have "v \<in> set (map snd scan) \<longleftrightarrow> (\<exists>e. stored B st v = Some e \<and> Type e = t)" for v
    proof -
      have "v \<in> set (map snd scan) \<longleftrightarrow> (\<exists>k. (k, v) \<in> set scan)" by force
      then show ?thesis by (simp add: mem)
    qed
    moreover have "v \<in> set (ids_of_type t st) \<longleftrightarrow> (\<exists>e. stored B st v = Some e \<and> Type e = t)" for v
      unfolding ids_of_type_def set_filter store_ids_set [OF inv] by (auto simp: dom_def)
    ultimately show ?thesis by blast
  qed
  ultimately show "map snd scan = ids_of_type t st"
    by (simp add: strict_sorted_equal)
qed

lemma StoreList_type:
  assumes inv: "store_inv B st" and t: "t \<noteq> EntryTypeUnspecified"
  shows "StoreList B t st = Inr (map (\<lambda>k. the (stored B st k)) (ids_of_type t st))"
proof -
  let ?pre = "dec_int t @ '':''"
  have "list_type_loop B (bucketEntries st) ?pre (cursor_from B ?pre (bucketIndexType st))
     = Inr (map (\<lambda>k. the (stored B st k)) (map snd (takeWhile (\<lambda>(k, v). has_prefix k ?pre)
              (cursor_from B ?pre (bucketIndexType st)))))"
  proof (rule list_type_loop_map)
    fix k v
    assume "(k, v) \<in> set (takeWhile (\<lambda>(k, v). has_prefix k ?pre)
              (cursor_from B ?pre (bucketIndexType st)))"
    with index_scan(1) [OF inv] obtain e where e: "stored B st v = Some e" by blast
    then obtain d where d: "b_get B (bucketEntries st) v = Some d"
      by (cases "b_get B (bucketEntries st) v") (auto simp: stored_def)
    from inv d obtain e' where "unmarshal_envelope d = Inr e'" "stored B st v = Some e'"
      by (rule store_inv_entry)
    with d show "\<exists>d. b_get B (bucketEntries st) v = Some d \<and>
        unmarshal_envelope d = Inr (the (stored B st v))" by simp
  qed
  with t show ?thesis
    by (simp add: StoreList_def wrap_left_def index_scan(2) [OF inv])
qed

lemma StoreList_filter:
  assumes inv: "store_inv B st" and t: "t \<noteq> EntryTypeUnspecified"
    and all: "StoreList B EntryTypeUnspecified st = Inr envs"
  shows "StoreList B t st = Inr (filter (\<lambda>e. Type e = t) envs)"
  using all unfolding StoreList_all [OF inv] StoreList_type [OF inv t]
  by (auto simp: ids_of_type_def filter_map comp_def)

subsection \<open>The operations as a whole\<close>

lemma Create_stored:
  assumes inv: "store_inv B st" and fresh: "fresh_uuid B st w" and typ_ok: "int64_type env"
    and run: "Create B env st w = (None, env', st', w')"
  shows "store_inv B st'" "bucketAuth st' = bucketAuth st" "stored B st (ID env') = None"
    "stored B st' = (stored B st)(ID env' \<mapsto> json_envelope env')"
    "env' = env\<lparr>ID := ID env', CreatedAt := w_clock w', UpdatedAt := w_clock w'\<rparr>" "key_ok (ID env')"
proof -
  obtain u w1 where u: "uuid_new w = (Some u, w1)"
    using run by (cases "uuid_new w") (auto simp: Create_def split: option.splits)
  obtain now w2 where now: "time_now w1 = (now, w2)" by force
  let ?e = "env\<lparr>ID := u, CreatedAt := now, UpdatedAt := now\<rparr>"
  note run' = run [unfolded Create_def u prod.case option.case now Let_def]
  then obtain data where data: "marshal_envelope ?e = Inr data"
    by (cases "marshal_envelope ?e") auto
  obtain r y st1 w3 where up: "db_update B (\<lambda>st w. (create_tx B ?e data st, (), w)) st w2 = (r, y, st1, w3)"
    by (rule prod_cases4)
  have eqs: "r = None" "env' = ?e" "st1 = st'" "w3 = w'"
    using run' data up by (auto split: option.splits)
  from up have tx: "create_tx B ?e data st = Inr st'" and w3: "w3 = w2"
    unfolding eqs by (cases rule: db_update_cases; simp)+
  have key: "key_ok u" "stored B st u = None" using fresh u by (simp_all add: fresh_uuid_def)
  note facts = create_tx_stored [OF inv _ _ data _ tx]
  show "store_inv B st'" "bucketAuth st' = bucketAuth st" "stored B st (ID env') = None"
    "stored B st' = (stored B st)(ID env' \<mapsto> json_envelope env')" "key_ok (ID env')"
    using facts key typ_ok by (simp_all add: eqs int64_type_def)
  show "env' = env\<lparr>ID := ID env', CreatedAt := w_clock w', UpdatedAt := w_clock w'\<rparr>"
    using time_now_mono [OF now] w3 by (simp add: eqs)
qed

lemma Create_failed: "Create B env st w = (Some e, env', st', w') \<Longrightarrow> st' = st"
  by (auto simp: Create_def Let_def dest: db_update_rollback
      split: prod.splits option.splits sum.splits)

lemma Update_stored:
  assumes inv: "store_inv B st" and typ_ok: "int64_type env"
    and run: "Update B env st w = (None, env', st', w')"
  shows "\<exists>old. stored B st (ID env) = Some old \<and>
      env' = env\<lparr>CreatedAt := CreatedAt old, UpdatedAt := w_clock w'\<rparr>"
    "stored B st' = (stored B st)(ID env \<mapsto> json_envelope env')"
    "bucketAuth st' = bucketAuth st" "store_inv B st'"
proof -
  obtain r y st1 w1 where up: "db_update B (update_tx B env) st w = (r, y, st1, w1)"
    by (rule prod_cases4)
  with run have eqs: "r = None" "y = env'" "st1 = st'" "w1 = w'"
    by (auto simp: Update_def split: option.splits)
  from up have "update_tx B env st w = (Inr st', env', w')"
    unfolding eqs by (cases rule: db_update_cases) simp_all
  from update_tx_stored [OF inv typ_ok this]
  show "\<exists>old. stored B st (ID env) = Some old \<and>
      env' = env\<lparr>CreatedAt := CreatedAt old, UpdatedAt := w_clock w'\<rparr>"
    "stored B st' = (stored B st)(ID env \<mapsto> json_envelope env')"
    "bucketAuth st' = bucketAuth st" "store_inv B st'" by blast+
qed

lemma Update_failed: "Update B env st w = (Some e, env', st', w') \<Longrightarrow> st' = st"
  by (auto simp: Update_def dest: db_update_rollback split: prod.splits option.splits)

lemma Update_missing:
  assumes "store_inv B st" "stored B st (ID env) = None"
  shows "Update B env st w = (Some ErrNotFound, env, st, w)"
proof -
  have "b_get B (bucketEntries st) (ID env) = None" using assms by (simp add: store_inv_get_None)
  then show ?thesis by (simp add: Update_def db_update_def update_tx_def)
qed

lemma DeleteByID_stored:
  assumes inv: "store_inv B st" and run: "DeleteByID B eid st w = (None, st', w')"
  shows "\<exists>old. stored B st eid = Some old" "stored B st' = (stored B st)(eid := None)"
    "bucketAuth st' = bucketAuth st" "store_inv B st'"
proof -
  obtain r y st1 w1 where up: "db_update B (\<lambda>st w. (delete_tx B eid st, (), w)) st w = (r, y, st1, w1)"
    by (rule prod_cases4)
  with run have eqs: "r = None" "st1 = st'"
    by (auto simp: DeleteByID_def split: option.splits)
  from up have tx: "delete_tx B eid st = Inr st'"
    unfolding eqs by (cases rule: db_update_cases) simp_all
  from delete_tx_stored [OF inv tx]
  show "\<exists>old. stored B st eid = Some old" "stored B st' = (stored B st)(eid := None)"
    "bucketAuth st' = bucketAuth st" "store_inv B st'" by blast+
qed

lemma DeleteByID_failed: "DeleteByID B eid st w = (Some e, st', w') \<Longrightarrow> st' = st"
  by (auto simp: DeleteByID_def dest: db_update_rollback split: prod.splits option.splits)

lemma DeleteByID_missing:
  assumes "store_inv B st" "stored B st eid = None"
  shows "DeleteByID B eid st w = (Some ErrNotFound, st, w)"
proof -
  have "b_get B (bucketEntries st) eid = None" using assms by (simp add: store_inv_get_None)
  then show ?thesis by (simp add: DeleteByID_def db_update_def delete_tx_def)
qed

text \<open>The bucket of the authentication data.\<close>

lemma StorePINHash_get:
  assumes "StorePINHash B h salt st w = (None, st', w')"
  shows "GetPINHash B st' = Inr (h, salt)" "stored B st' = stored B st"
    "store_inv B st' = store_inv B st" "GetAuthKey B st' = GetAuthKey B st"
proof -
  obtain r y st1 w1 where up: "db_update B (\<lambda>st w.
      (bind_err (b_put B (bucketAuth st) keyPINHash h) (\<lambda>b.
         bind_err (b_put B b keyPINSalt salt) (\<lambda>b. Inr (st\<lparr>bucketAuth := b\<rparr>))), (), w)) st w
      = (r, y, st1, w1)"
    by (rule prod_cases4)
  with assms have eqs: "r = None" "st1 = st'" by (simp_all add: StorePINHash_def)
  from up obtain b1 b2 where "b_put B (bucketAuth st) keyPINHash h = Inr b1"
    "b_put B b1 keyPINSalt salt = Inr b2" "st' = st\<lparr>bucketAuth := b2\<rparr>"
    unfolding eqs by (cases rule: db_update_cases) (auto simp: bind_err_Inr)
  then show "GetPINHash B st' = Inr (h, salt)" "stored B st' = stored B st"
    "store_inv B st' = store_inv B st" "GetAuthKey B st' = GetAuthKey B st"
    by (simp_all add: GetPINHash_def GetAuthKey_def put_fun keyPINHash_def keyPINSalt_def keyGPGPublicKey_def)
qed

lemma DeletePINHash_get:
  assumes "DeletePINHash B st w = (None, st', w')"
  shows "GetPINHash B st' = Inl ErrNotFound" "stored B st' = stored B st"
    "store_inv B st' = store_inv B st"
proof -
  obtain r y st1 w1 where up: "db_update B (\<lambda>st w.
      (bind_err (b_delete B (bucketAuth st) keyPINHash) (\<lambda>b.
         bind_err (b_delete B b keyPINSalt) (\<lambda>b. Inr (st\<lparr>bucketAuth := b\<rparr>))), (), w)) st w
      = (r, y, st1, w1)"
    by (rule prod_cases4)
  with assms have eqs: "r = None" "st1 = st'" by (simp_all add: DeletePINHash_def)
  from up obtain b1 b2 where "b_delete B (bucketAuth st) keyPINHash = Inr b1"
    "b_delete B b1 keyPINSalt = Inr b2" "st' = st\<lparr>bucketAuth := b2\<rparr>"
    unfolding eqs by (cases rule: db_update_cases) (auto simp: bind_err_Inr)
  then show "GetPINHash B st' = Inl ErrNotFound" "stored B st' = stored B st"
    "store_inv B st' = store_inv B st"
    by (simp_all add: GetPINHash_def del_fun keyPINHash_def keyPINSalt_def)
qed

lemma StoreAuthKey_get:
  assumes "StoreAuthKey B pk st w = (None, st', w')"
  shows "GetAuthKey B st' = Inr pk" "stored B st' = stored B st" "GetPINHash B st' = GetPINHash B st"
proof -
  obtain r y st1 w1 where up: "db_update B (\<lambda>st w.
      (bind_err (b_put B (bucketAuth st) keyGPGPublicKey pk) (\<lambda>b. Inr (st\<lparr>bucketAuth := b\<rparr>)), (), w)) st w
      = (r, y, st1, w1)"
    by (rule prod_cases4)
  with assms have eqs: "r = None" "st1 = st'" by (auto simp: StoreAuthKey_def split: option.splits)
  from up obtain b1 where "b_put B (bucketAuth st) keyGPGPublicKey pk = Inr b1"
    "st' = st\<lparr>bucketAuth := b1\<rparr>"
    unfolding eqs by (cases rule: db_update_cases) (auto simp: bind_err_Inr)
  then show "GetAuthKey B st' = Inr pk" "stored B st' = stored B st" "GetPINHash B st' = GetPINHash B st"
    by (simp_all add: GetPINHash_def GetAuthKey_def put_fun keyPINHash_def keyPINSalt_def keyGPGPublicKey_def)
qed

lemma StorePINHash_failed: "StorePINHash B h salt st w = (Some e, st', w') \<Longrightarrow> st' = st"
  by (auto simp: StorePINHash_def dest: db_update_rollback split: prod.splits)

lemma NewBboltStore_inv: "NewBboltStore B oe be None = Inr st \<Longrightarrow>
   store_inv B st \<and> stored B st = Map.empty \<and> GetPINHash B st = Inl ErrNotFound"
  by (auto simp: NewBboltStore_def store_inv_def stored_def GetPINHash_def get_empty index_of_def
      split: option.splits)

end

subsection \<open>The contract of the port\<close>

text \<open>
  \<^verbatim>\<open>port.StoragePort\<close> as its clients see it: a finite map from identifiers to
  envelopes, in the form in which they come back from storage.
\<close>

locale storage_port =
  fixes inv :: "'s \<Rightarrow> bool"
    and fresh :: "'s \<Rightarrow> world \<Rightarrow> bool"
    and view :: "'s \<Rightarrow> string \<Rightarrow> envelope option"
    and create update :: "envelope \<Rightarrow> 's \<Rightarrow> world \<Rightarrow> go_error option \<times> envelope \<times> 's \<times> world"
    and get :: "string \<Rightarrow> 's \<Rightarrow> go_error + envelope"
    and list_of :: "entry_type \<Rightarrow> 's \<Rightarrow> go_error + envelope list"
    and delete :: "string \<Rightarrow> 's \<Rightarrow> world \<Rightarrow> go_error option \<times> 's \<times> world"
  assumes create_law: "inv s \<Longrightarrow> fresh s w \<Longrightarrow> int64_type e \<Longrightarrow> create e s w = (None, e', s', w') \<Longrightarrow>
      inv s' \<and> view s (ID e') = None \<and> view s' = (view s)(ID e' \<mapsto> json_envelope e') \<and>
      e' = e\<lparr>ID := ID e', CreatedAt := w_clock w', UpdatedAt := w_clock w'\<rparr>"
    and create_fail: "create e s w = (Some x, e', s', w') \<Longrightarrow> s' = s"
    and update_law: "inv s \<Longrightarrow> int64_type e \<Longrightarrow> update e s w = (None, e', s', w') \<Longrightarrow>
      inv s' \<and> view s' = (view s)(ID e \<mapsto> json_envelope e') \<and>
      (\<exists>old. view s (ID e) = Some old \<and> e' = e\<lparr>CreatedAt := CreatedAt old, UpdatedAt := w_clock w'\<rparr>)"
    and update_fail: "update e s w = (Some x, e', s', w') \<Longrightarrow> s' = s"
    and update_missing: "inv s \<Longrightarrow> view s (ID e) = None \<Longrightarrow> update e s w = (Some ErrNotFound, e, s, w)"
    and get_law: "inv s \<Longrightarrow> get k s = (case view s k of None \<Rightarrow> Inl ErrNotFound | Some e \<Rightarrow> Inr e)"
    and list_law: "inv s \<Longrightarrow> \<exists>es. list_of EntryTypeUnspecified s = Inr es \<and>
      sorted_wrt (<) (map ID es) \<and> (\<forall>e. e \<in> set es \<longleftrightarrow> view s (ID e) = Some e)"
    and list_filter: "inv s \<Longrightarrow> t \<noteq> EntryTypeUnspecified \<Longrightarrow> list_of EntryTypeUnspecified s = Inr es \<Longrightarrow>
      list_of t s = Inr (filter (\<lambda>e. Type e = t) es)"
    and delete_law: "inv s \<Longrightarrow> delete k s w = (None, s', w') \<Longrightarrow>
      inv s' \<and> view s k \<noteq> None \<and> view s' = (view s)(k := None)"
    and delete_fail: "delete k s w = (Some x, s', w') \<Longrightarrow> s' = s"
    and delete_missing: "inv s \<Longrightarrow> view s k = None \<Longrightarrow> delete k s w = (Some ErrNotFound, s, w)"
    and view_id: "inv s \<Longrightarrow> view s k = Some e \<Longrightarrow> ID e = k"
begin

lemmas failures = create_fail update_fail delete_fail

lemma get_after_create:
  assumes "inv s" "fresh s w" "int64_type e" "create e s w = (None, e', s', w')"
  shows "get (ID e') s' = Inr (json_envelope e')" "k \<noteq> ID e' \<Longrightarrow> get k s' = get k s"
  using create_law [OF assms] assms(1) by (simp_all add: get_law)

lemma get_after_update:
  assumes "inv s" "int64_type e" "update e s w = (None, e', s', w')"
  shows "get (ID e) s' = Inr (json_envelope e')" "k \<noteq> ID e \<Longrightarrow> get k s' = get k s"
  using update_law [OF assms] assms(1) by (auto simp: get_law)

lemma get_after_delete:
  assumes "inv s" "delete k s w = (None, s', w')"
  shows "get k s' = Inl ErrNotFound" "k' \<noteq> k \<Longrightarrow> get k' s' = get k' s"
  using delete_law [OF assms] assms(1) by (simp_all add: get_law)

lemma list_members:
  assumes "inv s" "list_of t s = Inr es"
  shows "e \<in> set es \<longleftrightarrow> get (ID e) s = Inr e \<and> (t \<noteq> EntryTypeUnspecified \<longrightarrow> Type e = t)"
    and "sorted_wrt (<) (map ID es)"
proof -
  obtain all where all: "list_of EntryTypeUnspecified s = Inr all" "sorted_wrt (<) (map ID all)"
    "\<And>e. e \<in> set all \<longleftrightarrow> view s (ID e) = Some e"
    using list_law [OF assms(1)] by blast
  have es: "es = (if t = EntryTypeUnspecified then all else filter (\<lambda>e. Type e = t) all)"
    using all(1) list_filter [OF assms(1) _ all(1), of t] assms(2) by (auto split: if_splits)
  have "get (ID e) s = Inr e \<longleftrightarrow> view s (ID e) = Some e"
    using get_law [OF assms(1)] by (auto split: option.splits)
  with all(3) show "e \<in> set es \<longleftrightarrow> get (ID e) s = Inr e \<and> (t \<noteq> EntryTypeUnspecified \<longrightarrow> Type e = t)"
    by (auto simp: es)
  show "sorted_wrt (<) (map ID es)"
    using all(2) by (simp add: es sorted_wrt_map sorted_wrt_filter)
qed

end

context bbolt begin

lemma StoreList_enumerates:
  assumes inv: "store_inv B s"
  shows "\<exists>es. StoreList B EntryTypeUnspecified s = Inr es \<and> sorted_wrt (<) (map ID es) \<and>
      (\<forall>e. e \<in> set es \<longleftrightarrow> stored B s (ID e) = Some e)"
proof (intro exI conjI allI)
  show "StoreList B EntryTypeUnspecified s = Inr (map (\<lambda>k. the (stored B s k)) (store_ids s))"
    by (rule StoreList_all [OF inv])
  have ids: "ID (the (stored B s k)) = k" if "k \<in> set (store_ids s)" for k
    using that store_ids_set [OF inv] store_inv_stored [OF inv, of k] by auto
  then have "map ID (map (\<lambda>k. the (stored B s k)) (store_ids s)) = store_ids s"
    by (simp add: map_idI)
  then show "sorted_wrt (<) (map ID (map (\<lambda>k. the (stored B s k)) (store_ids s)))"
    by (simp only: store_ids_sorted)
  show "(e \<in> set (map (\<lambda>k. the (stored B s k)) (store_ids s))) = (stored B s (ID e) = Some e)" for e
  proof
    assume "e \<in> set (map (\<lambda>k. the (stored B s k)) (store_ids s))"
    then obtain k where k: "k \<in> set (store_ids s)" "e = the (stored B s k)" by auto
    with ids [OF k(1)] store_ids_set [OF inv] show "stored B s (ID e) = Some e" by auto
  next
    assume e: "stored B s (ID e) = Some e"
    then have "ID e \<in> set (store_ids s)" unfolding store_ids_set [OF inv] by (rule domI)
    with e show "e \<in> set (map (\<lambda>k. the (stored B s k)) (store_ids s))" by force
  qed
qed

end

sublocale bbolt \<subseteq> port: storage_port "store_inv B" "fresh_uuid B" "stored B" "Create B" "Update B"
    "GetByID B" "StoreList B" "DeleteByID B"
proof (unfold_locales, goal_cases)
  case 1 show ?case by (intro conjI Create_stored [OF 1])
next
  case 2 then show ?case by (rule Create_failed)
next
  case 3 show ?case by (intro conjI Update_stored [OF 3])
next
  case 4 then show ?case by (rule Update_failed)
next
  case 5 then show ?case by (rule Update_missing)
next
  case 6 then show ?case by (rule GetByID_stored)
next
  case 7 then show ?case by (rule StoreList_enumerates)
next
  case 8 then show ?case by (rule StoreList_filter)
next
  case 9 show ?case using DeleteByID_stored [OF 9] by simp
next
  case 10 then show ?case by (rule DeleteByID_failed)
next
  case 11 then show ?case by (rule DeleteByID_missing)
next
  case 12 then show ?case by (simp add: store_inv_stored)
qed

context bbolt begin

lemmas port_create_law = port.create_law
lemmas port_update_law = port.update_law
lemmas port_get_law = port.get_law
lemmas port_delete_law = port.delete_law
lemmas port_update_missing = port.update_missing
lemmas port_delete_missing = port.delete_missing
lemmas port_failures = port.failures
lemmas get_after_create = port.get_after_create
lemmas get_after_update = port.get_after_update
lemmas get_after_delete = port.get_after_delete
lemmas list_members = port.list_members
lemmas port_list_law = port.list_law

end

subsection \<open>A database\<close>

text \<open>
  A red-black tree satisfies the laws, with bbolt's checks of the sizes of keys and values
  and commits that succeed.
\<close>

definition rbt_put :: "(bytes, bytes) rbt \<Rightarrow> bytes \<Rightarrow> bytes \<Rightarrow> go_error + (bytes, bytes) rbt" where
  "rbt_put b k v =
     (if k = [] then Inl (Errorf ''key required'')
      else if 32768 < length k then Inl (Errorf ''key too large'')
      else if 2147483646 < length v then Inl (Errorf ''value too large'')
      else Inr (RBT.insert k v b))"

definition rbt_bolt :: "(bytes, bytes) rbt bolt" where
  "rbt_bolt = \<lparr>b_empty = RBT.empty, b_get = RBT.lookup, b_put = rbt_put,
     b_delete = (\<lambda>b k. Inr (RBT.delete k b)), b_pairs = RBT.entries, b_commit = (\<lambda>w st. None)\<rparr>"

lemma rbt_bolt_simps [simp]:
  "b_empty rbt_bolt = RBT.empty" "b_get rbt_bolt = RBT.lookup" "b_put rbt_bolt = rbt_put"
  "b_delete rbt_bolt b k = Inr (RBT.delete k b)" "b_pairs rbt_bolt = RBT.entries"
  "b_commit rbt_bolt w st = None"
  by (simp_all add: rbt_bolt_def)

interpretation rb: bbolt rbt_bolt
  by unfold_locales
    (auto simp: rbt_put_def strict_sorted_iff RBT.sorted_entries RBT.distinct_entries RBT.map_of_entries
      split: if_splits)

subsection \<open>The life of a store\<close>

text \<open>
  Any sequence of operations on a new database, failing ones included. A new identifier is
  one not in use, which is what version 7 UUIDs are relied on for.
\<close>

datatype store_op =
    SCreate envelope | SUpdate envelope | SDelete string | SStorePIN bytes bytes | SDeletePIN
  | SStoreKey bytes

fun store_exec :: "'b bolt \<Rightarrow> store_op \<Rightarrow> 'b store \<Rightarrow> world \<Rightarrow> 'b store \<times> world" where
  "store_exec B (SCreate e) st w = (case Create B e st w of (_, _, st, w) \<Rightarrow> (st, w))"
| "store_exec B (SUpdate e) st w = (case Update B e st w of (_, _, st, w) \<Rightarrow> (st, w))"
| "store_exec B (SDelete k) st w = (case DeleteByID B k st w of (_, st, w) \<Rightarrow> (st, w))"
| "store_exec B (SStorePIN h salt) st w = (case StorePINHash B h salt st w of (_, st, w) \<Rightarrow> (st, w))"
| "store_exec B SDeletePIN st w = (case DeletePINHash B st w of (_, st, w) \<Rightarrow> (st, w))"
| "store_exec B (SStoreKey k) st w = (case StoreAuthKey B k st w of (_, st, w) \<Rightarrow> (st, w))"

fun store_op_ok :: "'b bolt \<Rightarrow> store_op \<Rightarrow> 'b store \<Rightarrow> world \<Rightarrow> bool" where
  "store_op_ok B (SCreate e) st w \<longleftrightarrow> int64_type e \<and> fresh_uuid B st w"
| "store_op_ok B (SUpdate e) st w \<longleftrightarrow> int64_type e"
| "store_op_ok B _ st w \<longleftrightarrow> True"

inductive store_step :: "'b bolt \<Rightarrow> 'b store \<times> world \<Rightarrow> 'b store \<times> world \<Rightarrow> bool" for B where
  store_call: "store_op_ok B oper st w1 \<Longrightarrow> store_exec B oper st w1 = (st', w') \<Longrightarrow>
    store_step B (st, w) (st', w')"

inductive_cases store_stepE: "store_step B (st, w) (st', w')"

definition store_start :: "'b bolt \<Rightarrow> 'b store \<times> world \<Rightarrow> bool" where
  "store_start B s \<longleftrightarrow> NewBboltStore B None (\<lambda>_. None) None = Inr (fst s)"

context bbolt begin

lemma auth_bucket_inv:
  "StorePINHash B h salt st w = (r, st', w') \<Longrightarrow> store_inv B st' = store_inv B st"
  "DeletePINHash B st w = (r, st', w') \<Longrightarrow> store_inv B st' = store_inv B st"
  "StoreAuthKey B pk st w = (r, st', w') \<Longrightarrow> store_inv B st' = store_inv B st"
  by (auto simp: StorePINHash_def DeletePINHash_def StoreAuthKey_def bind_err_def
      split: prod.splits option.splits elim!: db_update_cases split: sum.splits)

lemma store_exec_inv:
  assumes "store_inv B st" "store_op_ok B oper st w" "store_exec B oper st w = (st', w')"
  shows "store_inv B st'"
proof (cases oper)
  case (SCreate e)
  obtain r e' where "Create B e st w = (r, e', st', w')"
    using assms(3) by (auto simp: SCreate split: prod.splits)
  with assms show ?thesis
    using Create_stored(1) [of st w e e' st' w'] Create_failed [of e st w _ e' st' w']
    by (cases r) (auto simp: SCreate)
next
  case (SUpdate e)
  obtain r e' where "Update B e st w = (r, e', st', w')"
    using assms(3) by (auto simp: SUpdate split: prod.splits)
  with assms show ?thesis
    using Update_stored(4) [of st e w e' st' w'] Update_failed [of e st w _ e' st' w']
    by (cases r) (auto simp: SUpdate)
next
  case (SDelete k)
  obtain r where "DeleteByID B k st w = (r, st', w')"
    using assms(3) by (auto simp: SDelete split: prod.splits)
  with assms show ?thesis
    using DeleteByID_stored(4) [of st k w st' w'] DeleteByID_failed [of k st w _ st' w']
    by (cases r) auto
qed (use assms auth_bucket_inv in \<open>auto split: prod.splits\<close>)

end

sublocale bbolt \<subseteq> life: invariant_system "store_start B" "store_step B" "\<lambda>(st, w). store_inv B st"
proof unfold_locales
  show "case s of (st, w) \<Rightarrow> store_inv B st" if "store_start B s" for s
    using that NewBboltStore_inv by (cases s) (auto simp: store_start_def)
  show "case s' of (st, w) \<Rightarrow> store_inv B st"
    if "case s of (st, w) \<Rightarrow> store_inv B st" "store_step B s s'" for s s'
    using that by (cases s; cases s') (auto elim!: store_stepE intro: store_exec_inv)
qed

context bbolt begin

lemmas life_reach_inv = life.reach_inv

end

subsection \<open>Properties\<close>

definition demo_uuid :: "nat \<Rightarrow> string" where
  "demo_uuid n = ''01890000-0000-7000-8000-00000000000'' @ [digit_char n]"

definition demo_store_world :: world where
  "demo_store_world = \<lparr>w_clock = 1735689600 * second, w_ticks = [], w_rand = [],
     w_uuid = map (Some \<circ> demo_uuid) [1, 2, 3]\<rparr>"

definition demo_store :: "(bytes, bytes) rbt store" where
  "demo_store = \<lparr>bucketEntries = RBT.empty, bucketIndexType = RBT.empty, bucketAuth = RBT.empty\<rparr>"

definition demo_envelope :: "entry_type \<Rightarrow> envelope" where
  "demo_envelope t = zero_envelope\<lparr>Name := ''mail'', Type := t, Payload := ''secret''\<rparr>"

lemma demo_store_new: "NewBboltStore rbt_bolt None (\<lambda>_. None) None = Inr demo_store"
  by (simp add: NewBboltStore_def demo_store_def)

lemma demo_store_inv: "store_inv rbt_bolt demo_store"
  using rb.NewBboltStore_inv [OF demo_store_new] by blast

lemma demo_fresh: "fresh_uuid rbt_bolt demo_store demo_store_world"
proof -
  have "stored rbt_bolt demo_store k = None" for k
    using rb.NewBboltStore_inv [OF demo_store_new] by simp
  then show ?thesis
    by (simp add: fresh_uuid_def uuid_new_def demo_store_world_def demo_uuid_def key_ok_def
        ascii_def digit_char_def)
qed

lemma demo_envelope_type: "int64_type (demo_envelope 1)" "int64_type (demo_envelope 2)"
  by (simp_all add: int64_type_def demo_envelope_def zero_envelope_def)

text \<open>
  An entry that has been created is what a read by its new identifier gives back, with
  both times set to the time of the call and the strings in the form JSON keeps; it has a
  fresh identifier, and every other entry reads as before.
\<close>

theorem create_then_get:
  assumes "bbolt B" "store_inv B st" "fresh_uuid B st w" "int64_type e"
    and "Create B e st w = (None, e', st', w')"
  shows "GetByID B (ID e') st' = Inr (json_envelope e')
    \<and> GetByID B (ID e') st = Inl ErrNotFound
    \<and> e' = e\<lparr>ID := ID e', CreatedAt := w_clock w', UpdatedAt := w_clock w'\<rparr>
    \<and> (\<forall>k. k \<noteq> ID e' \<longrightarrow> GetByID B k st' = GetByID B k st)"
  using bbolt.get_after_create [OF assms] bbolt.port_create_law [OF assms]
    bbolt.port_get_law [OF assms(1,2)] by simp

theorem create_then_get_witness:
  "\<exists>e' st' w'. Create rbt_bolt (demo_envelope 1) demo_store demo_store_world = (None, e', st', w')
     \<and> GetByID rbt_bolt (ID e') st' = Inr (json_envelope e')"
proof -
  let ?r = "Create rbt_bolt (demo_envelope 1) demo_store demo_store_world"
  obtain r e' st' w' where run: "?r = (r, e', st', w')" by (rule prod_cases4)
  have "fst ?r = None" by code_simp
  with run have run': "?r = (None, e', st', w')" by simp
  from create_then_get [OF rb.bbolt_axioms demo_store_inv demo_fresh demo_envelope_type(1) run'] run'
  show ?thesis by blast
qed

text \<open>
  An update that succeeds replaces exactly the entry with the given identifier, which
  keeps its time of creation and gets the time of the call as its time of change; one for an
  identifier that is not stored answers \<^verbatim>\<open>ErrNotFound\<close> and changes nothing.
\<close>

theorem update_replaces:
  assumes "bbolt B" "store_inv B st" "int64_type e" "Update B e st w = (r, e', st', w')"
  shows "(r = None \<longrightarrow>
      (\<exists>old. GetByID B (ID e) st = Inr old \<and> CreatedAt e' = CreatedAt old \<and> UpdatedAt e' = w_clock w') \<and>
      GetByID B (ID e) st' = Inr (json_envelope e') \<and>
      (\<forall>k. k \<noteq> ID e \<longrightarrow> GetByID B k st' = GetByID B k st)) \<and>
    (GetByID B (ID e) st = Inl ErrNotFound \<longrightarrow> r = Some ErrNotFound) \<and>
    (r \<noteq> None \<longrightarrow> st' = st)"
proof (cases r)
  case None
  from assms(1-3) assms(4) [unfolded None]
  have u: "Update B e st w = (None, e', st', w')" "bbolt B" "store_inv B st" "int64_type e" by auto
  note law = bbolt.port_update_law [OF u(2,3,4,1)] and get = bbolt.get_after_update [OF u(2,3,4,1)]
  from law bbolt.port_get_law [OF u(2,3), of "ID e"] get None show ?thesis by auto
next
  case (Some x)
  have "GetByID B (ID e) st = Inl ErrNotFound \<Longrightarrow> stored B st (ID e) = None"
    using bbolt.port_get_law [OF assms(1,2), of "ID e"] by (simp split: option.splits)
  with Some assms bbolt.port_update_missing [OF assms(1,2), of e w]
    bbolt.Update_failed [OF assms(1), of e st w x e' st' w']
  show ?thesis by auto
qed

text \<open>The witness moves a stored entry to another type.\<close>

definition demo_stored :: "(go_error option \<times> envelope \<times> (bytes, bytes) rbt store \<times> world)" where
  "demo_stored = Create rbt_bolt (demo_envelope 1) demo_store demo_store_world"

lemma demo_stored_inv: "store_inv rbt_bolt (fst (snd (snd demo_stored)))"
proof -
  obtain r e' st' w' where run: "demo_stored = (r, e', st', w')" by (rule prod_cases4)
  have "fst demo_stored = None" by code_simp
  with run have "Create rbt_bolt (demo_envelope 1) demo_store demo_store_world = (None, e', st', w')"
    by (simp add: demo_stored_def)
  from rb.Create_stored(1) [OF demo_store_inv demo_fresh demo_envelope_type(1) this]
  show ?thesis by (simp only: run fst_conv snd_conv)
qed

theorem update_replaces_witness:
  "\<exists>e' st' w'. Update rbt_bolt ((demo_envelope 2)\<lparr>ID := demo_uuid 1\<rparr>) (fst (snd (snd demo_stored)))
       (snd (snd (snd demo_stored))) = (None, e', st', w')
     \<and> GetByID rbt_bolt (demo_uuid 1) st' = Inr (json_envelope e')"
proof -
  let ?e = "(demo_envelope 2)\<lparr>ID := demo_uuid 1\<rparr>"
  let ?r = "Update rbt_bolt ?e (fst (snd (snd demo_stored))) (snd (snd (snd demo_stored)))"
  obtain r e' st' w' where run: "?r = (r, e', st', w')" by (rule prod_cases4)
  have "fst ?r = None" by code_simp
  with run have r: "r = None" by simp
  have "int64_type ?e" using demo_envelope_type(2) by (simp add: int64_type_def)
  from update_replaces [OF rb.bbolt_axioms demo_stored_inv this run] r run show ?thesis by auto
qed

text \<open>
  A deletion that succeeds removes exactly the entry with the given identifier: reading
  it answers \<^verbatim>\<open>ErrNotFound\<close>, and so does deleting it again; every other entry
  reads as before. A deletion that fails changes nothing.
\<close>

theorem delete_removes:
  assumes "bbolt B" "store_inv B st" "DeleteByID B k st w = (r, st', w')"
  shows "(r = None \<longrightarrow>
      GetByID B k st \<noteq> Inl ErrNotFound \<and> GetByID B k st' = Inl ErrNotFound \<and>
      DeleteByID B k st' w2 = (Some ErrNotFound, st', w2) \<and>
      (\<forall>k'. k' \<noteq> k \<longrightarrow> GetByID B k' st' = GetByID B k' st)) \<and>
    (r \<noteq> None \<longrightarrow> st' = st)"
proof (cases r)
  case None
  note run = assms(1,2) assms(3) [unfolded None]
  note law = bbolt.port_delete_law [OF run]
  from law bbolt.get_after_delete [OF run] bbolt.port_get_law [OF assms(1,2), of k]
    bbolt.port_delete_missing [OF assms(1), of st' k w2] None
  show ?thesis by auto
next
  case (Some x)
  with assms bbolt.DeleteByID_failed [OF assms(1), of k st w x st' w'] show ?thesis by simp
qed

theorem delete_removes_witness:
  "\<exists>st' w'. DeleteByID rbt_bolt (demo_uuid 1) (fst (snd (snd demo_stored)))
       (snd (snd (snd demo_stored))) = (None, st', w')
     \<and> GetByID rbt_bolt (demo_uuid 1) st' = Inl ErrNotFound"
proof -
  let ?r = "DeleteByID rbt_bolt (demo_uuid 1) (fst (snd (snd demo_stored))) (snd (snd (snd demo_stored)))"
  obtain r st' w' where run: "?r = (r, st', w')" by (rule prod_cases3)
  have "fst ?r = None" by code_simp
  with run have r: "r = None" by simp
  from delete_removes [OF rb.bbolt_axioms demo_stored_inv run] r run show ?thesis by auto
qed

text \<open>
  C7: In every state a store can reach, listing never fails and is exact: the entries of
  the type asked for (all of them for the unspecified type), each once and in the order of
  the identifiers. In particular the index of types never goes stale, whatever changes of
  type and deletions there were.
\<close>

theorem list_exact:
  assumes "bbolt B" "reach_from (store_start B) (store_step B) (st, w)"
  shows "\<exists>es. StoreList B t st = Inr es \<and> sorted_wrt (<) (map ID es) \<and>
    (\<forall>e. e \<in> set es \<longleftrightarrow> GetByID B (ID e) st = Inr e \<and> (t = EntryTypeUnspecified \<or> Type e = t))"
proof -
  have inv: "store_inv B st"
    using bbolt.life_reach_inv [OF assms] by simp
  obtain all where all: "StoreList B EntryTypeUnspecified st = Inr all"
    using bbolt.port_list_law [OF assms(1) inv] by blast
  then obtain es where es: "StoreList B t st = Inr es"
    using bbolt.StoreList_filter [OF assms(1) inv _ all, of t] by (cases "t = EntryTypeUnspecified") auto
  with bbolt.list_members [OF assms(1) inv es] show ?thesis by auto
qed

lemma demo_reach:
  "reach_from (store_start rbt_bolt) (store_step rbt_bolt) (snd (snd demo_stored))"
proof (rule reach_trans)
  show "reach_from (store_start rbt_bolt) (store_step rbt_bolt) (demo_store, demo_store_world)"
    by (rule reach_start) (simp add: store_start_def demo_store_new)
  have "store_step rbt_bolt (demo_store, demo_store_world) (fst (snd (snd demo_stored)), snd (snd (snd demo_stored)))"
    by (rule store_call [where oper = "SCreate (demo_envelope 1)" and ?w1.0 = demo_store_world])
      (simp_all add: demo_fresh demo_envelope_type demo_stored_def split: prod.splits)
  then show "store_step rbt_bolt (demo_store, demo_store_world) (snd (snd demo_stored))" by simp
qed

theorem list_exact_witness:
  "\<exists>es. StoreList rbt_bolt 1 (fst (snd (snd demo_stored))) = Inr es \<and> map ID es = [demo_uuid 1]
    \<and> (\<forall>e \<in> set es. Type e = 1)"
proof -
  have "reach_from (store_start rbt_bolt) (store_step rbt_bolt)
      (fst (snd (snd demo_stored)), snd (snd (snd demo_stored)))"
    using demo_reach by (simp only: prod.collapse)
  from list_exact [OF rb.bbolt_axioms this, of 1] obtain es where
    es: "StoreList rbt_bolt 1 (fst (snd (snd demo_stored))) = Inr es" "\<forall>e \<in> set es. Type e = 1"
    by (auto simp: EntryTypeUnspecified_def)
  have "(case StoreList rbt_bolt 1 (fst (snd (snd demo_stored))) of Inr es \<Rightarrow> map ID es | _ \<Rightarrow> [])
      = [demo_uuid 1]" by code_simp
  with es show ?thesis by simp
qed

text \<open>
  C6: In every state a store can reach what the buckets hold has the type the code reads it
  with: each key of the entries is an identifier of 36 ASCII bytes, its bytes decode to an
  envelope with that very identifier, and the index of types holds a key exactly when it is
  the key of the type and identifier of a stored entry, pointing back at it.
\<close>

theorem store_well_formed:
  assumes "bbolt B" "reach_from (store_start B) (store_step B) (st, w)"
  shows "(\<forall>k d. b_get B (bucketEntries st) k = Some d \<longrightarrow>
       ascii k \<and> length k = 36 \<and> (\<exists>e. unmarshal_envelope d = Inr e \<and> ID e = k)) \<and>
    (\<forall>i k. b_get B (bucketIndexType st) i = Some k \<longleftrightarrow>
       (\<exists>d e. b_get B (bucketEntries st) k = Some d \<and> unmarshal_envelope d = Inr e \<and> i = typeIndexKey e))"
proof -
  have inv: "store_inv B st" using bbolt.life_reach_inv [OF assms] by simp
  then have entries: "key_ok k \<and> (\<exists>e. unmarshal_envelope d = Inr e \<and> ID e = k)"
    if "b_get B (bucketEntries st) k = Some d" for k d
    using that by (simp add: store_inv_def)
  have "stored B st k = Some e \<longleftrightarrow>
      (\<exists>d. b_get B (bucketEntries st) k = Some d \<and> unmarshal_envelope d = Inr e)" for k e
    by (auto simp: stored_def split: option.splits sum.splits)
  with index_of_Some [OF store_inv_index [OF inv]] entries show ?thesis
    by (fastforce simp: key_ok_def typeIndexKey_index_key)
qed

theorem store_well_formed_witness:
  "\<exists>d e. b_get rbt_bolt (bucketEntries (fst (snd (snd demo_stored)))) (demo_uuid 1) = Some d
    \<and> unmarshal_envelope d = Inr e
    \<and> b_get rbt_bolt (bucketIndexType (fst (snd (snd demo_stored)))) (typeIndexKey e) = Some (demo_uuid 1)"
proof -
  have reach: "reach_from (store_start rbt_bolt) (store_step rbt_bolt)
      (fst (snd (snd demo_stored)), snd (snd (snd demo_stored)))"
    using demo_reach by (simp only: prod.collapse)
  have "b_get rbt_bolt (bucketEntries (fst (snd (snd demo_stored)))) (demo_uuid 1) \<noteq> None" by code_simp
  then obtain d where d: "b_get rbt_bolt (bucketEntries (fst (snd (snd demo_stored)))) (demo_uuid 1) = Some d"
    by blast
  from store_well_formed [OF rb.bbolt_axioms reach] d obtain e where "unmarshal_envelope d = Inr e"
    by blast
  with store_well_formed [OF rb.bbolt_axioms reach] d show ?thesis by blast
qed

end
