(* ===== verification/Gpg.thy ===== *)
theory Gpg
  imports Go_World
begin

text \<open>
  \<^verbatim>\<open>internal/adapters/crypto/gpg.go\<close>: the adapter that runs the program
  \<^verbatim>\<open>gpg\<close>. The program, temporary directories and their removal are the argument
  \<open>G\<close>; each call gets its command line and standard input, may change the state of the
  system (the key rings), and gives its exit error, output and error output. What the rest
  of the program relies on, that a decryption undoes an encryption, is the locale
  \<open>crypto_port\<close>.
\<close>

record gpg_result =
  g_err :: "go_error option"
  g_out :: bytes
  g_stderr :: bytes

record 'g gpg =
  gpg_exec :: "string list \<Rightarrow> bytes \<Rightarrow> 'g \<Rightarrow> gpg_result \<times> 'g"
  mkdir_temp :: "string \<Rightarrow> 'g \<Rightarrow> (go_error + string) \<times> 'g"
  remove_all :: "string \<Rightarrow> 'g \<Rightarrow> 'g"

subsection \<open>Encryption\<close>

definition gpg_Encrypt :: "'g gpg \<Rightarrow> bytes \<Rightarrow> string \<Rightarrow> 'g \<Rightarrow> (go_error + bytes) \<times> 'g" where
  "gpg_Encrypt G plaintext keyID g =
     (let (r, g) = gpg_exec G [''--batch'', ''--yes'', ''--recipient'', keyID,
                               ''--trust-model'', ''always'', ''--encrypt''] plaintext g
      in case g_err r of
           Some e \<Rightarrow> (Inl (WrapErr (''gpg encrypt failed: '' @ g_stderr r) e), g)
         | None \<Rightarrow> (Inr (g_out r), g))"

text \<open>The callback of \<^verbatim>\<open>DecryptAndUse\<close> gets the plaintext; it is applied by the caller.\<close>

definition gpg_Decrypt :: "'g gpg \<Rightarrow> bytes \<Rightarrow> 'g \<Rightarrow> (go_error + bytes) \<times> 'g" where
  "gpg_Decrypt G ciphertext g =
     (let (r, g) = gpg_exec G [''--batch'', ''--yes'', ''--decrypt''] ciphertext g
      in case g_err r of
           Some e \<Rightarrow> (Inl (WrapErr (''gpg decrypt failed: '' @ g_stderr r) e), g)
         | None \<Rightarrow> (Inr (g_out r), g))"

definition DecryptAndUse :: "'g gpg \<Rightarrow> bytes \<Rightarrow> (bytes \<Rightarrow> 'a \<Rightarrow> 'a) \<Rightarrow> 'a \<Rightarrow> 'g \<Rightarrow>
    go_error option \<times> 'a \<times> 'g" where
  "DecryptAndUse G ciphertext fn x g =
     (case gpg_Decrypt G ciphertext g of
        (Inl e, g) \<Rightarrow> (Some e, x, g)
      | (Inr plaintext, g) \<Rightarrow> (None, fn plaintext x, g))"

definition ExportPublicKey :: "'g gpg \<Rightarrow> string \<Rightarrow> 'g \<Rightarrow> (go_error + bytes) \<times> 'g" where
  "ExportPublicKey G keyID g =
     (let (r, g) = gpg_exec G [''--batch'', ''--yes'', ''--export'', ''--armor'', keyID] [] g
      in case g_err r of
           Some e \<Rightarrow> (Inl (WrapErr (''gpg export failed: '' @ g_stderr r) e), g)
         | None \<Rightarrow> (Inr (g_out r), g))"

subsection \<open>Keys\<close>

text \<open>The directory is removed on every way out.\<close>

definition showOnlyImport :: "'g gpg \<Rightarrow> bytes \<Rightarrow> 'g \<Rightarrow> (go_error + string) \<times> 'g" where
  "showOnlyImport G armored g =
     (case mkdir_temp G ''sekeve-gpg-*'' g of
        (Inl e, g) \<Rightarrow> (Inl (WrapErr ''create temp dir'' e), g)
      | (Inr tmpDir, g) \<Rightarrow>
          let (r, g) = gpg_exec G [''--batch'', ''--quiet'', ''--homedir'', tmpDir, ''--no-autostart'',
                         ''--with-colons'', ''--import-options'', ''show-only'', ''--import''] armored g;
              g = remove_all G tmpDir g
          in (case g_err r of
                Some e \<Rightarrow> Inl (Errorf (''gpg show-only import failed: '' @ g_stderr r))
              | None \<Rightarrow> Inr (g_out r), g))"

definition fpr_of_line :: "string \<Rightarrow> string list" where
  "fpr_of_line line =
     (let fields = split_byte line (CHR '':'')
      in if 10 \<le> length fields \<and> fields ! 0 = ''fpr'' then [fields ! 9] else [])"

definition parseFingerprints :: "string \<Rightarrow> string list" where
  "parseFingerprints colonOutput = concat (map fpr_of_line (split_byte colonOutput (CHR 0x0A)))"

definition ValidateArmoredPublicKey :: "'g gpg \<Rightarrow> bytes \<Rightarrow> 'g \<Rightarrow> (go_error + bytes) \<times> 'g" where
  "ValidateArmoredPublicKey G armored g =
     (let trimmed = trim_space armored in
      if trimmed = [] then (Inl (Errorf ''public key is empty''), g)
      else if \<not> contains trimmed ''-----BEGIN PGP PUBLIC KEY BLOCK-----''
        \<or> \<not> contains trimmed ''-----END PGP PUBLIC KEY BLOCK-----''
      then (Inl (Errorf ''input does not look like an armored GPG public key''), g)
      else case showOnlyImport G trimmed g of
        (Inl e, g) \<Rightarrow> (Inl (WrapErr ''gpg key validation failed'' e), g)
      | (Inr out, g) \<Rightarrow>
          (if \<not> contains out ''pub:'' then Inl (Errorf ''no public key found in the provided input'')
           else Inr (trimmed @ [CHR 0x0A]), g))"

definition hex_rune :: "nat \<Rightarrow> bool" where
  "hex_rune c \<longleftrightarrow> (48 \<le> c \<and> c \<le> 57) \<or> (65 \<le> c \<and> c \<le> 70) \<or> (97 \<le> c \<and> c \<le> 102)"

definition fingerprint_of_output :: "unicode \<Rightarrow> string \<Rightarrow> go_error + string" where
  "fingerprint_of_output U out =
     (case parseFingerprints out of
        [] \<Rightarrow> Inl (Errorf ''no fingerprint found in key'')
      | fp # _ \<Rightarrow>
          if length fp \<noteq> 40 then Inl (Errorf (''unexpected fingerprint length: '' @ dec_nat (length fp)))
          else case find (\<lambda>c. \<not> hex_rune c) (runes fp) of
            Some c \<Rightarrow> Inl (Errorf (''fingerprint contains non-hex character: '' @ encode_rune c))
          | None \<Rightarrow> Inr (to_upper U fp))"

definition FingerprintFromArmored :: "unicode \<Rightarrow> 'g gpg \<Rightarrow> bytes \<Rightarrow> 'g \<Rightarrow> (go_error + string) \<times> 'g" where
  "FingerprintFromArmored U G armored g =
     (case showOnlyImport G armored g of
        (Inl e, g) \<Rightarrow> (Inl e, g)
      | (Inr out, g) \<Rightarrow> (fingerprint_of_output U out, g))"

definition VerifyKeyIDMatchesFingerprint ::
  "unicode \<Rightarrow> 'g gpg \<Rightarrow> string \<Rightarrow> string \<Rightarrow> bytes \<Rightarrow> 'g \<Rightarrow> go_error option \<times> 'g" where
  "VerifyKeyIDMatchesFingerprint U G keyID expectedFP pubKey g =
     (case mkdir_temp G ''sekeve-gpg-verify-*'' g of
        (Inl e, g) \<Rightarrow> (Some (WrapErr ''create temp dir'' e), g)
      | (Inr tmpDir, g) \<Rightarrow>
          let (r, g) = gpg_exec G [''--batch'', ''--quiet'', ''--homedir'', tmpDir, ''--no-autostart'',
                         ''--import''] pubKey g
          in case g_err r of
               Some e \<Rightarrow> (Some (Errorf (''gpg import failed: '' @ g_stderr r)), remove_all G tmpDir g)
             | None \<Rightarrow>
                 let (l, g) = gpg_exec G [''--batch'', ''--homedir'', tmpDir, ''--no-autostart'',
                                ''--with-colons'', ''--list-keys'', keyID] [] g;
                     g = remove_all G tmpDir g
                 in case g_err l of
                      Some e \<Rightarrow> (Some (Errorf (''unknown GPG key ID: '' @ g_stderr l)), g)
                    | None \<Rightarrow>
                        (if \<exists>fp \<in> set (parseFingerprints (g_out l)). equal_fold U fp expectedFP then None
                         else Some (Errorf ''GPG key ID does not match registered key''), g))"

subsection \<open>Fingerprints\<close>

definition upper_char :: "char \<Rightarrow> char" where
  "upper_char c = (if CHR ''a'' \<le> c \<and> c \<le> CHR ''z'' then char_of ((of_char c :: nat) - 32) else c)"

definition upper_hex :: "char \<Rightarrow> bool" where
  "upper_hex c \<longleftrightarrow> (CHR ''0'' \<le> c \<and> c \<le> CHR ''9'') \<or> (CHR ''A'' \<le> c \<and> c \<le> CHR ''F'')"

lemma upper_char_rune:
  "(of_char c :: nat) < 128 \<Longrightarrow> encode_rune (upper_rune U (of_char c)) = [upper_char c]"
  by (auto simp: upper_rune_def upper_char_def encode_rune_def less_eq_char_def)

lemma to_upper_ascii: "ascii s \<Longrightarrow> to_upper U s = map upper_char s"
  by (induction s) (auto simp: to_upper_def runes_def upper_char_rune)

lemma hex_runes_ascii: "\<forall>c \<in> set (runes s). hex_rune c \<Longrightarrow> ascii s"
proof (induction s rule: rune_segments.induct)
  case (1 s)
  show ?case
  proof (cases "s = []")
    case False
    obtain r n where d: "decode_rune s = (r, n)" by force
    have seg: "rune_segments s = (r, take n s) # rune_segments (drop n s)"
      using False d by (simp add: rune_segments.simps [of s])
    then have r: "hex_rune r" and rest: "\<forall>c \<in> set (runes (drop n s)). hex_rune c"
      using "1.prems" by (auto simp: runes_def)
    have "ascii (drop n s)" using "1.IH" [OF False d [symmetric]] rest by simp
    with d False r show ?thesis
      by (cases rule: decode_rune_cases) (auto simp: hex_rune_def rune_error_def)
  qed simp
qed

lemma fingerprint_of_output_shape:
  assumes "fingerprint_of_output U out = Inr fp"
  obtains fp0 rest where "parseFingerprints out = fp0 # rest" "length fp0 = 40" "ascii fp0"
    "\<forall>c \<in> set fp0. hex_rune (of_char c)" "fp = map upper_char fp0"
proof -
  from assms obtain fp0 rest where fps: "parseFingerprints out = fp0 # rest" "length fp0 = 40"
    and none: "find (\<lambda>c. \<not> hex_rune c) (runes fp0) = None" and fp: "fp = to_upper U fp0"
    by (auto simp: fingerprint_of_output_def split: list.splits if_splits option.splits)
  from none have hex: "\<forall>c \<in> set (runes fp0). hex_rune c" by (simp add: find_None_iff)
  then have "ascii fp0" by (rule hex_runes_ascii)
  with hex fps fp show thesis by (intro that) (auto simp: runes_ascii to_upper_ascii)
qed

lemma fold_upper_char:
  "(of_char c :: nat) < 128 \<Longrightarrow> fold_rune U (of_char (upper_char c)) = fold_rune U (of_char c)"
  by (auto simp: fold_rune_def upper_char_def less_eq_char_def)

lemma upper_char_ascii: "(of_char c :: nat) < 128 \<Longrightarrow> (of_char (upper_char c) :: nat) < 128"
  by (auto simp: upper_char_def less_eq_char_def)

lemma equal_fold_upper: "ascii s \<Longrightarrow> equal_fold U s (map upper_char s)"
proof -
  assume s: "ascii s"
  then have "ascii (map upper_char s)" by (auto simp: ascii_def upper_char_ascii)
  with s show ?thesis by (auto simp: equal_fold_def runes_ascii ascii_def fold_upper_char)
qed

subsection \<open>What the rest of the program relies on\<close>

text \<open>
  The port for encryption: what is encrypted for a key can be decrypted in every home that
  holds the secret key, and using a home does not take its keys away.
\<close>

locale crypto_port =
  fixes holds :: "string \<Rightarrow> 'g \<Rightarrow> bool"
    and encrypt :: "bytes \<Rightarrow> string \<Rightarrow> 'g \<Rightarrow> (go_error + bytes) \<times> 'g"
    and decrypt :: "bytes \<Rightarrow> 'g \<Rightarrow> (go_error + bytes) \<times> 'g"
  assumes decrypt_encrypt:
      "holds k g2 \<Longrightarrow> encrypt p k g = (Inr c, g1) \<Longrightarrow> fst (decrypt c g2) = Inr p"
    and encrypt_holds: "holds k g \<Longrightarrow> holds k (snd (encrypt p k' g))"
    and decrypt_holds: "holds k g \<Longrightarrow> holds k (snd (decrypt c g))"

locale gpg_program =
  fixes G :: "'g gpg" and holds :: "string \<Rightarrow> 'g \<Rightarrow> bool"
  assumes program_decrypts: "holds k g2 \<Longrightarrow>
      gpg_exec G [''--batch'', ''--yes'', ''--recipient'', k, ''--trust-model'', ''always'', ''--encrypt''] p g
        = (r, g1) \<Longrightarrow> g_err r = None \<Longrightarrow>
      \<exists>r2 g3. gpg_exec G [''--batch'', ''--yes'', ''--decrypt''] (g_out r) g2 = (r2, g3) \<and>
        g_err r2 = None \<and> g_out r2 = p"
    and program_holds: "holds k g \<Longrightarrow> holds k (snd (gpg_exec G args stdin g))"

sublocale gpg_program \<subseteq> crypto: crypto_port holds "gpg_Encrypt G" "gpg_Decrypt G"
proof
  fix k p g c g1 g2
  assume own: "holds k g2" and enc: "gpg_Encrypt G p k g = (Inr c, g1)"
  obtain r g3 where r: "gpg_exec G [''--batch'', ''--yes'', ''--recipient'', k, ''--trust-model'',
      ''always'', ''--encrypt''] p g = (r, g3)" by force
  with enc have c: "g_err r = None" "g_out r = c"
    by (auto simp: gpg_Encrypt_def split: option.splits)
  from program_decrypts [OF own r c(1)] c(2) obtain r2 g3 where
    "gpg_exec G [''--batch'', ''--yes'', ''--decrypt''] c g2 = (r2, g3)" "g_err r2 = None" "g_out r2 = p"
    by blast
  then show "fst (gpg_Decrypt G c g2) = Inr p" by (simp add: gpg_Decrypt_def)
next
  fix k g p k' c
  assume h: "holds k g"
  show "holds k (snd (gpg_Encrypt G p k' g))"
    using program_holds [OF h, of "[''--batch'', ''--yes'', ''--recipient'', k', ''--trust-model'', ''always'', ''--encrypt'']" p]
    by (auto simp: gpg_Encrypt_def split: prod.splits option.splits)
  show "holds k (snd (gpg_Decrypt G c g))"
    using program_holds [OF h, of "[''--batch'', ''--yes'', ''--decrypt'']" c]
    by (auto simp: gpg_Decrypt_def split: prod.splits option.splits)
qed

text \<open>A program that follows the command lines: it tags ciphertexts and knows one key.\<close>

definition demo_fingerprint :: string where
  "demo_fingerprint = ''ABCDEF0123456789abcdef0123456789ABCDEF01''"

definition gpg_ok :: "bytes \<Rightarrow> gpg_result" where
  "gpg_ok out = \<lparr>g_err = None, g_out = out, g_stderr = []\<rparr>"

definition demo_gpg :: "unit gpg" where
  "demo_gpg =
     \<lparr>gpg_exec = (\<lambda>args stdin g.
        (if last args = ''--encrypt'' then gpg_ok (''ENC:'' @ stdin)
         else if last args = ''--decrypt'' then
           (if has_prefix stdin ''ENC:'' then gpg_ok (drop 4 stdin)
            else \<lparr>g_err = Some (Errorf ''exit status 2''), g_out = [], g_stderr = ''no data''\<rparr>)
         else gpg_ok (''pub:'' @ CHR 0x0A # ''fpr:::::::::'' @ demo_fingerprint @ '':''), g)),
      mkdir_temp = (\<lambda>p g. (Inr ''/tmp/demo'', g)), remove_all = (\<lambda>d g. g)\<rparr>"

interpretation demo_program: gpg_program demo_gpg "\<lambda>k g. True"
  by unfold_locales (auto simp: demo_gpg_def gpg_ok_def has_prefix_def)

subsection \<open>Property\<close>

text \<open>
  C10: The fingerprint the server registers is 40 upper-case hexadecimal digits, and the
  check of a key identifier accepts it back: whenever listing the key by that identifier
  shows the fingerprint that the import showed first, in any case, the check passes.
\<close>

theorem fingerprint_registered:
  assumes "FingerprintFromArmored U G armored g = (Inr fp, g1)"
  shows "length fp = 40 \<and> list_all upper_hex fp \<and>
    (\<exists>out g2 fps. showOnlyImport G armored g = (Inr out, g2) \<and> parseFingerprints out = fps \<and>
       (\<forall>keyID pubKey dir h1 h2 h3 r l.
          mkdir_temp G ''sekeve-gpg-verify-*'' h1 = (Inr dir, h2) \<longrightarrow>
          gpg_exec G [''--batch'', ''--quiet'', ''--homedir'', dir, ''--no-autostart'', ''--import''] pubKey h2
            = (r, h3) \<longrightarrow> g_err r = None \<longrightarrow>
          fst (gpg_exec G [''--batch'', ''--homedir'', dir, ''--no-autostart'', ''--with-colons'',
                 ''--list-keys'', keyID] [] h3) = l \<longrightarrow> g_err l = None \<longrightarrow>
          hd fps \<in> set (parseFingerprints (g_out l)) \<longrightarrow>
          fst (VerifyKeyIDMatchesFingerprint U G keyID fp pubKey h1) = None))"
proof -
  from assms obtain out g2 where out: "showOnlyImport G armored g = (Inr out, g2)"
    and fo: "fingerprint_of_output U out = Inr fp"
    by (auto simp: FingerprintFromArmored_def split: prod.splits sum.splits)
  from fo obtain fp0 rest where fp0: "parseFingerprints out = fp0 # rest" "length fp0 = 40" "ascii fp0"
      "\<forall>c \<in> set fp0. hex_rune (of_char c)" "fp = map upper_char fp0"
    by (rule fingerprint_of_output_shape)
  have "upper_hex (upper_char c)" if "hex_rune (of_char c)" for c
    using that by (auto simp: hex_rune_def upper_hex_def upper_char_def less_eq_char_def)
  with fp0 have "list_all upper_hex fp" by (simp add: list_all_iff)
  moreover have "equal_fold U fp0 fp" using fp0 equal_fold_upper by simp
  ultimately show ?thesis
    using out fp0 by (auto simp: VerifyKeyIDMatchesFingerprint_def Let_def split: prod.splits)
qed

definition ascii_unicode :: unicode where
  "ascii_unicode = \<lparr>uni_lower = (\<lambda>r. r), uni_upper = (\<lambda>r. r), uni_fold = (\<lambda>r. r),
     uni_letter = (\<lambda>r. False), uni_digit = (\<lambda>r. False)\<rparr>"

theorem fingerprint_registered_witness:
  "\<exists>fp. FingerprintFromArmored ascii_unicode demo_gpg [] () = (Inr fp, ()) \<and> length fp = 40 \<and>
     fst (VerifyKeyIDMatchesFingerprint ascii_unicode demo_gpg ''me'' fp [] ()) = None"
proof -
  have "\<not> isl (fst (FingerprintFromArmored ascii_unicode demo_gpg [] ()))" by code_simp
  then obtain fp where f: "FingerprintFromArmored ascii_unicode demo_gpg [] () = (Inr fp, ())"
    by (cases "fst (FingerprintFromArmored ascii_unicode demo_gpg [] ())") (auto simp: prod_eq_iff)
  have out: "showOnlyImport demo_gpg [] ()
      = (Inr (''pub:'' @ CHR 0x0A # ''fpr:::::::::'' @ demo_fingerprint @ '':''), ())"
    by (simp add: showOnlyImport_def demo_gpg_def gpg_ok_def)
  have ex: "mkdir_temp demo_gpg x () = (Inr ''/tmp/demo'', ())"
    "gpg_exec demo_gpg [''--batch'', ''--quiet'', ''--homedir'', d, ''--no-autostart'', ''--import''] k ()
      = (gpg_ok (''pub:'' @ CHR 0x0A # ''fpr:::::::::'' @ demo_fingerprint @ '':''), ())"
    "gpg_exec demo_gpg [''--batch'', ''--homedir'', d, ''--no-autostart'', ''--with-colons'',
       ''--list-keys'', ''me''] [] ()
      = (gpg_ok (''pub:'' @ CHR 0x0A # ''fpr:::::::::'' @ demo_fingerprint @ '':''), ())" for x d k
    by (simp_all add: demo_gpg_def)
  have fps: "parseFingerprints (''pub:'' @ CHR 0x0A # ''fpr:::::::::'' @ demo_fingerprint @ '':'')
      = [demo_fingerprint]" by code_simp
  note p = fingerprint_registered [OF f]
  from p out fps ex have "fst (VerifyKeyIDMatchesFingerprint ascii_unicode demo_gpg ''me'' fp [] ()) = None"
    by (auto simp: gpg_ok_def)
  with p f show ?thesis by blast
qed

end
