(* ===== verification/Server.thy ===== *)
theory Server
  imports Auth_Manager Pin_Hash Storage Gpg
begin

text \<open>
  \<^verbatim>\<open>internal/adapters/grpc/server.go\<close> and \<^verbatim>\<open>converter.go\<close>, with the
  interceptor of \<^verbatim>\<open>auth.go\<close>: the handlers of the service, what a call does from its
  metadata to its answer, and the server as a transition system of calls. The packages
  outside the repository are collected in the record \<open>deps\<close>.
\<close>

record ('b, 'g) deps =
  d_bolt :: "'b bolt"
  d_kdf :: idkey
  d_unicode :: unicode
  d_gpg :: "'g gpg"

record ('b, 'g) server =
  storage :: "'b store"
  auth :: auth_manager
  keyring :: 'g

subsection \<open>Messages and the converter\<close>

text \<open>The numbers of the wire: an enum has 32 bits, a time 64.\<close>

record proto_entry =
  p_Id :: string
  p_Name :: string
  p_Type :: "32 word"
  p_Meta :: "(string \<times> string) list"
  p_Payload :: bytes
  p_CreatedAt :: "64 word"
  p_UpdatedAt :: "64 word"

record session_token =
  t_Token :: string
  t_ExpiresAt :: "64 word"
  t_RequiresPin :: bool
  t_UnlockTicket :: string

definition envelopeToProto :: "envelope \<Rightarrow> proto_entry" where
  "envelopeToProto env =
     \<lparr>p_Id = ID env, p_Name = Name env, p_Type = word_of_int (Type env), p_Meta = Meta env,
      p_Payload = Payload env, p_CreatedAt = word_of_int (unix_of (CreatedAt env)),
      p_UpdatedAt = word_of_int (unix_of (UpdatedAt env))\<rparr>"

definition protoToEnvelope :: "proto_entry \<Rightarrow> envelope" where
  "protoToEnvelope entry =
     \<lparr>ID = p_Id entry, Name = p_Name entry, Type = sint (p_Type entry), Meta = p_Meta entry,
      Payload = p_Payload entry, CreatedAt = time_unix (sint (p_CreatedAt entry)),
      UpdatedAt = time_unix (sint (p_UpdatedAt entry))\<rparr>"

datatype request =
    ReqAuthenticate string
  | ReqVerifyChallenge string
  | ReqCreateEntry "proto_entry option"
  | ReqUpdateEntry "proto_entry option"
  | ReqGetEntry string
  | ReqListEntries "32 word"
  | ReqDeleteEntry string
  | ReqHasPIN
  | ReqSetPIN string string
  | ReqUnlock string string

datatype response =
    AuthChallenge bytes
  | SessionToken session_token
  | CreateEntryResponse string
  | UpdateEntryResponse
  | EntryResponse proto_entry
  | ListEntriesResponse "proto_entry list"
  | DeleteEntryResponse
  | HasPINResponse bool
  | SetPINResponse
  | UnlockResponse string "64 word"

fun FullMethod :: "request \<Rightarrow> string" where
  "FullMethod (ReqAuthenticate _) = ''/sekeve.v1.Sekeve/Authenticate''"
| "FullMethod (ReqVerifyChallenge _) = ''/sekeve.v1.Sekeve/VerifyChallenge''"
| "FullMethod (ReqCreateEntry _) = ''/sekeve.v1.Sekeve/CreateEntry''"
| "FullMethod (ReqUpdateEntry _) = ''/sekeve.v1.Sekeve/UpdateEntry''"
| "FullMethod (ReqGetEntry _) = ''/sekeve.v1.Sekeve/GetEntry''"
| "FullMethod (ReqListEntries _) = ''/sekeve.v1.Sekeve/ListEntries''"
| "FullMethod (ReqDeleteEntry _) = ''/sekeve.v1.Sekeve/DeleteEntry''"
| "FullMethod ReqHasPIN = ''/sekeve.v1.Sekeve/HasPIN''"
| "FullMethod (ReqSetPIN _ _) = ''/sekeve.v1.Sekeve/SetPIN''"
| "FullMethod (ReqUnlock _ _) = ''/sekeve.v1.Sekeve/Unlock''"

subsection \<open>Handlers\<close>

type_synonym ('b, 'g, 'r) handler_result = "(go_error + 'r) \<times> ('b, 'g) server \<times> world"

definition NewServer :: "('b, 'g) deps \<Rightarrow> 'b store \<Rightarrow> auth_manager \<Rightarrow> 'g \<Rightarrow> ('b, 'g) server" where
  "NewServer D st am g =
     (let am = (case GetPINHash (d_bolt D) st of Inr _ \<Rightarrow> SetPINConfigured True am | Inl _ \<Rightarrow> am);
          (fp, g) = FingerprintFromArmored (d_unicode D) (d_gpg D) (GPGPublicKey am) g;
          am = (case fp of Inl e \<Rightarrow> am | Inr fp \<Rightarrow> SetGPGFingerprint fp am)
      in \<lparr>storage = st, auth = am, keyring = g\<rparr>)"

definition validateKeyID :: "unicode \<Rightarrow> string \<Rightarrow> go_error option" where
  "validateKeyID U keyID =
     (if keyID = [] then Some (Errorf ''GPG key ID cannot be empty'')
      else case find (\<lambda>r. \<not> is_letter U r \<and> \<not> is_digit U r \<and> r \<notin> {64, 46, 45, 95}) (runes keyID) of
        Some r \<Rightarrow> Some (Errorf (''invalid character in GPG key ID: '' @ encode_rune r))
      | None \<Rightarrow> None)"

definition validatePIN :: "string \<Rightarrow> go_error option" where
  "validatePIN pin =
     (if length pin < 4 \<or> 6 < length pin then Some (Errorf ''PIN must be 4-6 digits'')
      else case find (\<lambda>r. r < 48 \<or> 57 < r) (runes pin) of
        Some r \<Rightarrow> Some (Errorf ''PIN must contain only digits'')
      | None \<Rightarrow> None)"

definition Authenticate :: "('b, 'g) deps \<Rightarrow> string \<Rightarrow> ('b, 'g) server \<Rightarrow> world \<Rightarrow>
    ('b, 'g, bytes) handler_result" where
  "Authenticate D gpgKeyId s w =
     (case validateKeyID (d_unicode D) gpgKeyId of
        Some e \<Rightarrow> (Inl (StatusError InvalidArgument (''invalid GPG key ID: '' @ error_string e)), s, w)
      | None \<Rightarrow>
         let pubKey = GPGPublicKey (auth s);
             (r, g) = gpg_exec (d_gpg D) [''--batch'', ''--import''] pubKey (keyring s);
             s = s\<lparr>keyring := g\<rparr>
         in case g_err r of
           Some e \<Rightarrow> (Inl (WrapErr (''gpg import failed: '' @ g_stderr r) e), s, w)
         | None \<Rightarrow>
             let expectedFP = GPGFingerprint (auth s) in
             if expectedFP = []
             then (Inl (StatusError FailedPrecondition ''server GPG key not configured''), s, w)
             else
               let (v, g) = VerifyKeyIDMatchesFingerprint (d_unicode D) (d_gpg D) gpgKeyId expectedFP
                              pubKey (keyring s);
                   s = s\<lparr>keyring := g\<rparr>
               in case v of
                 Some e \<Rightarrow> (Inl (StatusError Unauthenticated (error_string e)), s, w)
               | None \<Rightarrow>
                  (case GenerateChallenge (auth s) w of
                     (Inl e, am, w) \<Rightarrow> (Inl e, s\<lparr>auth := am\<rparr>, w)
                   | (Inr nonce, am, w) \<Rightarrow>
                       let s = s\<lparr>auth := am\<rparr>;
                           challenge = FormatChallenge nonce;
                           (c, g) = gpg_Encrypt (d_gpg D) challenge gpgKeyId (keyring s)
                       in (c, s\<lparr>keyring := g\<rparr>, w)))"

definition VerifyChallenge :: "string \<Rightarrow> ('b, 'g) server \<Rightarrow> world \<Rightarrow> ('b, 'g, session_token) handler_result"
where
  "VerifyChallenge nonce s w =
     (case VerifyNonce nonce (auth s) w of
        (Inl e, am, w) \<Rightarrow> (Inl e, s\<lparr>auth := am\<rparr>, w)
      | (Inr r, am, w) \<Rightarrow>
          (Inr \<lparr>t_Token = vr_Token r, t_ExpiresAt = word_of_int (unix_of (vr_ExpiresAt r)),
                t_RequiresPin = vr_RequiresPIN r, t_UnlockTicket = vr_UnlockTicket r\<rparr>,
           s\<lparr>auth := am\<rparr>, w))"

definition CreateEntry :: "('b, 'g) deps \<Rightarrow> proto_entry option \<Rightarrow> ('b, 'g) server \<Rightarrow> world \<Rightarrow>
    ('b, 'g, string) handler_result" where
  "CreateEntry D entry s w =
     (case entry of
        None \<Rightarrow> (Inl (StatusError InvalidArgument ''entry must not be nil''), s, w)
      | Some entry \<Rightarrow>
         (case Create (d_bolt D) (protoToEnvelope entry) (storage s) w of
            (Some e, env, st, w) \<Rightarrow> (Inl (WrapErr ''failed to create entry'' e), s\<lparr>storage := st\<rparr>, w)
          | (None, env, st, w) \<Rightarrow> (Inr (ID env), s\<lparr>storage := st\<rparr>, w)))"

text \<open>How a handler reports an error of the storage.\<close>

definition storage_status :: "string \<Rightarrow> go_error \<Rightarrow> go_error" where
  "storage_status m e =
     (if errors_is e ErrNotFound then StatusError NotFound ''entry not found'' else WrapErr m e)"

definition UpdateEntry :: "('b, 'g) deps \<Rightarrow> proto_entry option \<Rightarrow> ('b, 'g) server \<Rightarrow> world \<Rightarrow>
    ('b, 'g, unit) handler_result" where
  "UpdateEntry D entry s w =
     (case entry of
        None \<Rightarrow> (Inl (StatusError InvalidArgument ''entry must not be nil''), s, w)
      | Some entry \<Rightarrow>
         (case Update (d_bolt D) (protoToEnvelope entry) (storage s) w of
            (Some e, _, st, w) \<Rightarrow> (Inl (storage_status ''failed to update entry'' e), s\<lparr>storage := st\<rparr>, w)
          | (None, _, st, w) \<Rightarrow> (Inr (), s\<lparr>storage := st\<rparr>, w)))"

definition GetEntry :: "('b, 'g) deps \<Rightarrow> string \<Rightarrow> ('b, 'g) server \<Rightarrow> go_error + proto_entry" where
  "GetEntry D eid s =
     (case GetByID (d_bolt D) eid (storage s) of
        Inl e \<Rightarrow> Inl (storage_status ''failed to get entry'' e)
      | Inr env \<Rightarrow> Inr (envelopeToProto env))"

definition ListEntries :: "('b, 'g) deps \<Rightarrow> 32 word \<Rightarrow> ('b, 'g) server \<Rightarrow> go_error + proto_entry list" where
  "ListEntries D typ s =
     (case StoreList (d_bolt D) (sint typ) (storage s) of
        Inl e \<Rightarrow> Inl (WrapErr ''failed to list entries'' e)
      | Inr envs \<Rightarrow> Inr (map envelopeToProto envs))"

definition DeleteEntry :: "('b, 'g) deps \<Rightarrow> string \<Rightarrow> ('b, 'g) server \<Rightarrow> world \<Rightarrow> ('b, 'g, unit) handler_result"
where
  "DeleteEntry D eid s w =
     (case DeleteByID (d_bolt D) eid (storage s) w of
        (Some e, st, w) \<Rightarrow> (Inl (storage_status ''failed to delete entry'' e), s\<lparr>storage := st\<rparr>, w)
      | (None, st, w) \<Rightarrow> (Inr (), s\<lparr>storage := st\<rparr>, w))"

definition HasPIN :: "('b, 'g) deps \<Rightarrow> ('b, 'g) server \<Rightarrow> bool" where
  "HasPIN D s = (case GetPINHash (d_bolt D) (storage s) of Inr _ \<Rightarrow> True | Inl _ \<Rightarrow> False)"

text \<open>The second half of \<^verbatim>\<open>SetPIN\<close>: hash, store, and drop every session.\<close>

definition set_new_pin :: "('b, 'g) deps \<Rightarrow> string \<Rightarrow> ('b, 'g) server \<Rightarrow> world \<Rightarrow> ('b, 'g, unit) handler_result"
where
  "set_new_pin D newPin s w =
     (case Hash (d_kdf D) newPin w of
        (Inl e, w) \<Rightarrow> (Inl (StatusError Internal (''failed to hash PIN: '' @ error_string e)), s, w)
      | (Inr (h, salt), w) \<Rightarrow>
         (case StorePINHash (d_bolt D) h salt (storage s) w of
            (Some e, st, w) \<Rightarrow>
              (Inl (StatusError Internal (''failed to store PIN: '' @ error_string e)), s\<lparr>storage := st\<rparr>, w)
          | (None, st, w) \<Rightarrow>
              (Inr (), s\<lparr>storage := st, auth := InvalidateAllSessions (SetPINConfigured True (auth s))\<rparr>, w)))"

definition SetPIN :: "('b, 'g) deps \<Rightarrow> string \<Rightarrow> string \<Rightarrow> ('b, 'g) server \<Rightarrow> world \<Rightarrow>
    ('b, 'g, unit) handler_result" where
  "SetPIN D currentPin newPin s w =
     (case validatePIN newPin of
        Some e \<Rightarrow> (Inl (StatusError InvalidArgument (error_string e)), s, w)
      | None \<Rightarrow>
         (case GetPINHash (d_bolt D) (storage s) of
            Inl e \<Rightarrow> set_new_pin D newPin s w
          | Inr (existingHash, existingSalt) \<Rightarrow>
             (case CheckPINRateLimit (auth s) w of
                (Some e, w) \<Rightarrow> (Inl (StatusError ResourceExhausted (error_string e)), s, w)
              | (None, w) \<Rightarrow>
                  if \<not> Verify (d_kdf D) currentPin existingHash existingSalt
                  then let (am, w) = RecordPINFailure (auth s) w
                       in (Inl (StatusError PermissionDenied ''incorrect current PIN''), s\<lparr>auth := am\<rparr>, w)
                  else set_new_pin D newPin (s\<lparr>auth := ResetPINFailures (auth s)\<rparr>) w)))"

definition Unlock :: "('b, 'g) deps \<Rightarrow> string \<Rightarrow> string \<Rightarrow> ('b, 'g) server \<Rightarrow> world \<Rightarrow>
    ('b, 'g, string \<times> 64 word) handler_result" where
  "Unlock D unlockTicket pin s w =
     (case CheckPINRateLimit (auth s) w of
        (Some e, w) \<Rightarrow> (Inl (StatusError ResourceExhausted (error_string e)), s, w)
      | (None, w) \<Rightarrow>
         (case RedeemUnlockTicket unlockTicket (auth s) w of
            (Inl e, am, w) \<Rightarrow>
              (Inl (StatusError Unauthenticated (''invalid unlock ticket: '' @ error_string e)), s\<lparr>auth := am\<rparr>, w)
          | (Inr (token, expiresAt), am, w) \<Rightarrow>
             (case GetPINHash (d_bolt D) (storage s) of
                Inl e \<Rightarrow>
                  (Inl (StatusError FailedPrecondition ''no PIN configured''),
                   s\<lparr>auth := RevokeSession token am\<rparr>, w)
              | Inr (h, salt) \<Rightarrow>
                  if \<not> Verify (d_kdf D) pin h salt
                  then let (am, w) = RecordPINFailure am w
                       in (Inl (StatusError PermissionDenied ''incorrect PIN''),
                           s\<lparr>auth := RevokeSession token am\<rparr>, w)
                  else (Inr (token, word_of_int (unix_of expiresAt)), s\<lparr>auth := ResetPINFailures am\<rparr>, w))))"

subsection \<open>A call\<close>

fun handle :: "('b, 'g) deps \<Rightarrow> request \<Rightarrow> ('b, 'g) server \<Rightarrow> world \<Rightarrow> ('b, 'g, response) handler_result" where
  "handle D (ReqAuthenticate k) s w =
     (case Authenticate D k s w of (r, s, w) \<Rightarrow> (map_sum id AuthChallenge r, s, w))"
| "handle D (ReqVerifyChallenge n) s w =
     (case VerifyChallenge n s w of (r, s, w) \<Rightarrow> (map_sum id SessionToken r, s, w))"
| "handle D (ReqCreateEntry e) s w =
     (case CreateEntry D e s w of (r, s, w) \<Rightarrow> (map_sum id CreateEntryResponse r, s, w))"
| "handle D (ReqUpdateEntry e) s w =
     (case UpdateEntry D e s w of (r, s, w) \<Rightarrow> (map_sum id (\<lambda>_. UpdateEntryResponse) r, s, w))"
| "handle D (ReqGetEntry k) s w = (map_sum id EntryResponse (GetEntry D k s), s, w)"
| "handle D (ReqListEntries t) s w = (map_sum id ListEntriesResponse (ListEntries D t s), s, w)"
| "handle D (ReqDeleteEntry k) s w =
     (case DeleteEntry D k s w of (r, s, w) \<Rightarrow> (map_sum id (\<lambda>_. DeleteEntryResponse) r, s, w))"
| "handle D ReqHasPIN s w = (Inr (HasPINResponse (HasPIN D s)), s, w)"
| "handle D (ReqSetPIN c n) s w =
     (case SetPIN D c n s w of (r, s, w) \<Rightarrow> (map_sum id (\<lambda>_. SetPINResponse) r, s, w))"
| "handle D (ReqUnlock t p) s w =
     (case Unlock D t p s w of (r, s, w) \<Rightarrow> (map_sum id (\<lambda>(t, e). UnlockResponse t e) r, s, w))"

text \<open>
  The interceptor: \<open>md\<close> is the incoming metadata, of which only the values of
  \<^verbatim>\<open>authorization\<close> matter.
\<close>

definition UnaryInterceptor :: "('b, 'g) deps \<Rightarrow> string list option \<Rightarrow> request \<Rightarrow> ('b, 'g) server \<Rightarrow> world \<Rightarrow>
    ('b, 'g, response) handler_result" where
  "UnaryInterceptor D md req s w =
     (if FullMethod req \<in> skipAuthMethods then handle D req s w
      else case md of
        None \<Rightarrow> (Inl (StatusError Unauthenticated ''missing metadata''), s, w)
      | Some [] \<Rightarrow> (Inl (StatusError Unauthenticated ''missing authorization token''), s, w)
      | Some (token # _) \<Rightarrow>
         (case validateToken token (auth s) w of
            (False, am, w) \<Rightarrow>
              (Inl (StatusError Unauthenticated ''invalid or expired token''), s\<lparr>auth := am\<rparr>, w)
          | (True, am, w) \<Rightarrow> handle D req (s\<lparr>auth := am\<rparr>) w))"

end
