(* ===== verification/Server_Safety.thy ===== *)
theory Server_Safety
  imports Server
begin

text \<open>
  What holds of the server whatever calls it gets: the invariant that ties the manager to
  the stored PIN, that no call touches or shows an entry without a live session, that with
  a PIN configured a session can only come from the right PIN, and what changing the PIN
  and failing to unlock do.
\<close>

subsection \<open>Frames\<close>

lemma time_now_world:
  "time_now w = (t, w') \<Longrightarrow> w_clock w \<le> t \<and> w_clock w' = t \<and> w_uuid w' = w_uuid w"
  by (auto simp: time_now_def split: list.splits)

lemma validateToken_world:
  "validateToken token am w = (b, am', w') \<Longrightarrow> w_uuid w' = w_uuid w \<and> w_clock w \<le> w_clock w'"
  by (auto simp: validateToken_def dest!: time_now_world
      split: option.splits prod.splits if_splits)

lemma fresh_uuid_world: "w_uuid w' = w_uuid w \<Longrightarrow> fresh_uuid B st w' = fresh_uuid B st w"
  by (auto simp: fresh_uuid_def uuid_new_def split: list.splits)

lemma GetPINHash_auth: "bucketAuth st' = bucketAuth st \<Longrightarrow> GetPINHash B st' = GetPINHash B st"
  by (simp add: GetPINHash_def)

lemma int64_type_proto [simp]: "int64_type (protoToEnvelope e)"
proof -
  have "- (2 ^ 31) \<le> sint (p_Type e)" "sint (p_Type e) < 2 ^ 31"
    using sint_ge [of "p_Type e"] sint_lt [of "p_Type e"] by simp_all
  then show ?thesis by (simp add: int64_type_def protoToEnvelope_def)
qed

text \<open>The sessions of one manager are among those of another.\<close>

definition sess_le :: "auth_manager \<Rightarrow> auth_manager \<Rightarrow> bool" where
  "sess_le am' am \<longleftrightarrow> (\<forall>k e. map_of (sessions am') k = Some e \<longrightarrow> map_of (sessions am) k = Some e)"

lemma sess_le_refl [simp, intro]: "sess_le am am"
  by (simp add: sess_le_def)

lemma sess_le_trans: "sess_le a b \<Longrightarrow> sess_le b c \<Longrightarrow> sess_le a c"
  by (simp add: sess_le_def)

lemma sess_le_sweep: "gmap_ok (sessions am) \<Longrightarrow> sessions am' = sweep_loop now (sessions am) \<Longrightarrow> sess_le am' am"
  by (auto simp: sess_le_def tt.get_sweep split: option.splits if_splits)

lemma validateToken_sess_le: "validateToken token am w = (b, am', w') \<Longrightarrow> sess_le am' am"
  by (auto simp: validateToken_def sess_le_def Let_def split: option.splits prod.splits if_splits)

text \<open>Redeeming a ticket adds at most the one session it returns.\<close>

lemma issue_session_sess_le:
  assumes "issue_session now full am w = (r, am', w')" "gmap_ok (sessions am)"
  shows "case r of Inl _ \<Rightarrow> sess_le am' am
    | Inr (token, e) \<Rightarrow> sess_le (RevokeSession token am') am \<and> map_of (sessions am') token = Some e \<and>
        (\<forall>k. k \<noteq> token \<longrightarrow> map_of (sessions am') k \<noteq> None \<longrightarrow> map_of (sessions am) k = map_of (sessions am') k)"
  using assms
  by (cases rule: issue_session_cases)
    (auto simp: sess_le_def RevokeSession_def tt.get_sweep split: option.splits if_splits)

lemma RedeemUnlockTicket_sess_le:
  assumes "RedeemUnlockTicket t am w = (r, am', w')" "gmap_ok (sessions am)"
  shows "case r of Inl _ \<Rightarrow> sess_le am' am
    | Inr (token, e) \<Rightarrow> sess_le (RevokeSession token am') am \<and> map_of (sessions am') token = Some e \<and>
        (\<forall>k. k \<noteq> token \<longrightarrow> map_of (sessions am') k \<noteq> None \<longrightarrow> map_of (sessions am) k = map_of (sessions am') k)"
proof (cases "map_of (unlockTickets am) t")
  case None
  with assms show ?thesis by (auto simp: RedeemUnlockTicket_def)
next
  case (Some e)
  obtain now w1 where now: "time_now w = (now, w1)" by force
  let ?am = "am\<lparr>unlockTickets := AList.delete t (unlockTickets am)\<rparr>"
  have le: "sess_le x ?am = sess_le x am" for x by (simp add: sess_le_def)
  from assms(1) Some now consider "now > e" "r = Inl (Errorf ''unlock ticket expired'')" "am' = ?am"
    | "issue_session now (Errorf ''too many active sessions'') ?am w1 = (r, am', w')"
    by (auto simp: RedeemUnlockTicket_def Let_def split: if_splits)
  then show ?thesis
  proof cases
    case 1
    then show ?thesis by (simp add: sess_le_def)
  next
    case 2
    from issue_session_sess_le [OF this] assms(2) show ?thesis
      by (auto simp: le split: sum.splits)
  qed
qed

lemma RecordPINFailure_sessions: "RecordPINFailure am w = (am', w') \<Longrightarrow> sessions am' = sessions am \<and>
    pinConfigured am' = pinConfigured am \<and> nonces am' = nonces am \<and> unlockTickets am' = unlockTickets am"
  by (auto simp: RecordPINFailure_def Let_def split: prod.splits)

lemma setter_fields [simp]:
  "sessions (ResetPINFailures am) = sessions am" "pinConfigured (ResetPINFailures am) = pinConfigured am"
  "pinConfigured (RevokeSession t am) = pinConfigured am" "pinConfigured (InvalidateAllSessions am) = pinConfigured am"
  "pinConfigured (SetPINConfigured b am) = b" "sessions (SetPINConfigured b am) = sessions am"
  "sessions (SetGPGFingerprint fp am) = sessions am" "pinConfigured (SetGPGFingerprint fp am) = pinConfigured am"
  "sessions (InvalidateAllSessions am) = []" "unlockTickets (RevokeSession t am) = unlockTickets am"
  "unlockTickets (ResetPINFailures am) = unlockTickets am"
  by (simp_all add: ResetPINFailures_def RevokeSession_def InvalidateAllSessions_def
      SetPINConfigured_def SetGPGFingerprint_def)

subsection \<open>The outcomes of the handlers that change the manager\<close>

lemma Authenticate_cases [consumes 1, case_names early challenge]:
  assumes "Authenticate D k s w = (r, s', w')"
  obtains (early) e where "r = Inl e" "storage s' = storage s" "auth s' = auth s" "w' = w"
    | (challenge) q am where "GenerateChallenge (auth s) w = (q, am, w')" "auth s' = am"
        "storage s' = storage s"
        "\<And>c. r = Inr c \<Longrightarrow> \<exists>nonce g. q = Inr nonce \<and>
            fst (gpg_Encrypt (d_gpg D) (FormatChallenge nonce) k g) = Inr c"
proof (cases "validateKeyID (d_unicode D) k")
  case (Some e)
  with assms show thesis by (intro early) (auto simp: Authenticate_def)
next
  case None
  obtain x g1 where x: "gpg_exec (d_gpg D) [''--batch'', ''--import''] (GPGPublicKey (auth s)) (keyring s) = (x, g1)"
    by force
  obtain v g2 where v: "VerifyKeyIDMatchesFingerprint (d_unicode D) (d_gpg D) k (GPGFingerprint (auth s))
      (GPGPublicKey (auth s)) g1 = (v, g2)" by force
  note run = assms [unfolded Authenticate_def None option.case Let_def x prod.case]
  show thesis
  proof (cases "g_err x \<noteq> None \<or> GPGFingerprint (auth s) = [] \<or> v \<noteq> None")
    case True
    with run v have "(\<exists>e. r = Inl e) \<and> storage s' = storage s \<and> auth s' = auth s \<and> w' = w"
      by (auto split: option.splits if_splits)
    with early show thesis by blast
  next
    case False
    obtain q am w1 where q: "GenerateChallenge (auth s) w = (q, am, w1)" by (rule prod_cases3)
    from False run v q have run': "(case q of Inl e \<Rightarrow> (Inl e, s\<lparr>keyring := g2, auth := am\<rparr>, w1)
        | Inr nonce \<Rightarrow> (let (c, g) = gpg_Encrypt (d_gpg D) (FormatChallenge nonce) k g2
              in (c, s\<lparr>auth := am, keyring := g\<rparr>, w1))) = (r, s', w')"
      by (auto simp: Let_def split: sum.splits prod.splits)
    then have facts: "w' = w1" "auth s' = am" "storage s' = storage s"
      by (auto simp: Let_def split: sum.splits prod.splits)
    have "\<exists>nonce g. q = Inr nonce \<and> fst (gpg_Encrypt (d_gpg D) (FormatChallenge nonce) k g) = Inr c"
      if "r = Inr c" for c
      using run' that by (auto simp: Let_def split: sum.splits prod.splits) (metis fst_conv)
    with q facts show thesis by (intro challenge) auto
  qed
qed

lemma set_new_pin_cases [consumes 1, case_names failed stored]:
  assumes "set_new_pin D newPin s w = (r, s', w')"
  obtains (failed) m where "r = Inl (StatusError Internal m)" "auth s' = auth s" "storage s' = storage s"
    | (stored) h salt w1 where "r = Inr ()" "Verify (d_kdf D) newPin h salt"
        "StorePINHash (d_bolt D) h salt (storage s) w1 = (None, storage s', w')"
        "auth s' = InvalidateAllSessions (SetPINConfigured True (auth s))"
proof (cases "Hash (d_kdf D) newPin w")
  case (Pair q w1)
  show thesis
  proof (cases q)
    case (Inl e)
    with assms Pair show thesis by (intro failed) (auto simp: set_new_pin_def)
  next
    case (Inr hs)
    obtain h salt where hs: "hs = (h, salt)" by force
    obtain x st w2 where x: "StorePINHash (d_bolt D) h salt (storage s) w1 = (x, st, w2)"
      by (rule prod_cases3)
    note run = assms [unfolded set_new_pin_def Pair prod.case Inr sum.case hs x]
    show thesis
    proof (cases x)
      case None
      with run x Hash_Verify [of "d_kdf D" newPin w h salt w1] Pair Inr hs
      show thesis by (intro stored [of h salt w1]) auto
    next
      case (Some e)
      from x Some have "st = storage s"
        by (auto simp: StorePINHash_def dest: db_update_rollback split: prod.splits)
      with run Some show thesis by (intro failed) auto
    qed
  qed
qed

lemma SetPIN_cases [consumes 1, case_names refused changed]:
  assumes "SetPIN D currentPin newPin s w = (r, s', w')"
  obtains (refused) c m where "r = Inl (StatusError c m)" "sess_le (auth s') (auth s)"
        "pinConfigured (auth s') = pinConfigured (auth s)" "storage s' = storage s"
    | (changed) h salt w1 where "r = Inr ()" "Verify (d_kdf D) newPin h salt" "validatePIN newPin = None"
        "StorePINHash (d_bolt D) h salt (storage s) w1 = (None, storage s', w')"
        "sessions (auth s') = []" "pinConfigured (auth s')"
        "\<And>h0 salt0. GetPINHash (d_bolt D) (storage s) = Inr (h0, salt0) \<Longrightarrow>
            Verify (d_kdf D) currentPin h0 salt0 \<and> fst (CheckPINRateLimit (auth s) w) = None"
proof (cases "validatePIN newPin")
  case (Some e)
  with assms show thesis by (intro refused) (auto simp: SetPIN_def)
next
  case valid: None
  show thesis
  proof (cases "GetPINHash (d_bolt D) (storage s)")
    case (Inl e)
    with assms valid have "set_new_pin D newPin s w = (r, s', w')" by (simp add: SetPIN_def)
    then show thesis
    proof (cases rule: set_new_pin_cases)
      case (failed m)
      then show thesis by (intro refused) auto
    next
      case (stored h salt w1)
      with Inl valid show thesis by (intro changed) auto
    qed
  next
    case (Inr hs)
    obtain h0 salt0 where hs: "hs = (h0, salt0)" by force
    obtain lim w1 where lim: "CheckPINRateLimit (auth s) w = (lim, w1)" by force
    note run = assms [unfolded SetPIN_def valid option.case Inr sum.case hs prod.case lim]
    show thesis
    proof (cases "lim = None \<and> Verify (d_kdf D) currentPin h0 salt0")
      case True
      with run have "set_new_pin D newPin (s\<lparr>auth := ResetPINFailures (auth s)\<rparr>) w1 = (r, s', w')" by simp
      then show thesis
      proof (cases rule: set_new_pin_cases)
        case (failed m)
        then show thesis by (intro refused) (auto simp: sess_le_def)
      next
        case (stored h salt w2)
        with True Inr hs lim valid show thesis by (intro changed) auto
      qed
    next
      case False
      have "(\<exists>c m. r = Inl (StatusError c m)) \<and> sess_le (auth s') (auth s) \<and>
          pinConfigured (auth s') = pinConfigured (auth s) \<and> storage s' = storage s"
      proof (cases lim)
        case None
        obtain am w2 where "RecordPINFailure (auth s) w1 = (am, w2)" by force
        with run False None RecordPINFailure_sessions [OF this] show ?thesis
          by (auto simp: sess_le_def)
      qed (use run in auto)
      with refused show thesis by blast
    qed
  qed
qed

lemma GetPINHash_cases: "GetPINHash B st = Inl ErrNotFound \<or> (\<exists>h salt. GetPINHash B st = Inr (h, salt))"
  by (auto simp: GetPINHash_def split: option.splits)

lemma Unlock_cases [consumes 1, case_names limited refused revoked unlocked]:
  assumes "Unlock D ticket pin s w = (r, s', w')"
  obtains (limited) m where "r = Inl (StatusError ResourceExhausted m)" "s' = s"
        "fst (CheckPINRateLimit (auth s) w) \<noteq> None"
    | (refused) m w1 e where "r = Inl (StatusError Unauthenticated m)"
        "CheckPINRateLimit (auth s) w = (None, w1)"
        "RedeemUnlockTicket ticket (auth s) w1 = (Inl e, auth s', w')" "storage s' = storage s"
    | (revoked) c m w1 token e am w2 where "r = Inl (StatusError c m)"
        "CheckPINRateLimit (auth s) w = (None, w1)"
        "RedeemUnlockTicket ticket (auth s) w1 = (Inr (token, e), am, w2)"
        "sessions (auth s') = sessions (RevokeSession token am)" "storage s' = storage s"
        "pinConfigured (auth s') = pinConfigured am" "unlockTickets (auth s') = unlockTickets am"
        "GetPINHash (d_bolt D) (storage s) = Inl ErrNotFound \<and> c = FailedPrecondition \<or>
         (\<exists>h salt. GetPINHash (d_bolt D) (storage s) = Inr (h, salt) \<and> \<not> Verify (d_kdf D) pin h salt \<and>
            c = PermissionDenied \<and> pinFailures (auth s') = pinFailures am + 1 \<and>
            pinLockedUntil (auth s') = w_clock w' + pin_backoff (pinFailures am + 1))"
    | (unlocked) w1 token e am h salt where "r = Inr (token, word_of_int (unix_of e))"
        "CheckPINRateLimit (auth s) w = (None, w1)"
        "RedeemUnlockTicket ticket (auth s) w1 = (Inr (token, e), am, w')"
        "auth s' = ResetPINFailures am" "storage s' = storage s"
        "GetPINHash (d_bolt D) (storage s) = Inr (h, salt)" "Verify (d_kdf D) pin h salt"
proof -
  obtain lim w1 where lim: "CheckPINRateLimit (auth s) w = (lim, w1)" by force
  show thesis
  proof (cases lim)
    case (Some e)
    with assms lim show thesis by (intro limited) (auto simp: Unlock_def)
  next
    case None
    obtain q am w2 where q: "RedeemUnlockTicket ticket (auth s) w1 = (q, am, w2)" by (rule prod_cases3)
    note run = assms [unfolded Unlock_def lim None prod.case option.case q]
    show thesis
    proof (cases q)
      case (Inl e)
      with run q lim None show thesis by (intro refused [of _ w1 e]) auto
    next
      case (Inr te)
      obtain token e where te: "te = (token, e)" by force
      consider (none) "GetPINHash (d_bolt D) (storage s) = Inl ErrNotFound"
        | (wrong) h salt where "GetPINHash (d_bolt D) (storage s) = Inr (h, salt)" "\<not> Verify (d_kdf D) pin h salt"
        | (right) h salt where "GetPINHash (d_bolt D) (storage s) = Inr (h, salt)" "Verify (d_kdf D) pin h salt"
        using GetPINHash_cases by blast
      then show thesis
      proof cases
        case none
        with run Inr te q lim None show thesis
          by (intro revoked [of _ _ w1 token e am w2]) auto
      next
        case (wrong h salt)
        obtain am2 w3 where rec: "RecordPINFailure am w2 = (am2, w3)" by force
        with run Inr te wrong have eqs: "r = Inl (StatusError PermissionDenied ''incorrect PIN'')"
          "s' = s\<lparr>auth := RevokeSession token am2\<rparr>" "w' = w3" by auto
        with wrong q lim None Inr te RecordPINFailure_sessions [OF rec] RecordPINFailure_locks [OF rec]
        show thesis
          by (intro revoked [of _ _ w1 token e am w2]) (auto simp: RevokeSession_def)
      next
        case (right h salt)
        with run Inr te q lim None show thesis by (intro unlocked [of token e w1 am h salt]) auto
      qed
    qed
  qed
qed

subsection \<open>The invariant\<close>

definition server_inv :: "('b, 'g) deps \<Rightarrow> ('b, 'g) server \<Rightarrow> world \<Rightarrow> bool" where
  "server_inv D s w \<longleftrightarrow> auth_inv (auth s) w \<and> store_inv (d_bolt D) (storage s)
     \<and> (pinConfigured (auth s) \<longleftrightarrow> HasPIN D s)"

lemma StorePINHash_world: "StorePINHash B h salt st w = (r, st', w') \<Longrightarrow> w' = w"
  by (auto simp: StorePINHash_def db_update_def split: prod.splits option.splits sum.splits)

lemma auth_inv_CheckPINRateLimit:
  "CheckPINRateLimit am w = (r, w') \<Longrightarrow> auth_inv am w \<Longrightarrow> auth_inv am w'"
  by (auto intro: auth_inv_clock dest: CheckPINRateLimit_clock)

lemma set_new_pin_auth_inv:
  assumes "set_new_pin D newPin s w = (r, s', w')" "auth_inv (auth s) w"
  shows "auth_inv (auth s') w'"
proof -
  obtain q w1 where q: "Hash (d_kdf D) newPin w = (q, w1)" by force
  have inv: "auth_inv (auth s) w1"
    using assms(2) Hash_world [OF q] by (auto intro: auth_inv_clock)
  show ?thesis
    using assms(1) q inv by (auto simp: set_new_pin_def dest!: StorePINHash_world intro!: auth_inv_setters
      split: sum.splits prod.splits option.splits)
qed

lemma SetPIN_auth_inv:
  assumes "SetPIN D c n s w = (r, s', w')" "auth_inv (auth s) w"
  shows "auth_inv (auth s') w'"
proof -
  obtain lim w1 where lim: "CheckPINRateLimit (auth s) w = (lim, w1)" by force
  obtain am2 w2 where f: "RecordPINFailure (auth s) w1 = (am2, w2)" by force
  have inv1: "auth_inv (auth s) w1" using auth_inv_CheckPINRateLimit [OF lim assms(2)] .
  have inv2: "auth_inv am2 w2" using auth_inv_RecordPINFailure [OF f inv1] .
  obtain r3 s3 w3 where p: "set_new_pin D n s w = (r3, s3, w3)" by (rule prod_cases3)
  obtain r4 s4 w4 where q: "set_new_pin D n (s\<lparr>auth := ResetPINFailures (auth s)\<rparr>) w1 = (r4, s4, w4)"
    by (rule prod_cases3)
  have inv3: "auth_inv (auth s3) w3" using set_new_pin_auth_inv [OF p assms(2)] .
  have inv4: "auth_inv (auth s4) w4"
    by (rule set_new_pin_auth_inv [OF q]) (simp add: auth_inv_setters(1) inv1)
  show ?thesis
    using assms lim f p q inv1 inv2 inv3 inv4
    by (auto simp: SetPIN_def split: option.splits sum.splits if_splits)
qed

lemma Unlock_auth_inv:
  assumes "Unlock D t pin s w = (r, s', w')" "auth_inv (auth s) w"
  shows "auth_inv (auth s') w'"
proof -
  obtain lim w1 where lim: "CheckPINRateLimit (auth s) w = (lim, w1)" by force
  obtain q am w2 where q: "RedeemUnlockTicket t (auth s) w1 = (q, am, w2)" by (rule prod_cases3)
  obtain am3 w3 where f: "RecordPINFailure am w2 = (am3, w3)" by force
  have inv1: "auth_inv (auth s) w1" using auth_inv_CheckPINRateLimit [OF lim assms(2)] .
  have inv2: "auth_inv am w2" using auth_inv_RedeemUnlockTicket [OF q inv1] .
  have inv3: "auth_inv am3 w3" using auth_inv_RecordPINFailure [OF f inv2] .
  show ?thesis
    using assms(1) lim q f inv1 inv2 inv3
    by (auto simp: Unlock_def split: option.splits sum.splits prod.splits if_splits)
qed

lemma db_update_world:
  assumes "db_update B body st w = (r, x, st', w')"
    and "\<And>q y w1. body st w = (q, y, w1) \<Longrightarrow> w_clock w \<le> w_clock w1"
  shows "w_clock w \<le> w_clock w'"
  using assms by (auto simp: db_update_def split: prod.splits option.splits sum.splits)

lemma Create_clock:
  assumes "Create B e st w = (r, e', st', w')"
  shows "w_clock w \<le> w_clock w'"
proof -
  obtain u w1 where u: "uuid_new w = (u, w1)" by force
  obtain now w2 where now: "time_now w1 = (now, w2)" by force
  have c: "w_clock w = w_clock w1" "w_clock w1 \<le> w_clock w2"
    using uuid_new_clock [OF u] time_now_mono [OF now] by auto
  show ?thesis
  proof (cases u)
    case None
    with assms u c show ?thesis by (auto simp: Create_def)
  next
    case (Some x)
    let ?e = "e\<lparr>ID := x, CreatedAt := now, UpdatedAt := now\<rparr>"
    have "w_clock w2 \<le> w_clock w3"
      if "db_update B (\<lambda>st w. (create_tx B ?e data st, (), w)) st w2 = (q, y, st3, w3)" for data q y st3 w3
      using that by (rule db_update_world) simp
    with assms u now c Some show ?thesis
      by (fastforce simp: Create_def Let_def split: sum.splits prod.splits option.splits)
  qed
qed

lemma update_tx_clock: "update_tx B e st w = (q, y, w1) \<Longrightarrow> w_clock w \<le> w_clock w1"
  by (auto simp: update_tx_def Let_def dest!: time_now_mono split: option.splits sum.splits prod.splits)

lemma Update_clock:
  assumes "Update B e st w = (r, e', st', w')"
  shows "w_clock w \<le> w_clock w'"
proof -
  obtain q y st1 w1 where u: "db_update B (update_tx B e) st w = (q, y, st1, w1)" by (rule prod_cases4)
  from u have "w_clock w \<le> w_clock w1" by (rule db_update_world) (rule update_tx_clock)
  with assms u show ?thesis by (auto simp: Update_def split: option.splits)
qed

lemma DeleteByID_clock: "DeleteByID B k st w = (r, st', w') \<Longrightarrow> w' = w"
  by (auto simp: DeleteByID_def db_update_def split: prod.splits option.splits sum.splits)

lemma handle_auth_inv:
  assumes "handle D req s w = (r, s', w')" "auth_inv (auth s) w"
  shows "auth_inv (auth s') w'"
proof (cases req)
  case (ReqAuthenticate k)
  obtain q where "Authenticate D k s w = (q, s', w')" using assms(1) by (auto simp: ReqAuthenticate split: prod.splits)
  then show ?thesis using assms(2) by (cases rule: Authenticate_cases) (auto intro: auth_inv_GenerateChallenge)
next
  case (ReqVerifyChallenge n)
  with assms show ?thesis
    by (auto simp: VerifyChallenge_def intro: auth_inv_VerifyNonce split: prod.splits sum.splits)
next
  case (ReqSetPIN c n)
  with assms show ?thesis by (auto intro: SetPIN_auth_inv split: prod.splits)
next
  case (ReqUnlock t p)
  with assms show ?thesis by (auto intro: Unlock_auth_inv split: prod.splits)
next
  case (ReqCreateEntry e)
  with assms show ?thesis
    by (auto simp: CreateEntry_def dest!: Create_clock intro: auth_inv_clock split: prod.splits option.splits)
next
  case (ReqUpdateEntry e)
  with assms show ?thesis
    by (auto simp: UpdateEntry_def dest!: Update_clock intro: auth_inv_clock split: prod.splits option.splits)
next
  case (ReqDeleteEntry k)
  with assms show ?thesis
    by (auto simp: DeleteEntry_def dest!: DeleteByID_clock intro: auth_inv_clock split: prod.splits option.splits)
qed (use assms in auto)

text \<open>The storage and the configured flag.\<close>

locale server_env = bbolt "d_bolt D" for D :: "('b, 'g) deps"
begin

lemma Create_auth_bucket:
  assumes "store_inv (d_bolt D) st" "fresh_uuid (d_bolt D) st w" "int64_type e"
    and "Create (d_bolt D) e st w = (r, e', st', w')"
  shows "store_inv (d_bolt D) st' \<and> bucketAuth st' = bucketAuth st"
  using assms Create_stored(1,2) [OF assms(1-3)] Create_failed [of e st w _ e' st' w']
  by (cases r) auto

lemma Update_auth_bucket:
  assumes "store_inv (d_bolt D) st" "int64_type e" "Update (d_bolt D) e st w = (r, e', st', w')"
  shows "store_inv (d_bolt D) st' \<and> bucketAuth st' = bucketAuth st"
  using assms Update_stored(3,4) [OF assms(1,2)] Update_failed [of e st w _ e' st' w']
  by (cases r) auto

lemma Delete_auth_bucket:
  assumes "store_inv (d_bolt D) st" "DeleteByID (d_bolt D) k st w = (r, st', w')"
  shows "store_inv (d_bolt D) st' \<and> bucketAuth st' = bucketAuth st"
  using assms DeleteByID_stored(3,4) [OF assms(1)] DeleteByID_failed [of k st w _ st' w']
  by (cases r) auto

lemma handle_entry_ops:
  assumes "handle D req s w = (r, s', w')" "store_inv (d_bolt D) (storage s)"
    "fresh_uuid (d_bolt D) (storage s) w"
    and "\<And>t p. req \<noteq> ReqUnlock t p" "\<And>c n. req \<noteq> ReqSetPIN c n"
  shows "store_inv (d_bolt D) (storage s') \<and> bucketAuth (storage s') = bucketAuth (storage s)
    \<and> pinConfigured (auth s') = pinConfigured (auth s)"
proof (cases req)
  case (ReqAuthenticate k)
  obtain q where "Authenticate D k s w = (q, s', w')" using assms(1) by (auto simp: ReqAuthenticate split: prod.splits)
  then show ?thesis
    using assms(2) by (cases rule: Authenticate_cases) (auto dest: GenerateChallenge_frame(1))
next
  case (ReqVerifyChallenge n)
  with assms(1,2) show ?thesis
    by (auto simp: VerifyChallenge_def dest: VerifyNonce_frame(1) split: prod.splits sum.splits)
next
  case (ReqCreateEntry e)
  with assms(1-3) show ?thesis
    by (auto simp: CreateEntry_def split: prod.splits option.splits
        dest!: Create_auth_bucket [OF assms(2,3) int64_type_proto])
next
  case (ReqUpdateEntry e)
  with assms(1,2) show ?thesis
    by (auto simp: UpdateEntry_def split: prod.splits option.splits
        dest!: Update_auth_bucket [OF assms(2) int64_type_proto])
next
  case (ReqDeleteEntry k)
  with assms(1,2) show ?thesis
    by (auto simp: DeleteEntry_def split: prod.splits option.splits dest!: Delete_auth_bucket [OF assms(2)])
qed (use assms in auto)

lemma server_inv_handle:
  assumes run: "handle D req s w = (r, s', w')" and inv: "server_inv D s w"
    and fresh: "fresh_uuid (d_bolt D) (storage s) w"
  shows "server_inv D s' w'"
proof -
  have a: "auth_inv (auth s') w'" using handle_auth_inv [OF run] inv by (simp add: server_inv_def)
  have st: "store_inv (d_bolt D) (storage s)" and pin: "pinConfigured (auth s) \<longleftrightarrow> HasPIN D s"
    using inv by (simp_all add: server_inv_def)
  consider (unlock) t p where "req = ReqUnlock t p" | (set) c n where "req = ReqSetPIN c n"
    | (other) "\<And>t p. req \<noteq> ReqUnlock t p" "\<And>c n. req \<noteq> ReqSetPIN c n" by blast
  then have "store_inv (d_bolt D) (storage s') \<and> (pinConfigured (auth s') \<longleftrightarrow> HasPIN D s')"
  proof cases
    case (unlock t p)
    with run obtain q where "Unlock D t p s w = (q, s', w')" by (auto split: prod.splits)
    then show ?thesis
      using st pin by (cases rule: Unlock_cases) (auto simp: HasPIN_def dest!: RedeemUnlockTicket_frame(1))
  next
    case (set c n)
    with run obtain q where "SetPIN D c n s w = (q, s', w')" by (auto split: prod.splits)
    then show ?thesis
    proof (cases rule: SetPIN_cases)
      case (refused c m)
      with st pin show ?thesis by (simp add: HasPIN_def)
    next
      case (changed h salt w1)
      with st StorePINHash_get [OF changed(4)] show ?thesis by (simp add: HasPIN_def)
    qed
  next
    case other
    from handle_entry_ops [OF run st fresh other] pin show ?thesis
      using GetPINHash_auth [of "storage s'" "storage s" "d_bolt D"] by (simp add: HasPIN_def)
  qed
  with a show ?thesis by (simp add: server_inv_def)
qed

lemma server_inv_validate:
  "validateToken token (auth s) w = (b, am, w') \<Longrightarrow> server_inv D s w \<Longrightarrow> server_inv D (s\<lparr>auth := am\<rparr>) w'"
  by (auto simp: server_inv_def HasPIN_def dest: auth_inv_validateToken validateToken_frame(1))

lemma server_inv_call:
  assumes run: "UnaryInterceptor D md req s w = (r, s', w')" and inv: "server_inv D s w"
    and fresh: "fresh_uuid (d_bolt D) (storage s) w"
  shows "server_inv D s' w'"
proof (cases "FullMethod req \<in> skipAuthMethods")
  case True
  with run show ?thesis
    using server_inv_handle [OF _ inv fresh] by (simp add: UnaryInterceptor_def)
next
  case False
  show ?thesis
  proof (cases "md = None \<or> md = Some []")
    case True
    with run inv False show ?thesis by (auto simp: UnaryInterceptor_def)
  next
    case more: False
    then obtain token rest where md: "md = Some (token # rest)" by (cases md; cases "the md") auto
    obtain b am w1 where v: "validateToken token (auth s) w = (b, am, w1)" by (rule prod_cases3)
    have "fresh_uuid (d_bolt D) (storage s) w1"
      using fresh fresh_uuid_world validateToken_world [OF v] by blast
    then have "server_inv D s' w'" if "b" "handle D req (s\<lparr>auth := am\<rparr>) w1 = (r, s', w')"
      using server_inv_handle [OF that(2) server_inv_validate [OF v inv]] by simp
    with run False md v server_inv_validate [OF v inv] show ?thesis
      by (cases b) (auto simp: UnaryInterceptor_def)
  qed
qed

lemma server_inv_sweep:
  "SweepExpired (auth s) w = (am, w') \<Longrightarrow> server_inv D s w \<Longrightarrow> server_inv D (s\<lparr>auth := am\<rparr>) w'"
  by (auto simp: server_inv_def HasPIN_def dest: auth_inv_SweepExpired)
    (auto simp: SweepExpired_def Let_def split: prod.splits)

lemma server_inv_New:
  assumes "store_inv (d_bolt D) st"
  shows "server_inv D (NewServer D st (NewAuthManager pk) g) w"
proof -
  have "auth_inv \<lparr>nonces = [], sessions = [], unlockTickets = [], gpgPubKey = pk,
      gpgFingerprint = fp, pinConfigured = b, pinFailures = 0, pinLockedUntil = zero_time\<rparr> w" for fp b
    by (simp add: auth_inv_def)
  then show ?thesis
    using assms
    by (auto simp: server_inv_def NewServer_def HasPIN_def Let_def
        NewAuthManager_def SetPINConfigured_def SetGPGFingerprint_def
        split: sum.splits prod.splits)
qed

end

subsection \<open>The server as a transition system\<close>

text \<open>
  Calls with any metadata and any request, in any order, and runs of the sweeper; time may
  pass before each. New identifiers are assumed not to be in use.
\<close>

inductive server_step :: "('b, 'g) deps \<Rightarrow> ('b, 'g) server \<times> world \<Rightarrow> ('b, 'g) server \<times> world \<Rightarrow> bool"
  for D where
  rpc: "w_clock w \<le> w_clock w1 \<Longrightarrow> fresh_uuid (d_bolt D) (storage s) w1 \<Longrightarrow>
    UnaryInterceptor D md req s w1 = (r, s', w') \<Longrightarrow> server_step D (s, w) (s', w')"
| swept: "w_clock w \<le> w_clock w1 \<Longrightarrow> SweepExpired (auth s) w1 = (am, w') \<Longrightarrow>
    server_step D (s, w) (s\<lparr>auth := am\<rparr>, w')"

inductive_cases server_stepE: "server_step D (s, w) (s', w')"

definition server_start :: "('b, 'g) deps \<Rightarrow> ('b, 'g) server \<times> world \<Rightarrow> bool" where
  "server_start D s \<longleftrightarrow>
     (\<exists>st pk g. store_inv (d_bolt D) st \<and> fst s = NewServer D st (NewAuthManager pk) g)"

sublocale server_env \<subseteq> run: invariant_system "server_start D" "server_step D" "\<lambda>(s, w). server_inv D s w"
proof unfold_locales
  show "case s of (s, w) \<Rightarrow> server_inv D s w" if "server_start D s" for s
    using that server_inv_New by (cases s) (auto simp: server_start_def)
  have clock: "server_inv D s w \<Longrightarrow> w_clock w \<le> w_clock w1 \<Longrightarrow> server_inv D s w1" for s w w1
    by (auto simp: server_inv_def intro: auth_inv_clock)
  show "case s' of (s, w) \<Rightarrow> server_inv D s w"
    if "case s of (s, w) \<Rightarrow> server_inv D s w" "server_step D s s'" for s s'
    using that by (cases s; cases s') (auto elim!: server_stepE
        intro: server_inv_call server_inv_sweep dest: clock)
qed

context server_env begin

lemmas run_reach_inv = run.reach_inv

end

subsection \<open>Sessions and entries\<close>

lemma skip_methods:
  "FullMethod req \<in> skipAuthMethods \<longleftrightarrow>
     (case req of ReqAuthenticate _ \<Rightarrow> True | ReqVerifyChallenge _ \<Rightarrow> True | ReqHasPIN \<Rightarrow> True
      | ReqUnlock _ _ \<Rightarrow> True | _ \<Rightarrow> False)"
  by (cases req) (simp_all add: skipAuthMethods_def)

lemma skip_handle:
  assumes "handle D req s w = (r, s', w')" "FullMethod req \<in> skipAuthMethods"
  shows "storage s' = storage s \<and> (\<forall>p. r \<noteq> Inr (EntryResponse p)) \<and> (\<forall>ps. r \<noteq> Inr (ListEntriesResponse ps))"
proof (cases req)
  case (ReqAuthenticate k)
  obtain q where q: "Authenticate D k s w = (q, s', w')" "r = map_sum id AuthChallenge q"
    using assms(1) by (auto simp: ReqAuthenticate split: prod.splits)
  from q(1) have "storage s' = storage s" by (cases rule: Authenticate_cases) auto
  with q(2) show ?thesis by (cases q) auto
next
  case (ReqVerifyChallenge n)
  with assms(1) show ?thesis by (auto simp: VerifyChallenge_def split: prod.splits sum.splits)
next
  case (ReqUnlock t p)
  obtain q where q: "Unlock D t p s w = (q, s', w')" "r = map_sum id (\<lambda>(t, e). UnlockResponse t e) q"
    using assms(1) by (auto simp: ReqUnlock split: prod.splits)
  from q(1) have "storage s' = storage s" by (cases rule: Unlock_cases) auto
  with q(2) show ?thesis by (cases q) auto
qed (use assms(1) assms(2) [unfolded skip_methods] in auto)

lemma UnaryInterceptor_cases [consumes 1, case_names open_method refused admitted]:
  assumes "UnaryInterceptor D md req s w = (r, s', w')"
  obtains (open_method) "FullMethod req \<in> skipAuthMethods" "handle D req s w = (r, s', w')"
    | (refused) m where "FullMethod req \<notin> skipAuthMethods" "r = Inl (StatusError Unauthenticated m)"
        "storage s' = storage s" "sess_le (auth s') (auth s)"
        "md = None \<or> md = Some [] \<or>
         (\<exists>token rest. md = Some (token # rest) \<and> \<not> session_live (auth s) (fst (time_now w)) token)"
    | (admitted) token rest am w1 where "FullMethod req \<notin> skipAuthMethods" "md = Some (token # rest)"
        "session_live (auth s) (fst (time_now w)) token" "validateToken token (auth s) w = (True, am, w1)"
        "handle D req (s\<lparr>auth := am\<rparr>) w1 = (r, s', w')"
proof (cases "FullMethod req \<in> skipAuthMethods")
  case True
  with assms show thesis by (intro open_method) (auto simp: UnaryInterceptor_def)
next
  case False
  show thesis
  proof (cases "md = None \<or> md = Some []")
    case True
    with assms False have "\<exists>m. r = Inl (StatusError Unauthenticated m)" "s' = s"
      by (auto simp: UnaryInterceptor_def)
    with True False refused show thesis by auto
  next
    case more: False
    then obtain token rest where md: "md = Some (token # rest)" by (cases md; cases "the md") auto
    obtain b am w1 where v: "validateToken token (auth s) w = (b, am, w1)" by (rule prod_cases3)
    have live: "b = session_live (auth s) (fst (time_now w)) token"
      using validateToken_live [of token "auth s" w] v by simp
    show thesis
    proof (cases b)
      case True
      with assms False md v live show thesis by (intro admitted) (auto simp: UnaryInterceptor_def)
    next
      case b: False
      with assms False md v have "\<exists>m. r = Inl (StatusError Unauthenticated m)" "s' = s\<lparr>auth := am\<rparr>"
        by (auto simp: UnaryInterceptor_def)
      with b False md live validateToken_sess_le [OF v] refused show thesis by auto
    qed
  qed
qed

lemma handle_sess_le:
  assumes run: "handle D req s w = (r, s', w')" and ok: "gmap_ok (sessions (auth s))"
    and pin: "pinConfigured (auth s)"
  shows "sess_le (auth s') (auth s) \<or>
    (\<exists>t p token e h salt w1 am. req = ReqUnlock t p \<and> r = Inr (UnlockResponse token (word_of_int (unix_of e))) \<and>
       GetPINHash (d_bolt D) (storage s) = Inr (h, salt) \<and> Verify (d_kdf D) p h salt \<and>
       RedeemUnlockTicket t (auth s) w1 = (Inr (token, e), am, w') \<and> sessions (auth s') = sessions am)"
proof (cases req)
  case (ReqAuthenticate k)
  obtain q where "Authenticate D k s w = (q, s', w')" using run by (auto simp: ReqAuthenticate split: prod.splits)
  then show ?thesis
    by (cases rule: Authenticate_cases) (auto simp: sess_le_def dest: GenerateChallenge_frame(6))
next
  case (ReqVerifyChallenge n)
  with run pin show ?thesis
    by (auto simp: VerifyChallenge_def sess_le_def dest: VerifyNonce_pin_sessions split: prod.splits sum.splits)
next
  case (ReqSetPIN c n)
  with run obtain q where "SetPIN D c n s w = (q, s', w')" by (auto split: prod.splits)
  then show ?thesis by (cases rule: SetPIN_cases) (auto simp: sess_le_def)
next
  case (ReqUnlock t p)
  with run obtain q where q: "Unlock D t p s w = (q, s', w')" "r = map_sum id (\<lambda>(t, e). UnlockResponse t e) q"
    by (auto split: prod.splits)
  from q(1) show ?thesis
  proof (cases rule: Unlock_cases)
    case (limited m)
    then show ?thesis by simp
  next
    case (refused m w1 e)
    with RedeemUnlockTicket_sess_le [OF refused(3) ok] show ?thesis by simp
  next
    case (revoked c m w1 token e am w2)
    with RedeemUnlockTicket_sess_le [OF revoked(3) ok] show ?thesis by (simp add: sess_le_def)
  next
    case (unlocked w1 token e am h salt)
    with q(2) ReqUnlock show ?thesis by auto
  qed
qed (use run in \<open>auto simp: CreateEntry_def UpdateEntry_def DeleteEntry_def split: prod.splits option.splits\<close>)

subsection \<open>Runs of calls\<close>

fun server_calls :: "('b, 'g) deps \<Rightarrow> (string list option \<times> request) list \<Rightarrow> ('b, 'g) server \<Rightarrow> world \<Rightarrow>
    ('b, 'g) server \<times> world" where
  "server_calls D [] s w = (s, w)"
| "server_calls D ((md, req) # cs) s w =
     (case UnaryInterceptor D md req s w of (_, s, w) \<Rightarrow> server_calls D cs s w)"

text \<open>No call of the run draws an identifier.\<close>

fun no_uuid_run :: "('b, 'g) deps \<Rightarrow> (string list option \<times> request) list \<Rightarrow> ('b, 'g) server \<Rightarrow> world \<Rightarrow> bool" where
  "no_uuid_run D [] s w = True"
| "no_uuid_run D ((md, req) # cs) s w =
     (w_uuid w = [] \<and> (case UnaryInterceptor D md req s w of (_, s, w) \<Rightarrow> no_uuid_run D cs s w))"

lemma server_calls_reach:
  "reach_from (server_start D) (server_step D) (s, w) \<Longrightarrow> no_uuid_run D cs s w \<Longrightarrow>
   reach_from (server_start D) (server_step D) (server_calls D cs s w)"
proof (induction D cs s w rule: server_calls.induct)
  case (2 D md req cs s w)
  obtain r s1 w1 where u: "UnaryInterceptor D md req s w = (r, s1, w1)" by (rule prod_cases3)
  have "fresh_uuid (d_bolt D) (storage s) w"
    using "2.prems"(2) by (simp add: fresh_uuid_def uuid_new_def)
  then have "server_step D (s, w) (s1, w1)" by (rule rpc [OF order_refl _ u])
  with 2 u show ?case by (auto intro: reach_trans)
qed simp

definition demo_deps :: "((bytes, bytes) rbt, unit) deps" where
  "demo_deps = \<lparr>d_bolt = rbt_bolt, d_kdf = (\<lambda>pin salt _ _ _ _. pin @ salt),
     d_unicode = ascii_unicode, d_gpg = demo_gpg\<rparr>"

lemma demo_deps_bolt: "bbolt (d_bolt demo_deps)"
  by (simp add: demo_deps_def rb.bbolt_axioms)

interpretation demo_env: server_env demo_deps
  by (simp add: server_env_def demo_deps_bolt)

definition demo_server :: "((bytes, bytes) rbt, unit) server" where
  "demo_server = NewServer demo_deps demo_store (NewAuthManager []) ()"

text \<open>The tokens of the world: the n-th random string is n, n, ..., in hexadecimal.\<close>

definition demo_rand_world :: world where
  "demo_rand_world = \<lparr>w_clock = 1735689600 * second, w_ticks = [],
     w_rand = map (\<lambda>n. Some (replicate 32 (char_of n))) [1::nat, 2, 3, 4, 5, 6, 7, 8], w_uuid = []\<rparr>"

definition nth_token :: "nat \<Rightarrow> string" where
  "nth_token n = hex_encode (replicate 32 (char_of n))"

text \<open>Log in, set a PIN, and come back up to the unlock ticket.\<close>

definition demo_calls :: "(string list option \<times> request) list" where
  "demo_calls = [(None, ReqAuthenticate ''me''), (None, ReqVerifyChallenge (nth_token 1)),
     (Some [nth_token 2], ReqSetPIN [] ''1234''),
     (None, ReqAuthenticate ''me''), (None, ReqVerifyChallenge (nth_token 4))]"

definition demo_state :: "((bytes, bytes) rbt, unit) server \<times> world" where
  "demo_state = server_calls demo_deps demo_calls demo_server demo_rand_world"

lemma demo_state_reach: "reach_from (server_start demo_deps) (server_step demo_deps) demo_state"
  unfolding demo_state_def
proof (rule server_calls_reach)
  show "reach_from (server_start demo_deps) (server_step demo_deps) (demo_server, demo_rand_world)"
    using demo_store_inv
    by (intro reach_start) (auto simp: server_start_def demo_server_def demo_deps_def)
  show "no_uuid_run demo_deps demo_calls demo_server demo_rand_world" by code_simp
qed

text \<open>What the witnesses below read off that state, in one conjunction so that it is evaluated once.\<close>

definition demo_observe :: "((bytes, bytes) rbt, unit) server \<times> world \<Rightarrow> bool" where
  "demo_observe x \<longleftrightarrow>
     HasPIN demo_deps (fst x) \<and> distinct (map fst (sessions (auth (fst x)))) \<and> pinFailures (auth (fst x)) = 0 \<and>
     map_of (sessions (auth (fst x))) (nth_token 6) = None \<and>
     map_of (sessions (auth (fst (snd (UnaryInterceptor demo_deps None (ReqUnlock (nth_token 5) ''1234'')
       (fst x) (snd x)))))) (nth_token 6) \<noteq> None \<and>
     fst (handle demo_deps (ReqSetPIN ''1234'' ''567890'') (fst x) (snd x)) = Inr SetPINResponse \<and>
     fst (Unlock demo_deps (nth_token 5) ''0000'' (fst x) (snd x))
       = Inl (StatusError PermissionDenied ''incorrect PIN'') \<and>
     w_ticks (snd (snd (Unlock demo_deps (nth_token 5) ''0000'' (fst x) (snd x)))) = []"

lemma demo_observed: "demo_observe demo_state"
  by code_simp

lemmas demo_facts = demo_observed [unfolded demo_observe_def]

subsection \<open>Properties\<close>

text \<open>
  C11: No entry is changed or shown without a session: a call that changes anything in the
  storage, or answers with an entry or a list of entries, carried in its metadata a token
  that was live when the interceptor looked at it.
\<close>

theorem entries_need_session:
  assumes "UnaryInterceptor D md req s w = (r, s', w')"
    and "storage s' \<noteq> storage s \<or> (\<exists>p. r = Inr (EntryResponse p)) \<or> (\<exists>ps. r = Inr (ListEntriesResponse ps))"
  shows "\<exists>token rest. md = Some (token # rest) \<and> session_live (auth s) (fst (time_now w)) token"
  using assms(1)
proof (cases rule: UnaryInterceptor_cases)
  case open_method
  with skip_handle [OF open_method(2,1)] assms(2) show ?thesis by blast
qed (use assms(2) in auto)

theorem entries_need_session_witness:
  "\<exists>r s' w'. UnaryInterceptor demo_deps (Some [nth_token 2]) (ReqListEntries 0)
       (fst (server_calls demo_deps (take 2 demo_calls) demo_server demo_rand_world))
       (snd (server_calls demo_deps (take 2 demo_calls) demo_server demo_rand_world))
       = (Inr (ListEntriesResponse r), s', w')
     \<and> (\<exists>now. session_live (auth (fst (server_calls demo_deps (take 2 demo_calls) demo_server demo_rand_world)))
            now (nth_token 2))"
proof -
  let ?s = "server_calls demo_deps (take 2 demo_calls) demo_server demo_rand_world"
  let ?c = "UnaryInterceptor demo_deps (Some [nth_token 2]) (ReqListEntries 0) (fst ?s) (snd ?s)"
  obtain r s' w' where run: "?c = (r, s', w')" by (rule prod_cases3)
  have "fst ?c = Inr (ListEntriesResponse [])" by code_simp
  then have r: "r = Inr (ListEntriesResponse [])" unfolding run by simp
  from entries_need_session [OF run] r have
    "session_live (auth (fst ?s)) (fst (time_now (snd ?s))) (nth_token 2)" by auto
  with run r show ?thesis by blast
qed

text \<open>
  C12: While a PIN is configured a session can only come from the right PIN: if a call, in
  any state the server can reach, leaves a session for a token that had none before, it was
  an unlock with a ticket the server had issued and with a PIN that matches the stored hash,
  and the token is the one in its answer.
\<close>

theorem sessions_need_pin:
  assumes "bbolt (d_bolt D)" "reach_from (server_start D) (server_step D) (s, w)" "HasPIN D s"
    and "UnaryInterceptor D md req s w = (r, s', w')"
    and "map_of (sessions (auth s)) token = None" "map_of (sessions (auth s')) token \<noteq> None"
  shows "\<exists>ticket pin h salt e. req = ReqUnlock ticket pin \<and> r = Inr (UnlockResponse token e) \<and>
    map_of (unlockTickets (auth s)) ticket \<noteq> None \<and>
    GetPINHash (d_bolt D) (storage s) = Inr (h, salt) \<and> Verify (d_kdf D) pin h salt"
proof -
  have inv: "server_inv D s w"
    using server_env.run_reach_inv [OF _ assms(2)] assms(1) by (simp add: server_env_def)
  then have pin: "pinConfigured (auth s)" and ok: "gmap_ok (sessions (auth s))"
    using assms(3) by (simp_all add: server_inv_def auth_inv_def)
  have new: "\<not> sess_le (auth s') (auth s)"
    using assms(5,6) unfolding sess_le_def by (metis option.distinct(1) not_None_eq)
  from assms(4) show ?thesis
  proof (cases rule: UnaryInterceptor_cases)
    case open_method
    from handle_sess_le [OF open_method(2) ok pin] new obtain t p tok e h salt w1 am where
      u: "req = ReqUnlock t p" "r = Inr (UnlockResponse tok (word_of_int (unix_of e)))"
        "GetPINHash (d_bolt D) (storage s) = Inr (h, salt)" "Verify (d_kdf D) p h salt"
        "RedeemUnlockTicket t (auth s) w1 = (Inr (tok, e), am, w')" "sessions (auth s') = sessions am"
      by blast
    have "tok = token" using RedeemUnlockTicket_sess_le [OF u(5) ok] assms(5,6) u(6) by auto
    moreover have "map_of (unlockTickets (auth s)) t \<noteq> None"
      using u(5) by (cases "map_of (unlockTickets (auth s)) t") (auto simp: RedeemUnlockTicket_def)
    ultimately show ?thesis using u by blast
  next
    case (admitted tok rest am w1)
    note le = validateToken_sess_le [OF admitted(4)]
    have "gmap_ok (sessions am)" "pinConfigured am"
      using auth_inv_validateToken [OF admitted(4)] inv validateToken_frame(1) [OF admitted(4)] pin
      by (auto simp: server_inv_def auth_inv_def)
    with handle_sess_le [OF admitted(5)] le new admitted(1) show ?thesis
      by (auto simp: skip_methods dest: sess_le_trans)
  qed (use new in auto)
qed

theorem sessions_need_pin_witness:
  "\<exists>r s' w'. UnaryInterceptor demo_deps None (ReqUnlock (nth_token 5) ''1234'') (fst demo_state) (snd demo_state)
       = (r, s', w')
     \<and> map_of (sessions (auth s')) (nth_token 6) \<noteq> None
     \<and> (\<exists>h salt. GetPINHash rbt_bolt (storage (fst demo_state)) = Inr (h, salt)
          \<and> Verify (d_kdf demo_deps) ''1234'' h salt)"
proof -
  let ?c = "UnaryInterceptor demo_deps None (ReqUnlock (nth_token 5) ''1234'') (fst demo_state) (snd demo_state)"
  obtain r s' w' where run: "?c = (r, s', w')" by (rule prod_cases3)
  have reach: "reach_from (server_start demo_deps) (server_step demo_deps) (fst demo_state, snd demo_state)"
    using demo_state_reach by (simp only: prod.collapse)
  have pin: "HasPIN demo_deps (fst demo_state)" using demo_facts by blast
  have old: "map_of (sessions (auth (fst demo_state))) (nth_token 6) = None" using demo_facts by blast
  have "map_of (sessions (auth (fst (snd ?c)))) (nth_token 6) \<noteq> None" using demo_facts by blast
  then have new: "map_of (sessions (auth s')) (nth_token 6) \<noteq> None" unfolding run by simp
  from sessions_need_pin [OF demo_deps_bolt reach pin run old new] run new show ?thesis
    by (auto simp: demo_deps_def)
qed

text \<open>
  C16: Changing the PIN takes effect at once and for everyone: when a call to set the PIN
  succeeds, the new PIN has four to six bytes and matches what is stored, the current PIN
  that was given matched what was stored before (if anything was), the server knows that a
  PIN is configured, and no session is left, so that every later call that needs one is
  refused, whatever token it carries.
\<close>

theorem set_pin_effect:
  assumes "bbolt (d_bolt D)" "handle D (ReqSetPIN currentPin newPin) s w = (Inr SetPINResponse, s', w')"
  shows "4 \<le> length newPin \<and> length newPin \<le> 6
    \<and> (\<exists>h salt. GetPINHash (d_bolt D) (storage s') = Inr (h, salt) \<and> Verify (d_kdf D) newPin h salt)
    \<and> (\<forall>h salt. GetPINHash (d_bolt D) (storage s) = Inr (h, salt) \<longrightarrow> Verify (d_kdf D) currentPin h salt)
    \<and> pinConfigured (auth s')
    \<and> (\<forall>md req w2. FullMethod req \<notin> skipAuthMethods \<longrightarrow>
         error_code (projl (fst (UnaryInterceptor D md req s' w2))) = Unauthenticated \<and>
         isl (fst (UnaryInterceptor D md req s' w2)))"
proof -
  from assms(2) have set: "SetPIN D currentPin newPin s w = (Inr (), s', w')"
    by (auto split: prod.splits) (metis (full_types) map_sum.simps(1) old.sum.distinct(1) old.unit.exhaust sum.exhaust)
  then show ?thesis
  proof (cases rule: SetPIN_cases)
    case (changed h salt w1)
    have none: "validateToken token (auth s') w2 = (False, auth s', w2)" for token w2
      using changed(5) by (simp add: validateToken_def)
    have "4 \<le> length newPin \<and> length newPin \<le> 6"
      using changed(3) by (auto simp: validatePIN_def split: if_splits)
    moreover have "GetPINHash (d_bolt D) (storage s') = Inr (h, salt)"
      by (rule bbolt.StorePINHash_get(1) [OF assms(1) changed(4)])
    ultimately show ?thesis
      using changed by (auto simp: UnaryInterceptor_def none split: option.splits list.splits)
  qed simp
qed

theorem set_pin_effect_witness:
  "\<exists>s' w'. handle demo_deps (ReqSetPIN ''1234'' ''567890'') (fst demo_state) (snd demo_state)
       = (Inr SetPINResponse, s', w') \<and> pinConfigured (auth s')"
proof -
  let ?c = "handle demo_deps (ReqSetPIN ''1234'' ''567890'') (fst demo_state) (snd demo_state)"
  obtain r s' w' where run: "?c = (r, s', w')" by (rule prod_cases3)
  have "fst ?c = Inr SetPINResponse" using demo_facts by blast
  with run have r: "?c = (Inr SetPINResponse, s', w')" by simp
  from set_pin_effect [OF demo_deps_bolt r] r show ?thesis by blast
qed

text \<open>
  C17: One wrong PIN uses up the ticket and starts the back-off: after an unlock was refused
  for its PIN no session has been added; until two seconds (doubling with each failure, at
  most a minute) have passed, every unlock on the state left behind or on any later state
  whose lock is still that one, with whatever ticket and PIN, a fresh ticket and the right PIN
  included, is refused as rate limited and changes nothing, so that the fresh ticket is kept;
  and from then on an unlock with the same ticket is refused as unauthenticated, even with the
  right PIN.
\<close>

theorem wrong_pin_burns_ticket:
  assumes "gmap_ok (sessions (auth s))"
    and "Unlock D ticket pin s w = (Inl (StatusError PermissionDenied m), s', w')"
  shows "sess_le (auth s') (auth s) \<and> storage s' = storage s
    \<and> pinFailures (auth s') = pinFailures (auth s) + 1
    \<and> (fst (time_now w2) < w_clock w' + pin_backoff (pinFailures (auth s) + 1) \<longrightarrow>
        (\<forall>s2 ticket3 pin3. pinLockedUntil (auth s2) = pinLockedUntil (auth s') \<longrightarrow>
          (\<exists>m' w3. Unlock D ticket3 pin3 s2 w2 = (Inl (StatusError ResourceExhausted m'), s2, w3))))
    \<and> (w_clock w' + pin_backoff (pinFailures (auth s) + 1) \<le> fst (time_now w2) \<longrightarrow>
        fst (Unlock D ticket pin2 s' w2)
          = Inl (StatusError Unauthenticated ''invalid unlock ticket: invalid or expired unlock ticket''))"
  using assms(2)
proof (cases rule: Unlock_cases)
  case (revoked c m1 w1 token e am w3)
  note fr = RedeemUnlockTicket_frame(2) [OF revoked(3)]
  from revoked fr have fail: "pinFailures (auth s') = pinFailures (auth s) + 1"
    and lock: "pinLockedUntil (auth s') = w_clock w' + pin_backoff (pinFailures (auth s) + 1)"
    by auto
  have gone: "map_of (unlockTickets (auth s')) ticket = None"
    using RedeemUnlockTicket_consumed [OF revoked(3)] revoked(7) by simp
  have le: "sess_le (auth s') (auth s)"
    using RedeemUnlockTicket_sess_le [OF revoked(3) assms(1)] revoked(4) by (simp add: sess_le_def)
  obtain lim w4 where lim: "CheckPINRateLimit (auth s') w2 = (lim, w4)" by force
  have free: "lim = None \<longleftrightarrow> w_clock w' + pin_backoff (pinFailures (auth s) + 1) \<le> fst (time_now w2)"
    using CheckPINRateLimit_iff [of "auth s'" w2] lim lock by simp
  have locked: "\<exists>m' w3. Unlock D ticket2 pin2 s2 w2 = (Inl (StatusError ResourceExhausted m'), s2, w3)"
    if "pinLockedUntil (auth s2) = pinLockedUntil (auth s')" "lim \<noteq> None" for s2 ticket2 pin2
  proof -
    have "fst (CheckPINRateLimit (auth s2) w2) \<noteq> None"
      using that lim CheckPINRateLimit_iff [of "auth s2" w2] CheckPINRateLimit_iff [of "auth s'" w2] by auto
    then show ?thesis by (auto simp: Unlock_def split: prod.splits option.splits)
  qed
  have unauth: "fst (Unlock D ticket pin2 s' w2)
      = Inl (StatusError Unauthenticated ''invalid unlock ticket: invalid or expired unlock ticket'')"
    if "lim = None"
    using that lim gone by (simp add: Unlock_def RedeemUnlockTicket_def)
  have "fst (time_now w2) < w_clock w' + pin_backoff (pinFailures (auth s) + 1) \<Longrightarrow> lim \<noteq> None"
    using free by simp
  with locked fail le revoked(5) free unauth show ?thesis by auto
qed auto

theorem wrong_pin_burns_ticket_witness:
  "\<exists>s' w'. Unlock demo_deps (nth_token 5) ''0000'' (fst demo_state) (snd demo_state)
       = (Inl (StatusError PermissionDenied ''incorrect PIN''), s', w')
     \<and> (\<exists>m' w3. Unlock demo_deps ''fresh'' ''1234''
            (s'\<lparr>auth := (auth s')\<lparr>unlockTickets := [(''fresh'', w_clock w' + 30 * second)]\<rparr>\<rparr>)
            (w'\<lparr>w_clock := w_clock w' + second\<rparr>)
          = (Inl (StatusError ResourceExhausted m'),
             s'\<lparr>auth := (auth s')\<lparr>unlockTickets := [(''fresh'', w_clock w' + 30 * second)]\<rparr>\<rparr>, w3))
     \<and> fst (Unlock demo_deps (nth_token 5) ''1234'' s' (w'\<lparr>w_clock := w_clock w' + 2 * second\<rparr>))
       = Inl (StatusError Unauthenticated ''invalid unlock ticket: invalid or expired unlock ticket'')"
proof -
  let ?c = "Unlock demo_deps (nth_token 5) ''0000'' (fst demo_state) (snd demo_state)"
  obtain r s' w' where run: "?c = (r, s', w')" by (rule prod_cases3)
  have "fst ?c = Inl (StatusError PermissionDenied ''incorrect PIN'')" using demo_facts by blast
  with run have r: "?c = (Inl (StatusError PermissionDenied ''incorrect PIN''), s', w')" by simp
  have ok: "gmap_ok (sessions (auth (fst demo_state)))" unfolding gmap_ok_def using demo_facts by blast
  have "w_ticks (snd (snd ?c)) = []" using demo_facts by blast
  then have "w_ticks w' = []" unfolding run by simp
  then have t: "fst (time_now (w'\<lparr>w_clock := w_clock w' + 2 * second\<rparr>)) = w_clock w' + 2 * second"
    and t1: "fst (time_now (w'\<lparr>w_clock := w_clock w' + second\<rparr>)) = w_clock w' + second"
    by (simp_all add: time_now_def)
  have "pinFailures (auth (fst demo_state)) = 0" using demo_facts by blast
  then have b: "pin_backoff (pinFailures (auth (fst demo_state)) + 1) = 2 * second" "0 < second"
    by (simp_all add: pin_backoff_def pinLockoutBase_def pinLockoutMax_def)
  let ?s2 = "s'\<lparr>auth := (auth s')\<lparr>unlockTickets := [(''fresh'', w_clock w' + 30 * second)]\<rparr>\<rparr>"
  have "pinLockedUntil (auth ?s2) = pinLockedUntil (auth s')" by simp
  with wrong_pin_burns_ticket [OF ok r, of "w'\<lparr>w_clock := w_clock w' + second\<rparr>" "''1234''"] t1 b
  have "\<exists>m' w3. Unlock demo_deps ''fresh'' ''1234'' ?s2 (w'\<lparr>w_clock := w_clock w' + second\<rparr>)
      = (Inl (StatusError ResourceExhausted m'), ?s2, w3)"
    by simp
  with wrong_pin_burns_ticket [OF ok r, of "w'\<lparr>w_clock := w_clock w' + 2 * second\<rparr>" "''1234''"] t b(1) r
  show ?thesis by auto
qed

lemma CreateEntry_then_GetEntry:
  assumes "bbolt (d_bolt D)" "store_inv (d_bolt D) (storage s)" "fresh_uuid (d_bolt D) (storage s) w"
    and "CreateEntry D (Some p) s w = (Inr eid, s', w')"
  shows "\<exists>q. GetEntry D eid s' = Inr q \<and> p_Id q = eid \<and> p_Type q = p_Type p \<and> p_Payload q = p_Payload p
    \<and> p_Name q = utf8_clean (p_Name p) \<and> p_Meta q = json_meta (p_Meta p)
    \<and> p_CreatedAt q = word_of_int (unix_of (w_clock w'))
    \<and> p_UpdatedAt q = word_of_int (unix_of (w_clock w'))"
proof -
  obtain e' st' where c: "Create (d_bolt D) (protoToEnvelope p) (storage s) w = (None, e', st', w')"
    and s': "s' = s\<lparr>storage := st'\<rparr>" "eid = ID e'"
    using assms(4) by (auto simp: CreateEntry_def split: prod.splits option.splits)
  note law = bbolt.port_create_law [OF assms(1-3) int64_type_proto c]
    and get = bbolt.get_after_create(1) [OF assms(1-3) int64_type_proto c]
    and key = bbolt.Create_stored(6) [OF assms(1-3) int64_type_proto c]
  from law obtain u t where e': "e' = (protoToEnvelope p)\<lparr>ID := u, CreatedAt := t, UpdatedAt := t\<rparr>" "t = w_clock w'"
    by blast
  from key have "utf8_clean (ID e') = ID e'" by simp
  with get e' show ?thesis
    by (simp add: GetEntry_def s' envelopeToProto_def protoToEnvelope_def)
qed

text \<open>
  C18: What a client stores through the server it gets back: reading an entry by the
  identifier that its creation returned gives its type and payload unchanged, its name and
  metadata in the form JSON keeps, and both its times, of creation and of the last update, are
  the second of the call.
\<close>

theorem created_entry_read_back:
  assumes "bbolt (d_bolt D)" "store_inv (d_bolt D) (storage s)" "fresh_uuid (d_bolt D) (storage s) w"
    and "CreateEntry D (Some p) s w = (Inr eid, s', w')"
  shows "\<exists>q. GetEntry D eid s' = Inr q \<and> p_Id q = eid \<and> p_Type q = p_Type p \<and> p_Payload q = p_Payload p
    \<and> p_Name q = utf8_clean (p_Name p) \<and> p_Meta q = json_meta (p_Meta p)
    \<and> p_CreatedAt q = word_of_int (unix_of (w_clock w'))
    \<and> p_UpdatedAt q = word_of_int (unix_of (w_clock w'))"
  using assms by (rule CreateEntry_then_GetEntry)

definition demo_proto :: proto_entry where
  "demo_proto = \<lparr>p_Id = [], p_Name = ''mail'', p_Type = 1, p_Meta = [], p_Payload = ''cipher'',
     p_CreatedAt = 0, p_UpdatedAt = 0\<rparr>"

theorem created_entry_read_back_witness:
  "\<exists>eid s' w' q. CreateEntry demo_deps (Some demo_proto) demo_server demo_store_world = (Inr eid, s', w')
     \<and> GetEntry demo_deps eid s' = Inr q \<and> p_Payload q = ''cipher''"
proof -
  let ?c = "CreateEntry demo_deps (Some demo_proto) demo_server demo_store_world"
  obtain r s' w' where run: "?c = (r, s', w')" by (rule prod_cases3)
  have "\<not> isl (fst ?c)" by code_simp
  then obtain eid where "r = Inr eid" unfolding run by (cases r) auto
  with run have r: "?c = (Inr eid, s', w')" by simp
  have "storage demo_server = demo_store"
    by (simp add: demo_server_def NewServer_def Let_def split: prod.splits)
  then have "store_inv (d_bolt demo_deps) (storage demo_server)"
    "fresh_uuid (d_bolt demo_deps) (storage demo_server) demo_store_world"
    using demo_store_inv demo_fresh by (simp_all add: demo_deps_def)
  from created_entry_read_back [OF demo_deps_bolt this r] r show ?thesis
    by (auto simp: demo_proto_def)
qed

end
