(* ===== verification/Grpc_Client.thy ===== *)
theory Grpc_Client
  imports Server
begin

text \<open>
  \<^verbatim>\<open>internal/adapters/grpc/client.go\<close> and \<^verbatim>\<open>internal/domain/service/vault.go\<close>: the
  client of the service and the vault, which encrypts what it sends. What lies outside the
  repository is the record \<open>client_env\<close>: the generated stub with the network and the server
  behind it (a call takes the values of the \<^verbatim>\<open>authorization\<close> metadata and the request), the
  gpg program, the files of the user and the YAML library. The state of a client process is
  the record \<open>client\<close>.
\<close>

datatype health = HealthUnknown | Serving | NotServing | ServiceUnknown

fun health_name :: "health \<Rightarrow> string" where
  "health_name HealthUnknown = ''UNKNOWN''"
| "health_name Serving = ''SERVING''"
| "health_name NotServing = ''NOT_SERVING''"
| "health_name ServiceUnknown = ''SERVICE_UNKNOWN''"

record ('n, 'g, 'f) client_env =
  e_dial :: "string \<Rightarrow> go_error option"
  e_call :: "string list \<Rightarrow> request \<Rightarrow> 'n \<Rightarrow> (go_error + response) \<times> 'n"
  e_health :: "'n \<Rightarrow> (go_error + health) \<times> 'n"
  e_close :: "'n \<Rightarrow> go_error option \<times> 'n"
  e_gpg :: "'g gpg"
  e_read_file :: "string \<Rightarrow> 'f \<Rightarrow> go_error + bytes"
  e_write_file :: "string \<Rightarrow> bytes \<Rightarrow> 'f \<Rightarrow> go_error option \<times> 'f"
  e_mkdir_all :: "string \<Rightarrow> 'f \<Rightarrow> go_error option \<times> 'f"
  e_remove :: "string \<Rightarrow> 'f \<Rightarrow> go_error option \<times> 'f"
  e_yaml_marshal :: "string \<times> time \<Rightarrow> go_error + bytes"
  e_yaml_unmarshal :: "bytes \<Rightarrow> go_error + string \<times> time"

record ('n, 'g, 'f) client =
  cl_net :: 'n
  cl_home :: 'g
  cl_clock :: world
  cl_files :: 'f
  cl_token :: string

record auth_result =
  ar_Token :: string
  ar_RequiresPIN :: bool
  ar_UnlockTicket :: string
  ar_ExpiresAt :: time

subsection \<open>Calls\<close>

text \<open>The generated stub gives an answer of the type of the method.\<close>

definition wrong_answer :: go_error where
  "wrong_answer = StatusError Internal ''unexpected message type''"

definition rpc :: "('n, 'g, 'f) client_env \<Rightarrow> string list \<Rightarrow> request \<Rightarrow> ('n, 'g, 'f) client \<Rightarrow>
    (go_error + response) \<times> ('n, 'g, 'f) client" where
  "rpc E md req c = (let (r, n) = e_call E md req (cl_net c) in (r, c\<lparr>cl_net := n\<rparr>))"

definition NewClient :: "('n, 'g, 'f) client_env \<Rightarrow> string \<Rightarrow> ('n, 'g, 'f) client \<Rightarrow>
    go_error + ('n, 'g, 'f) client" where
  "NewClient E addr c =
     (case e_dial E addr of
        Some e \<Rightarrow> Inl (WrapErr ''failed to connect to server'' e)
      | None \<Rightarrow> Inr (c\<lparr>cl_token := []\<rparr>))"

definition authedCtx :: "('n, 'g, 'f) client \<Rightarrow> string list" where
  "authedCtx c = (if cl_token c = [] then [] else [cl_token c])"

definition SetToken :: "string \<Rightarrow> ('n, 'g, 'f) client \<Rightarrow> ('n, 'g, 'f) client" where
  "SetToken t c = c\<lparr>cl_token := t\<rparr>"

text \<open>The callback that reads the nonce out of the decrypted challenge.\<close>

definition parse_challenge :: "bytes \<Rightarrow> string \<Rightarrow> string" where
  "parse_challenge plaintext nonce =
     (let parts = split2 plaintext (CHR '':'')
      in if length parts \<noteq> 2 \<or> parts ! 0 \<noteq> ''sekeve-challenge'' then nonce else parts ! 1)"

definition verify_challenge :: "('n, 'g, 'f) client_env \<Rightarrow> string \<Rightarrow> ('n, 'g, 'f) client \<Rightarrow>
    (go_error + auth_result) \<times> ('n, 'g, 'f) client" where
  "verify_challenge E nonce c =
     (case rpc E [] (ReqVerifyChallenge nonce) c of
        (Inl e, c) \<Rightarrow> (Inl (WrapErr ''failed to verify challenge'' e), c)
      | (Inr (SessionToken r), c) \<Rightarrow>
          if t_RequiresPin r
          then (Inr \<lparr>ar_Token = [], ar_RequiresPIN = True, ar_UnlockTicket = t_UnlockTicket r,
                     ar_ExpiresAt = zero_time\<rparr>, c)
          else (Inr \<lparr>ar_Token = t_Token r, ar_RequiresPIN = False, ar_UnlockTicket = [],
                     ar_ExpiresAt = time_unix (sint (t_ExpiresAt r))\<rparr>, c\<lparr>cl_token := t_Token r\<rparr>)
      | (_, c) \<Rightarrow> (Inl (WrapErr ''failed to verify challenge'' wrong_answer), c))"

definition Client_Authenticate :: "('n, 'g, 'f) client_env \<Rightarrow> string \<Rightarrow> ('n, 'g, 'f) client \<Rightarrow>
    (go_error + auth_result) \<times> ('n, 'g, 'f) client" where
  "Client_Authenticate E gpgKeyID c =
     (case rpc E [] (ReqAuthenticate gpgKeyID) c of
        (Inl e, c) \<Rightarrow> (Inl (WrapErr ''failed to get challenge'' e), c)
      | (Inr (AuthChallenge encrypted), c) \<Rightarrow>
         (case DecryptAndUse (e_gpg E) encrypted parse_challenge [] (cl_home c) of
            (Some e, _, g) \<Rightarrow> (Inl (WrapErr ''failed to decrypt challenge'' e), c\<lparr>cl_home := g\<rparr>)
          | (None, nonce, g) \<Rightarrow>
              if nonce = [] then (Inl (Errorf ''invalid challenge format''), c\<lparr>cl_home := g\<rparr>)
              else verify_challenge E nonce (c\<lparr>cl_home := g\<rparr>))
      | (_, c) \<Rightarrow> (Inl (WrapErr ''failed to get challenge'' wrong_answer), c))"

definition Client_HasPIN :: "('n, 'g, 'f) client_env \<Rightarrow> ('n, 'g, 'f) client \<Rightarrow>
    (go_error + bool) \<times> ('n, 'g, 'f) client" where
  "Client_HasPIN E c =
     (case rpc E [] ReqHasPIN c of
        (Inl e, c) \<Rightarrow> (Inl e, c)
      | (Inr (HasPINResponse b), c) \<Rightarrow> (Inr b, c)
      | (_, c) \<Rightarrow> (Inl wrong_answer, c))"

text \<open>An authenticated call whose error the client wraps and whose answer it converts.\<close>

definition authed :: "('n, 'g, 'f) client_env \<Rightarrow> string \<Rightarrow> request \<Rightarrow> (response \<Rightarrow> 'a option) \<Rightarrow>
    ('n, 'g, 'f) client \<Rightarrow> (go_error + 'a) \<times> ('n, 'g, 'f) client" where
  "authed E what req conv c =
     (case rpc E (authedCtx c) req c of
        (Inl e, c) \<Rightarrow> (Inl (WrapErr what e), c)
      | (Inr a, c) \<Rightarrow> (case conv a of None \<Rightarrow> (Inl (WrapErr what wrong_answer), c) | Some x \<Rightarrow> (Inr x, c)))"

definition Client_SetPIN :: "('n, 'g, 'f) client_env \<Rightarrow> string \<Rightarrow> string \<Rightarrow> ('n, 'g, 'f) client \<Rightarrow>
    (go_error + unit) \<times> ('n, 'g, 'f) client" where
  "Client_SetPIN E currentPIN newPIN =
     authed E ''failed to set PIN'' (ReqSetPIN currentPIN newPIN)
       (\<lambda>a. case a of SetPINResponse \<Rightarrow> Some () | _ \<Rightarrow> None)"

definition translateUnlockError :: "go_error \<Rightarrow> go_error" where
  "translateUnlockError e =
     (case status_from_error e of
        None \<Rightarrow> WrapErr ''unlock failed'' e
      | Some (PermissionDenied, m) \<Rightarrow> ErrPermissionDenied
      | Some (Unauthenticated, m) \<Rightarrow> ErrSessionExpired
      | Some (ResourceExhausted, m) \<Rightarrow> ErrorSuffix ErrRateLimited m
      | Some _ \<Rightarrow> WrapErr ''unlock failed'' e)"

definition Client_Unlock :: "('n, 'g, 'f) client_env \<Rightarrow> string \<Rightarrow> string \<Rightarrow> ('n, 'g, 'f) client \<Rightarrow>
    (go_error + string \<times> time) \<times> ('n, 'g, 'f) client" where
  "Client_Unlock E unlockTicket pin c =
     (case rpc E [] (ReqUnlock unlockTicket pin) c of
        (Inl e, c) \<Rightarrow> (Inl (translateUnlockError e), c)
      | (Inr (UnlockResponse t e), c) \<Rightarrow> (Inr (t, time_unix (sint e)), c)
      | (_, c) \<Rightarrow> (Inl (translateUnlockError wrong_answer), c))"

definition Client_CreateEntry :: "('n, 'g, 'f) client_env \<Rightarrow> envelope \<Rightarrow> ('n, 'g, 'f) client \<Rightarrow>
    (go_error + string) \<times> ('n, 'g, 'f) client" where
  "Client_CreateEntry E env =
     authed E ''failed to create entry'' (ReqCreateEntry (Some (envelopeToProto env)))
       (\<lambda>a. case a of CreateEntryResponse i \<Rightarrow> Some i | _ \<Rightarrow> None)"

definition Client_UpdateEntry :: "('n, 'g, 'f) client_env \<Rightarrow> envelope \<Rightarrow> ('n, 'g, 'f) client \<Rightarrow>
    (go_error + unit) \<times> ('n, 'g, 'f) client" where
  "Client_UpdateEntry E env =
     authed E ''failed to update entry'' (ReqUpdateEntry (Some (envelopeToProto env)))
       (\<lambda>a. case a of UpdateEntryResponse \<Rightarrow> Some () | _ \<Rightarrow> None)"

definition Client_GetEntry :: "('n, 'g, 'f) client_env \<Rightarrow> string \<Rightarrow> ('n, 'g, 'f) client \<Rightarrow>
    (go_error + envelope) \<times> ('n, 'g, 'f) client" where
  "Client_GetEntry E i =
     authed E ''failed to get entry'' (ReqGetEntry i)
       (\<lambda>a. case a of EntryResponse p \<Rightarrow> Some (protoToEnvelope p) | _ \<Rightarrow> None)"

definition Client_ListEntries :: "('n, 'g, 'f) client_env \<Rightarrow> entry_type \<Rightarrow> ('n, 'g, 'f) client \<Rightarrow>
    (go_error + envelope list) \<times> ('n, 'g, 'f) client" where
  "Client_ListEntries E t =
     authed E ''failed to list entries'' (ReqListEntries (word_of_int t))
       (\<lambda>a. case a of ListEntriesResponse ps \<Rightarrow> Some (map protoToEnvelope ps) | _ \<Rightarrow> None)"

definition Client_DeleteEntry :: "('n, 'g, 'f) client_env \<Rightarrow> string \<Rightarrow> ('n, 'g, 'f) client \<Rightarrow>
    (go_error + unit) \<times> ('n, 'g, 'f) client" where
  "Client_DeleteEntry E i =
     authed E ''failed to delete entry'' (ReqDeleteEntry i)
       (\<lambda>a. case a of DeleteEntryResponse \<Rightarrow> Some () | _ \<Rightarrow> None)"

definition Client_Close :: "('n, 'g, 'f) client_env \<Rightarrow> ('n, 'g, 'f) client \<Rightarrow>
    go_error option \<times> ('n, 'g, 'f) client" where
  "Client_Close E c =
     (let (r, n) = e_close E (cl_net c)
      in (map_option (WrapErr ''failed to close gRPC connection'') r, c\<lparr>cl_net := n\<rparr>))"

definition CheckHealth :: "('n, 'g, 'f) client_env \<Rightarrow> ('n, 'g, 'f) client \<Rightarrow>
    go_error option \<times> ('n, 'g, 'f) client" where
  "CheckHealth E c =
     (case e_health E (cl_net c) of
        (Inl e, n) \<Rightarrow> (Some (WrapErr ''server health check failed'' e), c\<lparr>cl_net := n\<rparr>)
      | (Inr st, n) \<Rightarrow>
          (if st \<noteq> Serving then Some (Errorf (''server not serving (status: '' @ health_name st @ '')''))
           else None, c\<lparr>cl_net := n\<rparr>))"

subsection \<open>The vault\<close>

text \<open>
  The methods of \<^verbatim>\<open>VaultService\<close>; the key identifier is their argument. They take the
  envelope by reference and set its payload to the ciphertext, whatever the call then does.
\<close>

definition vault_encrypt :: "('n, 'g, 'f) client_env \<Rightarrow> string \<Rightarrow> envelope \<Rightarrow> ('n, 'g, 'f) client \<Rightarrow>
    (go_error + envelope) \<times> ('n, 'g, 'f) client" where
  "vault_encrypt E keyID env c =
     (case gpg_Encrypt (e_gpg E) (Payload env) keyID (cl_home c) of
        (Inl e, g) \<Rightarrow> (Inl (WrapErr ''failed to encrypt payload'' e), c\<lparr>cl_home := g\<rparr>)
      | (Inr encrypted, g) \<Rightarrow> (Inr (env\<lparr>Payload := encrypted\<rparr>), c\<lparr>cl_home := g\<rparr>))"

definition Vault_AddEntry :: "('n, 'g, 'f) client_env \<Rightarrow> string \<Rightarrow> envelope \<Rightarrow> ('n, 'g, 'f) client \<Rightarrow>
    go_error option \<times> envelope \<times> ('n, 'g, 'f) client" where
  "Vault_AddEntry E keyID env c =
     (case vault_encrypt E keyID env c of
        (Inl e, c) \<Rightarrow> (Some e, env, c)
      | (Inr env, c) \<Rightarrow>
         (case Client_CreateEntry E env c of
            (Inl e, c) \<Rightarrow> (Some (WrapErr ''failed to create entry'' e), env, c)
          | (Inr i, c) \<Rightarrow> (None, env\<lparr>ID := i\<rparr>, c)))"

definition Vault_GetEntry :: "('n, 'g, 'f) client_env \<Rightarrow> string \<Rightarrow> ('n, 'g, 'f) client \<Rightarrow>
    (go_error + envelope) \<times> ('n, 'g, 'f) client" where
  "Vault_GetEntry E i c =
     (case Client_GetEntry E i c of
        (Inl e, c) \<Rightarrow> (Inl (WrapErr ''failed to get entry'' e), c)
      | (Inr env, c) \<Rightarrow> (Inr env, c))"

definition Vault_DecryptAndUse :: "('n, 'g, 'f) client_env \<Rightarrow> bytes \<Rightarrow> (bytes \<Rightarrow> 'a \<Rightarrow> 'a) \<Rightarrow> 'a \<Rightarrow>
    ('n, 'g, 'f) client \<Rightarrow> go_error option \<times> 'a \<times> ('n, 'g, 'f) client" where
  "Vault_DecryptAndUse E ciphertext fn x c =
     (case DecryptAndUse (e_gpg E) ciphertext fn x (cl_home c) of
        (r, x, g) \<Rightarrow> (r, x, c\<lparr>cl_home := g\<rparr>))"

definition Vault_ListEntries :: "('n, 'g, 'f) client_env \<Rightarrow> entry_type \<Rightarrow> ('n, 'g, 'f) client \<Rightarrow>
    (go_error + envelope list) \<times> ('n, 'g, 'f) client" where
  "Vault_ListEntries E t c =
     (case Client_ListEntries E t c of
        (Inl e, c) \<Rightarrow> (Inl (WrapErr ''failed to list entries'' e), c)
      | (Inr es, c) \<Rightarrow> (Inr es, c))"

definition Vault_DeleteEntry :: "('n, 'g, 'f) client_env \<Rightarrow> string \<Rightarrow> ('n, 'g, 'f) client \<Rightarrow>
    go_error option \<times> ('n, 'g, 'f) client" where
  "Vault_DeleteEntry E i c =
     (case Client_DeleteEntry E i c of
        (Inl e, c) \<Rightarrow> (Some (WrapErr ''failed to delete entry'' e), c)
      | (Inr _, c) \<Rightarrow> (None, c))"

definition Vault_UpdateEntry :: "('n, 'g, 'f) client_env \<Rightarrow> string \<Rightarrow> envelope \<Rightarrow> ('n, 'g, 'f) client \<Rightarrow>
    go_error option \<times> envelope \<times> ('n, 'g, 'f) client" where
  "Vault_UpdateEntry E keyID env c =
     (case vault_encrypt E keyID env c of
        (Inl e, c) \<Rightarrow> (Some e, env, c)
      | (Inr env, c) \<Rightarrow>
         (case Client_UpdateEntry E env c of
            (Inl e, c) \<Rightarrow> (Some (WrapErr ''failed to update entry'' e), env, c)
          | (Inr _, c) \<Rightarrow> (None, env, c)))"

definition Vault_Authenticate :: "('n, 'g, 'f) client_env \<Rightarrow> string \<Rightarrow> ('n, 'g, 'f) client \<Rightarrow>
    (go_error + auth_result) \<times> ('n, 'g, 'f) client" where
  "Vault_Authenticate E keyID c =
     (case Client_Authenticate E keyID c of
        (Inl e, c) \<Rightarrow> (Inl (WrapErr ''authentication failed'' e), c)
      | (Inr r, c) \<Rightarrow> (Inr r, c))"

text \<open>Everything the client and the vault are made of, unfolded for case analyses.\<close>

lemmas client_defs = rpc_def authed_def Client_HasPIN_def Client_SetPIN_def
  Client_CreateEntry_def Client_UpdateEntry_def Client_GetEntry_def Client_ListEntries_def
  Client_DeleteEntry_def

lemmas vault_defs = vault_encrypt_def Vault_AddEntry_def Vault_GetEntry_def Vault_ListEntries_def
  Vault_DeleteEntry_def Vault_UpdateEntry_def Vault_Authenticate_def Vault_DecryptAndUse_def

end
