(* ===== verification/Session.thy ===== *)
theory Session
  imports Grpc_Client
begin

text \<open>
  How a client process gets a session: the session file of
  \<^verbatim>\<open>internal/adapters/config/viper.go\<close>, the authentication flow of \<^verbatim>\<open>internal/app/auth.go\<close>
  and \<^verbatim>\<open>internal/adapters/cli/cliconfig/cliconfig.go\<close>, and the terminal prompt of
  \<^verbatim>\<open>internal/adapters/gui/pin/tty.go\<close>. The configuration directory and the key identifier
  are arguments; the directory is already clean, so that joining it is appending.
\<close>

definition os_ErrNotExist :: go_error where "os_ErrNotExist = Errorf ''file does not exist''"
definition ErrNoSession :: go_error where "ErrNoSession = Errorf ''no session token stored''"

definition path_join :: "string \<Rightarrow> string \<Rightarrow> string" where
  "path_join dir name = dir @ ''/'' @ name"

subsection \<open>The session file\<close>

definition Config_SessionToken :: "('n, 'g, 'f) client_env \<Rightarrow> string \<Rightarrow> ('n, 'g, 'f) client \<Rightarrow>
    (go_error + string) \<times> ('n, 'g, 'f) client" where
  "Config_SessionToken E cfgDir c =
     (case e_read_file E (path_join cfgDir ''session'') (cl_files c) of
        Inl e \<Rightarrow> (Inl (if errors_is e os_ErrNotExist then ErrNoSession else e), c)
      | Inr data \<Rightarrow>
         (case e_yaml_unmarshal E data of
            Inl e \<Rightarrow> (Inl e, c)
          | Inr (t, expiresAt) \<Rightarrow>
              let (now, w) = time_now (cl_clock c)
              in (if now > expiresAt then Inl (Errorf ''session expired'') else Inr t, c\<lparr>cl_clock := w\<rparr>)))"

text \<open>The lifetime is 64-bit nanoseconds, so that a large number of seconds wraps around.\<close>

definition SaveSessionToken :: "('n, 'g, 'f) client_env \<Rightarrow> string \<Rightarrow> string \<Rightarrow> int \<Rightarrow>
    ('n, 'g, 'f) client \<Rightarrow> go_error option \<times> ('n, 'g, 'f) client" where
  "SaveSessionToken E cfgDir t ttl c =
     (case e_mkdir_all E cfgDir (cl_files c) of
        (Some e, f) \<Rightarrow> (Some e, c\<lparr>cl_files := f\<rparr>)
      | (None, f) \<Rightarrow>
          let (now, w) = time_now (cl_clock c);
              c = c\<lparr>cl_files := f, cl_clock := w\<rparr>;
              expiresAt = now + sint (word_of_int (ttl * second) :: 64 word)
          in (case e_yaml_marshal E (t, expiresAt) of
                Inl e \<Rightarrow> (Some e, c)
              | Inr data \<Rightarrow>
                  let (r, f) = e_write_file E (path_join cfgDir ''session'') data (cl_files c)
                  in (r, c\<lparr>cl_files := f\<rparr>)))"

definition ClearSession :: "('n, 'g, 'f) client_env \<Rightarrow> string \<Rightarrow> ('n, 'g, 'f) client \<Rightarrow>
    go_error option \<times> ('n, 'g, 'f) client" where
  "ClearSession E cfgDir c =
     (let (r, f) = e_remove E (path_join cfgDir ''session'') (cl_files c)
      in (case r of Some e \<Rightarrow> if errors_is e os_ErrNotExist then None else Some e | None \<Rightarrow> None,
          c\<lparr>cl_files := f\<rparr>))"

text \<open>\<^verbatim>\<open>time.Until\<close> saturates at the bounds of a duration.\<close>

definition time_until :: "time \<Rightarrow> time \<Rightarrow> int" where
  "time_until t now = max (- (2 ^ 63)) (min (2 ^ 63 - 1) (t - now))"

text \<open>
  The closure of both flows: a failure to save is logged only. The number of seconds goes
  through a 64-bit float, which is exact below 97 days.
\<close>

definition cacheSession :: "('n, 'g, 'f) client_env \<Rightarrow> string \<Rightarrow> string \<Rightarrow> time \<Rightarrow>
    ('n, 'g, 'f) client \<Rightarrow> ('n, 'g, 'f) client" where
  "cacheSession E cfgDir tok expiresAt c =
     (let c = SetToken tok c;
          (now, w) = time_now (cl_clock c)
      in snd (SaveSessionToken E cfgDir tok (trunc_seconds (time_until expiresAt now)) (c\<lparr>cl_clock := w\<rparr>)))"

subsection \<open>Checking a PIN\<close>

text \<open>The variables the validation closure captures: the client, its count and the last result.\<close>

record ('n, 'g, 'f) unlock =
  u_client :: "('n, 'g, 'f) client"
  u_attempts :: int
  u_auth :: auth_result

definition tooManyAttempts :: go_error where
  "tooManyAttempts = PINFatalError (Errorf ''too many failed PIN attempts'')"

definition sessionExpiredAgain :: go_error where
  "sessionExpiredAgain = Errorf ''Session expired, enter PIN again''"

definition unlock_validate :: "('n, 'g, 'f) client_env \<Rightarrow> string \<Rightarrow> string \<Rightarrow> string \<Rightarrow>
    ('n, 'g, 'f) unlock \<Rightarrow> go_error option \<times> ('n, 'g, 'f) unlock" where
  "unlock_validate E cfgDir keyID pin u =
     (let attempts = u_attempts u + 1 in
      case Client_Unlock E (ar_UnlockTicket (u_auth u)) pin (u_client u) of
        (Inr (tok, expiresAt), c) \<Rightarrow>
          (None, u\<lparr>u_client := cacheSession E cfgDir tok expiresAt c, u_attempts := attempts\<rparr>)
      | (Inl vErr, c) \<Rightarrow>
          let u = u\<lparr>u_client := c, u_attempts := attempts\<rparr> in
          if errors_is vErr ErrPermissionDenied then
            (Some (if attempts \<ge> 3 then tooManyAttempts else Errorf DefaultPINError), u)
          else if errors_is vErr ErrSessionExpired then
            (case Vault_Authenticate E keyID c of
               (Inl authErr, c) \<Rightarrow>
                 (Some (PINFatalError (WrapErr ''re-authentication failed'' authErr)), u\<lparr>u_client := c\<rparr>)
             | (Inr authRes, c) \<Rightarrow>
                 (Some sessionExpiredAgain, u\<lparr>u_client := c, u_auth := authRes, u_attempts := 0\<rparr>))
          else if errors_is vErr ErrRateLimited then (Some (Errorf (error_string vErr)), u)
          else (Some (PINFatalError vErr), u))"

subsection \<open>The terminal prompt\<close>

definition maxTTYIterations :: nat where "maxTTYIterations = 10"

text \<open>What reading the password gives; a context that has ended is seen before a read.\<close>

datatype tty_read = CtxErr go_error | ReadEOF | ReadErr go_error | ReadLine string

text \<open>
  The loop over the reads to come, for any validator and the state it closes over. It also
  returns what it printed on the error output. No more reads is the end of the input.
\<close>

fun tty_loop :: "nat \<Rightarrow> (string \<Rightarrow> 's \<Rightarrow> go_error option \<times> 's) \<Rightarrow> tty_read list \<Rightarrow> 's \<Rightarrow>
    go_error option \<times> 's \<times> string list" where
  "tty_loop 0 validate reads s = (Some (Errorf ''too many PIN attempts''), s, [])"
| "tty_loop (Suc n) validate reads s =
     (case reads of
        [] \<Rightarrow> (Some ErrPINPromptCancelled, s, [])
      | CtxErr e # _ \<Rightarrow> (Some e, s, [])
      | ReadEOF # _ \<Rightarrow> (Some ErrPINPromptCancelled, s, [])
      | ReadErr e # _ \<Rightarrow> (Some (WrapErr ''failed to read PIN'' e), s, [])
      | ReadLine pin # reads \<Rightarrow>
          if pin = [] then (Some ErrPINPromptCancelled, s, [])
          else (case validate pin s of
                  (None, s) \<Rightarrow> (None, s, [])
                | (Some vErr, s) \<Rightarrow>
                   (case errors_as_fatal vErr of
                      Some e \<Rightarrow> (Some e, s, [])
                    | None \<Rightarrow>
                        (case tty_loop n validate reads s of
                           (r, s, out) \<Rightarrow> (r, s, error_string vErr # out)))))"

definition PromptTTY :: "tty_read list \<Rightarrow> (string \<Rightarrow> 's \<Rightarrow> go_error option \<times> 's) \<Rightarrow> 's \<Rightarrow>
    go_error option \<times> 's \<times> string list" where
  "PromptTTY reads validate = tty_loop maxTTYIterations validate reads"

subsection \<open>Authentication\<close>

text \<open>A prompt runs the validator on the state it closes over and gives its own result.\<close>

type_synonym 's prompt = "(string \<Rightarrow> 's \<Rightarrow> go_error option \<times> 's) \<Rightarrow> 's \<Rightarrow> go_error option \<times> 's"

definition unlockWithPIN :: "('n, 'g, 'f) client_env \<Rightarrow> string \<Rightarrow> string \<Rightarrow> ('n, 'g, 'f) unlock prompt \<Rightarrow>
    auth_result \<Rightarrow> ('n, 'g, 'f) client \<Rightarrow> go_error option \<times> ('n, 'g, 'f) client" where
  "unlockWithPIN E cfgDir keyID prompt authResult c =
     (let (r, u) = prompt (unlock_validate E cfgDir keyID)
                     \<lparr>u_client = c, u_attempts = 0, u_auth = authResult\<rparr>
      in (r, u_client u))"

text \<open>Besides the result and the client, the desktop notifications that were sent.\<close>

definition AuthenticateSession :: "('n, 'g, 'f) client_env \<Rightarrow> string \<Rightarrow> string \<Rightarrow>
    ('n, 'g, 'f) unlock prompt \<Rightarrow> bool \<Rightarrow> ('n, 'g, 'f) client \<Rightarrow>
    go_error option \<times> string list \<times> ('n, 'g, 'f) client" where
  "AuthenticateSession E cfgDir keyID prompt isTTY c =
     (case Config_SessionToken E cfgDir c of
        (Inr t, c) \<Rightarrow> (None, [], SetToken t c)
      | (Inl _, c) \<Rightarrow>
         (case Vault_Authenticate E keyID c of
            (Inl e, c) \<Rightarrow> (Some (WrapErr ''authentication failed'' e), [], c)
          | (Inr authResult, c) \<Rightarrow>
              if \<not> ar_RequiresPIN authResult
              then (None, [], cacheSession E cfgDir (ar_Token authResult) (ar_ExpiresAt authResult) c)
              else
                (case unlockWithPIN E cfgDir keyID prompt authResult c of
                   (None, c) \<Rightarrow> (None, [], c)
                 | (Some unlockErr, c) \<Rightarrow>
                     if errors_is unlockErr ErrPINPromptCancelled then (Some unlockErr, [], c)
                     else (Some (WrapErr ''unlock failed'' unlockErr),
                           if isTTY then [] else [''PIN unlock failed''], c))))"

subsection \<open>Commands\<close>

definition NewClientApp :: "('n, 'g, 'f) client_env \<Rightarrow> string \<Rightarrow> ('n, 'g, 'f) client \<Rightarrow>
    go_error + ('n, 'g, 'f) client" where
  "NewClientApp E serverAddr c =
     (case NewClient E serverAddr c of
        Inl e \<Rightarrow> Inl (WrapErr ''failed to create gRPC client'' e)
      | Inr c \<Rightarrow> Inr c)"

definition not_configured :: go_error where
  "not_configured = Errorf ''client not configured; run 'sekeve init' first''"

definition ConnectAndAuth :: "('n, 'g, 'f) client_env \<Rightarrow> string \<Rightarrow> bool \<Rightarrow> string \<Rightarrow> string \<Rightarrow>
    ('n, 'g, 'f) unlock prompt \<Rightarrow> bool \<Rightarrow> ('n, 'g, 'f) client \<Rightarrow>
    go_error option \<times> string list \<times> ('n, 'g, 'f) client" where
  "ConnectAndAuth E cfgDir unconfigured serverAddr keyID prompt isTTY c =
     (if unconfigured then (Some not_configured, [], c)
      else case NewClientApp E serverAddr c of
        Inl e \<Rightarrow> (Some (WrapErr ''failed to connect'' e), [], c)
      | Inr c \<Rightarrow>
         (case AuthenticateSession E cfgDir keyID prompt isTTY c of
            (Some e, ns, c) \<Rightarrow> (Some e, ns, snd (Client_Close E c))
          | (None, ns, c) \<Rightarrow> (None, ns, c)))"

text \<open>
  The flow of the desktop window: it never prompts itself, and leaves the state of the
  pending validator for the window when a PIN is needed.
\<close>

definition ConnectAndAuthDeferPIN :: "('n, 'g, 'f) client_env \<Rightarrow> string \<Rightarrow> bool \<Rightarrow> string \<Rightarrow> string \<Rightarrow>
    ('n, 'g, 'f) client \<Rightarrow> go_error option \<times> auth_result option \<times> ('n, 'g, 'f) client" where
  "ConnectAndAuthDeferPIN E cfgDir unconfigured serverAddr keyID c =
     (if unconfigured then (Some not_configured, None, c)
      else case NewClientApp E serverAddr c of
        Inl e \<Rightarrow> (Some (WrapErr ''failed to connect'' e), None, c)
      | Inr c \<Rightarrow>
         (case Config_SessionToken E cfgDir c of
            (Inr t, c) \<Rightarrow> (None, None, SetToken t c)
          | (Inl _, c) \<Rightarrow>
             (case Vault_Authenticate E keyID c of
                (Inl e, c) \<Rightarrow> (Some (WrapErr ''authentication failed'' e), None, snd (Client_Close E c))
              | (Inr authResult, c) \<Rightarrow>
                  if ar_RequiresPIN authResult then (None, Some authResult, c)
                  else (None, None,
                    cacheSession E cfgDir (ar_Token authResult) (ar_ExpiresAt authResult) c))))"

text \<open>The validator of that flow is a second copy of the one above.\<close>

definition makeDeferredUnlockValidator :: "('n, 'g, 'f) client_env \<Rightarrow> string \<Rightarrow> string \<Rightarrow> string \<Rightarrow>
    ('n, 'g, 'f) unlock \<Rightarrow> go_error option \<times> ('n, 'g, 'f) unlock" where
  "makeDeferredUnlockValidator E cfgDir keyID pin u =
     (let u = u\<lparr>u_attempts := u_attempts u + 1\<rparr> in
      case Client_Unlock E (ar_UnlockTicket (u_auth u)) pin (u_client u) of
        (Inr (tok, expiresAt), c) \<Rightarrow> (None, u\<lparr>u_client := cacheSession E cfgDir tok expiresAt c\<rparr>)
      | (Inl vErr, c) \<Rightarrow>
          let u = u\<lparr>u_client := c\<rparr> in
          if errors_is vErr ErrPermissionDenied then
            (if u_attempts u \<ge> 3 then (Some tooManyAttempts, u) else (Some (Errorf DefaultPINError), u))
          else if errors_is vErr ErrSessionExpired then
            (case Vault_Authenticate E keyID c of
               (Inl authErr, c) \<Rightarrow>
                 (Some (PINFatalError (WrapErr ''re-authentication failed'' authErr)), u\<lparr>u_client := c\<rparr>)
             | (Inr authRes, c) \<Rightarrow>
                 (Some sessionExpiredAgain, u\<lparr>u_client := c, u_auth := authRes, u_attempts := 0\<rparr>))
          else if errors_is vErr ErrRateLimited then (Some (Errorf (error_string vErr)), u)
          else (Some (PINFatalError vErr), u))"

lemma deferred_validator_same: "makeDeferredUnlockValidator = unlock_validate"
  by (auto simp: fun_eq_iff makeDeferredUnlockValidator_def unlock_validate_def Let_def
      split: prod.splits sum.splits if_splits)

subsection \<open>What the prompt accepts\<close>

text \<open>The state after a sequence of PINs that were all refused without closing the prompt.\<close>

fun rejected :: "(string \<Rightarrow> 's \<Rightarrow> go_error option \<times> 's) \<Rightarrow> string list \<Rightarrow> 's \<Rightarrow> 's option" where
  "rejected validate [] s = Some s"
| "rejected validate (pin # pins) s =
     (case validate pin s of
        (Some e, s) \<Rightarrow> if pin \<noteq> [] \<and> errors_as_fatal e = None then rejected validate pins s else None
      | (None, _) \<Rightarrow> None)"

lemma tty_loop_accepts:
  "(\<exists>out. tty_loop n validate reads s = (None, s', out)) \<longleftrightarrow>
   (\<exists>pins pin rest s1. reads = map ReadLine pins @ ReadLine pin # rest \<and> length pins < n \<and> pin \<noteq> [] \<and>
      rejected validate pins s = Some s1 \<and> validate pin s1 = (None, s'))" (is "?L n reads s \<longleftrightarrow> ?R n reads s")
proof (induction n arbitrary: reads s)
  case (Suc n)
  show ?case
  proof (cases "\<exists>pin rest. reads = ReadLine pin # rest \<and> pin \<noteq> []")
    case False
    then have "\<not> ?L (Suc n) reads s" by (auto split: list.splits tty_read.splits)
    moreover have "\<not> ?R (Suc n) reads s"
    proof
      assume "?R (Suc n) reads s"
      then obtain pins pin rest s1 where r: "reads = map ReadLine pins @ ReadLine pin # rest" "pin \<noteq> []"
        "rejected validate pins s = Some s1" by blast
      with False show False by (cases pins) (auto split: prod.splits option.splits if_splits)
    qed
    ultimately show ?thesis by blast
  next
    case True
    then obtain pin rest where reads: "reads = ReadLine pin # rest" "pin \<noteq> []" by blast
    obtain r s1 where v: "validate pin s = (r, s1)" by force
    show ?thesis
    proof (cases r)
      case None
      then have "?R (Suc n) reads s \<longleftrightarrow> s1 = s'"
        using reads v by (auto simp: Cons_eq_append_conv Cons_eq_map_conv intro: exI [of _ "[]"])
      with None reads v show ?thesis by auto
    next
      case (Some e)
      have split: "?R (Suc n) reads s \<longleftrightarrow> errors_as_fatal e = None \<and> ?R n rest s1"
      proof
        assume "?R (Suc n) reads s"
        then obtain pins p rest' s2 where r: "reads = map ReadLine pins @ ReadLine p # rest'" "length pins < Suc n"
          "p \<noteq> []" "rejected validate pins s = Some s2" "validate p s2 = (None, s')" by blast
        with reads v Some obtain ps where "pins = pin # ps" by (cases pins) auto
        with r reads v Some show "errors_as_fatal e = None \<and> ?R n rest s1" by (auto split: if_splits)
      next
        assume "errors_as_fatal e = None \<and> ?R n rest s1"
        then obtain pins p rest' s2 where r: "rest = map ReadLine pins @ ReadLine p # rest'" "length pins < n"
          "p \<noteq> []" "rejected validate pins s1 = Some s2" "validate p s2 = (None, s')" "errors_as_fatal e = None" by blast
        with reads v Some have "reads = map ReadLine (pin # pins) @ ReadLine p # rest'"
          "rejected validate (pin # pins) s = Some s2" "length (pin # pins) < Suc n" by simp_all
        with r show "?R (Suc n) reads s" by blast
      qed
      show ?thesis
        unfolding split Suc.IH [symmetric] using reads v Some by (auto split: option.splits prod.splits)
    qed
  qed
qed simp

lemma tty_loop_output: "tty_loop n validate reads s = (r, s', out) \<Longrightarrow> length out \<le> n"
  by (induction n arbitrary: reads s r s' out)
    (force split: list.splits tty_read.splits if_splits prod.splits option.splits)+

text \<open>
  C24: The terminal prompt unlocks exactly when the validator accepts: it succeeds if and
  only if, after at most nine refused PINs, the validator accepted a PIN that was not empty,
  in the state the refusals left, and the state it ends in is the one the validator gave.
  It never prints more than ten refusals.
\<close>

theorem prompt_unlocks_iff_accepted:
  "((\<exists>out. PromptTTY reads validate s = (None, s', out)) =
    (\<exists>pins pin rest s1. reads = map ReadLine pins @ ReadLine pin # rest \<and> length pins \<le> 9 \<and> pin \<noteq> [] \<and>
      rejected validate pins s = Some s1 \<and> validate pin s1 = (None, s'))) \<and>
   length (snd (snd (PromptTTY reads validate s))) \<le> 10"
proof
  have "(length pins < maxTTYIterations) = (length pins \<le> 9)" for pins :: "string list"
    by (auto simp: maxTTYIterations_def)
  then show "(\<exists>out. PromptTTY reads validate s = (None, s', out)) =
    (\<exists>pins pin rest s1. reads = map ReadLine pins @ ReadLine pin # rest \<and> length pins \<le> 9 \<and> pin \<noteq> [] \<and>
      rejected validate pins s = Some s1 \<and> validate pin s1 = (None, s'))"
    unfolding PromptTTY_def tty_loop_accepts by simp
  show "length (snd (snd (PromptTTY reads validate s))) \<le> 10"
    unfolding PromptTTY_def by (rule order_trans [OF tty_loop_output]) (auto simp: maxTTYIterations_def prod_eq_iff)
qed

end
