(* ===== verification/Client_Server.thy ===== *)
theory Client_Server
  imports Session Server_Safety
begin

text \<open>
  The client and the server together: the network of the client is the server of the model,
  called through its interceptor, and an error crosses it as its status. Both machines run
  the same gpg program on homes of their own. The serialisation of the messages is that of
  the generated code and is taken to be faithful.
\<close>

definition server_call :: "('b, 'g) deps \<Rightarrow> string list \<Rightarrow> request \<Rightarrow> ('b, 'g) server \<times> world \<Rightarrow>
    (go_error + response) \<times> ('b, 'g) server \<times> world" where
  "server_call D md req n =
     (case UnaryInterceptor D (Some md) req (fst n) (snd n) of
        (r, s, w) \<Rightarrow> (map_sum wire_error id r, s, w))"

text \<open>The client of a server: what it calls is that server, with the same gpg program.\<close>

definition connected :: "('b, 'g) deps \<Rightarrow> (('b, 'g) server \<times> world, 'g, 'f) client_env \<Rightarrow> bool" where
  "connected D E \<longleftrightarrow> e_call E = server_call D \<and> d_gpg D = e_gpg E"

lemma rpc_connected:
  "connected D E \<Longrightarrow> rpc E md req c =
     (case server_call D md req (cl_net c) of (r, n) \<Rightarrow> (r, c\<lparr>cl_net := n\<rparr>))"
  by (simp add: rpc_def connected_def)

lemma server_call_open:
  "server_call D md (ReqAuthenticate k) (s, w) =
     (case Authenticate D k s w of (r, n) \<Rightarrow> (map_sum wire_error AuthChallenge r, n))"
  "server_call D md (ReqVerifyChallenge nonce) (s, w) =
     (case VerifyChallenge nonce s w of (r, n) \<Rightarrow> (map_sum wire_error SessionToken r, n))"
  "server_call D md (ReqUnlock t p) (s, w) =
     (case Unlock D t p s w of (r, n) \<Rightarrow> (map_sum wire_error (\<lambda>(t, e). UnlockResponse t e) r, n))"
  by (simp_all add: server_call_def UnaryInterceptor_def skipAuthMethods_def sum.map_comp o_def
      split: prod.splits)

subsection \<open>Success of the steps of a login\<close>

lemma sweep_loop_length: "length (sweep_loop now m) \<le> length m"
  unfolding sweep_loop_def sweep_fold_filter by simp

lemma time_now_rand [world_simps]: "w_rand (snd (time_now w)) = w_rand w"
  by (simp add: time_now_def split: list.splits)

lemma generateTokenSafe_succeeds:
  "w_rand w = Some b # bs \<Longrightarrow> \<exists>t. generateTokenSafe w = (Inr t, w\<lparr>w_rand := bs\<rparr>)"
  by (simp add: generateTokenSafe_def rand_read_def)

lemma issue_session_succeeds:
  assumes "length (sessions am) < maxSessions" "w_rand w = Some b # bs"
  shows "\<exists>t am' w'. issue_session now full am w = (Inr (t, now + sessionTTL), am', w')"
proof -
  have "length (sweep_loop now (sessions am)) < maxSessions"
    using assms(1) sweep_loop_length [of now "sessions am"] by simp
  with generateTokenSafe_succeeds [OF assms(2)] show ?thesis by (auto simp: issue_session_def Let_def)
qed

lemma VerifyNonce_succeeds:
  assumes "map_of (nonces am) n = Some e" "fst (time_now w) \<le> e"
    and "length (sessions am) < maxSessions" "w_rand w = Some b # bs"
  shows "\<exists>vr am' w'. VerifyNonce n am w = (Inr vr, am', w')"
proof -
  let ?am = "am\<lparr>nonces := AList.delete n (nonces am)\<rparr>"
  obtain t1 w1 where t1: "time_now w = (t1, w1)" by force
  obtain t2 w2 where t2: "time_now w1 = (t2, w2)" by force
  have rand: "w_rand w2 = Some b # bs" using assms(4) t1 t2 time_now_rand by (metis snd_conv)
  obtain tk where tk: "generateTokenSafe w2 = (Inr tk, w2\<lparr>w_rand := bs\<rparr>)"
    using generateTokenSafe_succeeds [OF rand] by blast
  have "length (sessions ?am) < maxSessions" using assms(3) by simp
  then obtain t am3 w3 where iss: "issue_session t2 (StatusError ResourceExhausted ''too many active sessions'')
      ?am w2 = (Inr (t, t2 + sessionTTL), am3, w3)"
    using issue_session_succeeds [OF _ rand] by blast
  show ?thesis
    using assms(1,2) t1 t2 tk iss by (auto simp: VerifyNonce_def Let_def split: prod.splits)
qed

lemma RedeemUnlockTicket_succeeds:
  assumes "map_of (unlockTickets am) n = Some e" "fst (time_now w) \<le> e"
    and "length (sessions am) < maxSessions" "w_rand w = Some b # bs"
  shows "\<exists>t x am' w'. RedeemUnlockTicket n am w = (Inr (t, x), am', w') \<and> map_of (sessions am') t = Some x
    \<and> x = w_clock w' + sessionTTL"
proof -
  let ?am = "am\<lparr>unlockTickets := AList.delete n (unlockTickets am)\<rparr>"
  obtain t1 w1 where t1: "time_now w = (t1, w1)" by force
  have rand: "w_rand w1 = Some b # bs" using assms(4) t1 time_now_rand by (metis snd_conv)
  have "length (sessions ?am) < maxSessions" using assms(3) by simp
  then obtain t am3 w3 where iss: "issue_session t1 (Errorf ''too many active sessions'')
      ?am w1 = (Inr (t, t1 + sessionTTL), am3, w3)"
    using issue_session_succeeds [OF _ rand] by blast
  with issue_session_live [OF iss] show ?thesis
    using assms(1,2) t1 time_now_mono [OF t1] by (auto simp: RedeemUnlockTicket_def Let_def)
qed

lemma GenerateChallenge_stored:
  assumes "GenerateChallenge am w = (Inr nonce, am', w')"
  shows "map_of (nonces am') nonce = Some (w_clock w' + nonceTTL)" "length nonce = 64"
    "sessions am' = sessions am" "pinConfigured am' = pinConfigured am"
  using assms generateTokenSafe_length
  by (auto simp: GenerateChallenge_def Let_def dest!: time_now_mono split: prod.splits sum.splits)

lemma parse_FormatChallenge [simp]: "parse_challenge (FormatChallenge nonce) x = nonce"
  by (simp add: parse_challenge_def FormatChallenge_def split2_def)

lemma map_sum_Inr: "map_sum f g x = Inr y \<longleftrightarrow> (\<exists>z. x = Inr z \<and> y = g z)"
  by (cases x) auto

lemma server_call_challenge:
  assumes "server_call D md (ReqAuthenticate k) (s, w) = (Inr a, s1, w1)"
  obtains nonce g ct where "a = AuthChallenge ct"
    "fst (gpg_Encrypt (d_gpg D) (FormatChallenge nonce) k g) = Inr ct"
    "map_of (nonces (auth s1)) nonce = Some (w_clock w1 + nonceTTL)" "length nonce = 64"
    "sessions (auth s1) = sessions (auth s)" "pinConfigured (auth s1) = pinConfigured (auth s)"
proof -
  obtain q s2 w2 where q: "Authenticate D k s w = (q, s2, w2)" by (rule prod_cases3)
  with assms obtain ct where ct: "q = Inr ct" "a = AuthChallenge ct" "s2 = s1" "w2 = w1"
    by (auto simp: server_call_open map_sum_Inr)
  from q show thesis
  proof (cases rule: Authenticate_cases)
    case (challenge x am)
    then obtain nonce g where "x = Inr nonce"
      "fst (gpg_Encrypt (d_gpg D) (FormatChallenge nonce) k g) = Inr ct" using ct(1) by blast
    with challenge(1-2) ct GenerateChallenge_stored show thesis by (intro that) auto
  qed (use ct in simp)
qed

context gpg_program begin

lemmas decrypt_own = crypto.decrypt_encrypt
lemmas decrypt_keeps = crypto.decrypt_holds
lemmas encrypt_keeps = crypto.encrypt_holds

end

lemma gpg_Decrypt_own:
  assumes "gpg_program G holds" "holds k g2" "fst (gpg_Encrypt G p k g) = Inr c"
  obtains g3 where "gpg_Decrypt G c g2 = (Inr p, g3)" "holds k g3"
proof -
  obtain g1 where "gpg_Encrypt G p k g = (Inr c, g1)" using assms(3) by (metis prod.collapse)
  from gpg_program.decrypt_own [OF assms(1,2) this] have "fst (gpg_Decrypt G c g2) = Inr p" .
  moreover have "holds k (snd (gpg_Decrypt G c g2))" by (rule gpg_program.decrypt_keeps [OF assms(1,2)])
  ultimately show thesis by (intro that [of "snd (gpg_Decrypt G c g2)"]) (auto simp: prod_eq_iff)
qed

lemma Client_Authenticate_challenge:
  assumes con: "connected D E" and prog: "gpg_program (e_gpg E) holds" and key: "holds k (cl_home c)"
    and call: "server_call D [] (ReqAuthenticate k) (cl_net c) = (Inr a, s1, w1)"
  obtains nonce g where "Client_Authenticate E k c = verify_challenge E nonce (c\<lparr>cl_net := (s1, w1), cl_home := g\<rparr>)"
    "map_of (nonces (auth s1)) nonce = Some (w_clock w1 + nonceTTL)" "holds k g"
proof -
  obtain s w where n: "cl_net c = (s, w)" by force
  from call [unfolded n] obtain nonce g ct where ct: "a = AuthChallenge ct"
    "fst (gpg_Encrypt (d_gpg D) (FormatChallenge nonce) k g) = Inr ct"
    and nonce: "map_of (nonces (auth s1)) nonce = Some (w_clock w1 + nonceTTL)" "length nonce = 64"
    by (rule server_call_challenge)
  have "d_gpg D = e_gpg E" using con by (simp add: connected_def)
  with ct(2) have "fst (gpg_Encrypt (e_gpg E) (FormatChallenge nonce) k g) = Inr ct" by simp
  then obtain g3 where dec: "gpg_Decrypt (e_gpg E) ct (cl_home c) = (Inr (FormatChallenge nonce), g3)"
    and g3: "holds k g3"
    by (rule gpg_Decrypt_own [OF prog key])
  have "nonce \<noteq> []" using nonce(2) by auto
  with ct(1) dec call have "Client_Authenticate E k c
      = verify_challenge E nonce (c\<lparr>cl_net := (s1, w1), cl_home := g3\<rparr>)"
    by (simp add: Client_Authenticate_def rpc_connected [OF con] DecryptAndUse_def)
  from that [OF this nonce(1) g3] show thesis .
qed

lemma sint_word_of_int64: "- (2 ^ 63) \<le> x \<Longrightarrow> x < 2 ^ 63 \<Longrightarrow> sint (word_of_int x :: 64 word) = x"
  by (simp add: int_word_sint)

lemma sint_word_of_int32: "- (2 ^ 31) \<le> x \<Longrightarrow> x < 2 ^ 31 \<Longrightarrow> sint (word_of_int x :: 32 word) = x"
  by (simp add: int_word_sint)

subsection \<open>The files of the user\<close>

text \<open>
  What the client relies on: a file that was written is read back, other files and made
  directories do not disturb it, and the YAML of a token and a time reads back.
\<close>

locale user_files =
  fixes E :: "('n, 'g, 'f) client_env"
  assumes read_written: "e_write_file E p d f = (None, f') \<Longrightarrow> e_read_file E p f' = Inr d"
    and read_other: "e_write_file E p d f = (r, f') \<Longrightarrow> q \<noteq> p \<Longrightarrow> e_read_file E q f' = e_read_file E q f"
    and yaml: "e_yaml_marshal E (t, x) = Inr d \<Longrightarrow> ascii t \<Longrightarrow> json_time x \<Longrightarrow> e_yaml_unmarshal E d = Inr (t, x)"
begin

text \<open>The file holds the token with an expiry that the wrapped lifetime gives.\<close>

lemma save_session:
  assumes "SaveSessionToken E dir t ttl c = (None, c1)"
  obtains w d where "cl_clock c1 = w" "e_read_file E (path_join dir ''session'') (cl_files c1) = Inr d"
    "e_yaml_marshal E (t, w_clock w + sint (word_of_int (ttl * second) :: 64 word)) = Inr d"
    "cl_net c1 = cl_net c" "cl_home c1 = cl_home c" "cl_token c1 = cl_token c"
  using assms
  by (auto simp: SaveSessionToken_def Let_def dest!: read_written time_now_mono
      split: prod.splits option.splits sum.splits)

lemma load_session:
  assumes "e_read_file E (path_join dir ''session'') (cl_files c) = Inr d"
    and "e_yaml_marshal E (t, x) = Inr d" "ascii t" "json_time x"
  shows "Config_SessionToken E dir c =
    (if fst (time_now (cl_clock c)) > x then Inl (Errorf ''session expired'') else Inr t,
     c\<lparr>cl_clock := snd (time_now (cl_clock c))\<rparr>)"
  using assms yaml [OF assms(2-4)] by (simp add: Config_SessionToken_def Let_def split: prod.splits)

lemma session_file:
  assumes save: "SaveSessionToken E dir t ttl c = (None, c1)" and t: "ascii t"
    and x: "json_time (w_clock (cl_clock c1) + sint (word_of_int (ttl * second) :: 64 word))"
    and files: "cl_files c2 = cl_files c1"
  shows "Config_SessionToken E dir c2 =
    (if fst (time_now (cl_clock c2)) > w_clock (cl_clock c1) + sint (word_of_int (ttl * second) :: 64 word)
     then Inl (Errorf ''session expired'') else Inr t,
     c2\<lparr>cl_clock := snd (time_now (cl_clock c2))\<rparr>)"
proof -
  from save obtain w d where "cl_clock c1 = w"
    "e_read_file E (path_join dir ''session'') (cl_files c1) = Inr d"
    "e_yaml_marshal E (t, w_clock w + sint (word_of_int (ttl * second) :: 64 word)) = Inr d"
    by (rule save_session)
  with load_session [of dir c2 d t] t x files show ?thesis by simp
qed

end

text \<open>Files as a map, with a length-prefixed token and the time of RFC 3339 in the session file.\<close>

definition demo_marshal :: "string \<times> time \<Rightarrow> go_error + bytes" where
  "demo_marshal tx = Inr (replicate (length (fst tx)) (CHR ''1'') @ CHR ''0'' # fst tx @ format_rfc3339 (snd tx))"

definition demo_unmarshal :: "bytes \<Rightarrow> go_error + string \<times> time" where
  "demo_unmarshal d =
     (let n = length (takeWhile (\<lambda>c. c = CHR ''1'') d); r = drop (Suc n) d
      in case parse_rfc3339 (drop n r) of
           None \<Rightarrow> Inl (Errorf ''yaml'') | Some x \<Rightarrow> Inr (take n r, x))"

definition demo_client_env :: "((((bytes, bytes) rbt, unit) server \<times> world), unit, (string \<times> bytes) list) client_env" where
  "demo_client_env =
     \<lparr>e_dial = (\<lambda>a. None), e_call = server_call demo_deps, e_health = (\<lambda>n. (Inr Serving, n)),
      e_close = (\<lambda>n. (None, n)), e_gpg = demo_gpg,
      e_read_file = (\<lambda>p f. case map_of f p of None \<Rightarrow> Inl os_ErrNotExist | Some d \<Rightarrow> Inr d),
      e_write_file = (\<lambda>p d f. (None, AList.update p d f)), e_mkdir_all = (\<lambda>p f. (None, f)),
      e_remove = (\<lambda>p f. case map_of f p of None \<Rightarrow> (Some os_ErrNotExist, f) | Some d \<Rightarrow> (None, AList.delete p f)),
      e_yaml_marshal = demo_marshal, e_yaml_unmarshal = demo_unmarshal\<rparr>"

interpretation demo_files: user_files demo_client_env
proof unfold_locales
  fix t x d
  assume "e_yaml_marshal demo_client_env (t, x) = Inr d" "json_time x"
  then have d: "d = replicate (length t) (CHR ''1'') @ CHR ''0'' # t @ format_rfc3339 x"
    and p: "parse_rfc3339 (format_rfc3339 x) = Some x"
    using parse_format_rfc3339 by (auto simp: demo_client_env_def demo_marshal_def)
  have "takeWhile (\<lambda>c. c = CHR ''1'') (replicate n (CHR ''1'') @ CHR ''0'' # r) = replicate n (CHR ''1'')" for n r
    by (induction n) auto
  then have "takeWhile (\<lambda>c. c = CHR ''1'') d = replicate (length t) (CHR ''1'')"
    unfolding d by blast
  with d p show "e_yaml_unmarshal demo_client_env d = Inr (t, x)"
    by (simp add: demo_client_env_def demo_unmarshal_def Let_def)
qed (auto simp: demo_client_env_def split: option.splits)

lemma demo_connected: "connected demo_deps demo_client_env"
  by (simp add: connected_def demo_client_env_def demo_deps_def)

lemma demo_gpg_program: "gpg_program (e_gpg demo_client_env) (\<lambda>k g. True)"
  by (simp add: demo_client_env_def demo_program.gpg_program_axioms)

definition demo_client :: "((((bytes, bytes) rbt, unit) server \<times> world), unit, (string \<times> bytes) list) client" where
  "demo_client = \<lparr>cl_net = (demo_server, demo_rand_world), cl_home = (),
     cl_clock = demo_rand_world, cl_files = [], cl_token = []\<rparr>"

subsection \<open>Calls that need a session\<close>

lemma server_call_no_session:
  assumes "sessions (auth s) = []" "FullMethod req \<notin> skipAuthMethods"
  shows "\<exists>m. fst (server_call D md req (s, w)) = Inl (StatusError Unauthenticated m)"
  using assms by (cases md) (auto simp: server_call_def UnaryInterceptor_def validateToken_def)

lemma server_call_SetPIN:
  assumes "server_call D md (ReqSetPIN p q) (s, w) = (Inr a, s', w')"
  shows "sessions (auth s') = []"
proof -
  obtain r s2 w2 where run: "UnaryInterceptor D (Some md) (ReqSetPIN p q) s w = (r, s2, w2)" by (rule prod_cases3)
  with assms obtain a' where a': "r = Inr a'" "s2 = s'" "w2 = w'" by (auto simp: server_call_def map_sum_Inr)
  from run show ?thesis
  proof (cases rule: UnaryInterceptor_cases)
    case open_method
    then show ?thesis by (simp add: skipAuthMethods_def)
  next
    case (admitted token rest am w1)
    obtain x s3 w3 where set: "SetPIN D p q (s\<lparr>auth := am\<rparr>) w1 = (x, s3, w3)" by (rule prod_cases3)
    with admitted(5) a' have "x = Inr ()" "s3 = s'" by (auto simp: map_sum_Inr)
    with set have "SetPIN D p q (s\<lparr>auth := am\<rparr>) w1 = (Inr (), s', w3)" by simp
    then show ?thesis by (cases rule: SetPIN_cases) auto
  qed (use a' in simp)
qed

lemma authed_Inr:
  assumes "authed E what req conv c = (Inr x, c')" "connected D E"
  obtains a n where "server_call D (authedCtx c) req (cl_net c) = (Inr a, n)" "conv a = Some x"
    "c' = c\<lparr>cl_net := n\<rparr>"
  using assms by (auto simp: authed_def rpc_connected split: prod.splits sum.splits option.splits)

lemma server_call_CreateEntry:
  assumes "server_call D md (ReqCreateEntry p) (s, w) = (Inr a, s', w')"
  obtains i am w1 where "a = CreateEntryResponse i" "w_uuid w1 = w_uuid w"
    "CreateEntry D p (s\<lparr>auth := am\<rparr>) w1 = (Inr i, s', w')"
proof -
  obtain r s2 w2 where run: "UnaryInterceptor D (Some md) (ReqCreateEntry p) s w = (r, s2, w2)" by (rule prod_cases3)
  with assms obtain a' where a': "r = Inr a'" "a' = a" "s2 = s'" "w2 = w'" by (auto simp: server_call_def map_sum_Inr)
  from run show thesis
  proof (cases rule: UnaryInterceptor_cases)
    case open_method
    then show ?thesis by (simp add: skipAuthMethods_def)
  next
    case (admitted token rest am w1)
    obtain x s3 w3 where c: "CreateEntry D p (s\<lparr>auth := am\<rparr>) w1 = (x, s3, w3)" by (rule prod_cases3)
    with admitted(5) a' obtain i where "x = Inr i" "s3 = s'" "w3 = w'" "a = CreateEntryResponse i"
      by (auto simp: map_sum_Inr)
    with c validateToken_world [OF admitted(4)] show thesis by (intro that) auto
  qed (use a' in simp)
qed

lemma server_call_GetEntry:
  assumes "session_live (auth s) (fst (time_now w)) t" "GetEntry D i s = Inr q"
  shows "\<exists>n. server_call D [t] (ReqGetEntry i) (s, w) = (Inr (EntryResponse q), n)"
proof -
  obtain b am w1 where v: "validateToken t (auth s) w = (b, am, w1)" by (rule prod_cases3)
  with validateToken_live [of t "auth s" w] assms(1) have b: "b = True" by simp
  have "GetEntry D i (s\<lparr>auth := am\<rparr>) = Inr q" using assms(2) by (simp add: GetEntry_def)
  with v b show ?thesis by (simp add: server_call_def UnaryInterceptor_def skipAuthMethods_def)
qed

subsection \<open>A refused PIN\<close>

text \<open>The errors that the server can answer an unlock with, as the client sees them.\<close>

lemma Client_Unlock_connected:
  assumes "connected D E" "cl_net c = (s, w)" "Unlock D t pin s w = (r, s', w')"
  shows "Client_Unlock E t pin c =
    (case r of Inl e \<Rightarrow> Inl (translateUnlockError (wire_error e))
     | Inr (tok, x) \<Rightarrow> Inr (tok, time_unix (sint x)), c\<lparr>cl_net := (s', w')\<rparr>)"
  using assms by (auto simp: Client_Unlock_def rpc_connected server_call_open split: sum.splits prod.splits)

lemma translateUnlockError_status:
  "translateUnlockError (StatusError code m) =
    (if code = PermissionDenied then ErrPermissionDenied
     else if code = Unauthenticated then ErrSessionExpired
     else if code = ResourceExhausted then ErrorSuffix ErrRateLimited m
     else WrapErr ''unlock failed'' (StatusError code m))"
  by (cases code) (simp_all add: translateUnlockError_def)

text \<open>A submission without a valid ticket.\<close>

lemma Unlock_no_ticket:
  assumes "map_of (unlockTickets (auth s)) t = None"
  shows "\<exists>m. fst (Unlock D t pin s w) = Inl (StatusError ResourceExhausted m)
    \<or> fst (Unlock D t pin s w) = Inl (StatusError Unauthenticated m)"
  using assms by (auto simp: Unlock_def RedeemUnlockTicket_def split: prod.splits option.splits)

lemma unlock_validate_no_ticket:
  assumes "connected D E" "cl_net (u_client u) = (s, w)"
    and "map_of (unlockTickets (auth s)) (ar_UnlockTicket (u_auth u)) = None"
  shows "\<exists>m e. fst (unlock_validate E dir k pin u) \<in>
    {Some (Errorf (''rate limited: '' @ m)), Some sessionExpiredAgain,
     Some (PINFatalError (WrapErr ''re-authentication failed'' e))}"
proof -
  obtain r s' w' where run: "Unlock D (ar_UnlockTicket (u_auth u)) pin s w = (r, s', w')" by (rule prod_cases3)
  from Unlock_no_ticket [OF assms(3), of D pin w] run
  consider (limited) m where "r = Inl (StatusError ResourceExhausted m)"
    | (unauth) m where "r = Inl (StatusError Unauthenticated m)" by auto
  then show ?thesis
  proof cases
    case limited
    with Client_Unlock_connected [OF assms(1,2) run] show ?thesis
      by (simp add: unlock_validate_def translateUnlockError_status Let_def)
  next
    case unauth
    with Client_Unlock_connected [OF assms(1,2) run] show ?thesis
      by (auto simp: unlock_validate_def translateUnlockError_status Let_def split: prod.splits sum.splits)
  qed
qed

lemma unlock_validate_denied:
  assumes "connected D E" "cl_net (u_client u) = (s, w)"
    and "unlock_validate E dir k pin u = (Some e, u')" "e \<in> {Errorf DefaultPINError, tooManyAttempts}"
  shows "\<exists>s' w'. cl_net (u_client u') = (s', w') \<and> u_auth u' = u_auth u \<and>
    map_of (unlockTickets (auth s')) (ar_UnlockTicket (u_auth u')) = None \<and>
    u_attempts u' = u_attempts u + 1"
proof -
  obtain r s' w' where run: "Unlock D (ar_UnlockTicket (u_auth u)) pin s w = (r, s', w')" by (rule prod_cases3)
  note cl = Client_Unlock_connected [OF assms(1,2) run]
  have e: "\<forall>m. e \<noteq> Errorf (''rate limited: '' @ m)" "e \<noteq> sessionExpiredAgain"
      "\<forall>a x. e \<noteq> PINFatalError (WrapErr a x)"
    using assms(4) by (auto simp: DefaultPINError_def sessionExpiredAgain_def tooManyAttempts_def)
  from run show ?thesis
  proof (cases rule: Unlock_cases)
    case (limited m)
    with assms(3) cl e show ?thesis by (auto simp: unlock_validate_def translateUnlockError_status Let_def)
  next
    case (refused m w1 e')
    with assms(3) cl e show ?thesis
      by (auto simp: unlock_validate_def translateUnlockError_status Let_def split: prod.splits sum.splits)
  next
    case (revoked c m w1 token x am w2)
    have "map_of (unlockTickets (auth s')) (ar_UnlockTicket (u_auth u)) = None"
      using RedeemUnlockTicket_consumed [OF revoked(3)] revoked(7) by simp
    moreover from revoked(8) have "c = PermissionDenied \<or> c = FailedPrecondition" by auto
    ultimately show ?thesis
      using assms(3) cl revoked(1) e
      by (auto simp: unlock_validate_def translateUnlockError_status Let_def)
  next
    case unlocked
    with assms(3) cl show ?thesis by (simp add: unlock_validate_def Let_def)
  qed
qed

text \<open>A denied PIN is one too many only from the third attempt on.\<close>

lemma unlock_validate_few:
  assumes "connected D E" "u_attempts u < 2"
  shows "unlock_validate E dir k pin u \<noteq> (Some tooManyAttempts, u')"
proof
  assume run: "unlock_validate E dir k pin u = (Some tooManyAttempts, u')"
  obtain s w where n: "cl_net (u_client u) = (s, w)" by force
  obtain q s' w' where call: "Unlock D (ar_UnlockTicket (u_auth u)) pin s w = (q, s', w')" by (rule prod_cases3)
  note cl = Client_Unlock_connected [OF assms(1) n call]
  from call show False
    by (cases rule: Unlock_cases)
      (use run cl assms(2) in \<open>auto simp: unlock_validate_def translateUnlockError_status tooManyAttempts_def
        DefaultPINError_def sessionExpiredAgain_def Let_def split: prod.splits sum.splits\<close>)
qed

subsection \<open>Properties\<close>

text \<open>
  C19: A client that holds the secret key can log in: when the server answers its request
  with a challenge, and the verification arrives within thirty seconds while there is room
  for a session and randomness, the login succeeds. Without a PIN the client then carries a
  token that the server keeps for an hour; with one it has no token yet but the ticket of a
  fresh unlock, which the server keeps for thirty seconds.
\<close>

theorem login_completes:
  assumes "connected D E" "gpg_program (e_gpg E) holds" "holds k (cl_home c)"
    and "server_call D [] (ReqAuthenticate k) (cl_net c) = (Inr a, s1, w1)"
    and "fst (time_now w1) \<le> w_clock w1 + nonceTTL"
    and "length (sessions (auth s1)) < maxSessions" "w_rand w1 = Some b # bs"
  shows "\<exists>r c' s' w'. Client_Authenticate E k c = (Inr r, c') \<and> cl_net c' = (s', w') \<and>
    ar_RequiresPIN r = pinConfigured (auth s1) \<and>
    (if pinConfigured (auth s1)
     then cl_token c' = cl_token c \<and>
       map_of (unlockTickets (auth s')) (ar_UnlockTicket r) = Some (w_clock w' + nonceTTL)
     else cl_token c' = ar_Token r \<and>
       map_of (sessions (auth s')) (ar_Token r) = Some (w_clock w' + sessionTTL))"
proof -
  obtain nonce g where auth: "Client_Authenticate E k c
      = verify_challenge E nonce (c\<lparr>cl_net := (s1, w1), cl_home := g\<rparr>)"
    and nonce: "map_of (nonces (auth s1)) nonce = Some (w_clock w1 + nonceTTL)"
    by (rule Client_Authenticate_challenge [OF assms(1-4)])
  obtain vr am' w' where vn: "VerifyNonce nonce (auth s1) w1 = (Inr vr, am', w')"
    using VerifyNonce_succeeds [OF nonce assms(5,6,7)] by blast
  then have call: "server_call D [] (ReqVerifyChallenge nonce) (s1, w1) =
     (Inr (SessionToken \<lparr>t_Token = vr_Token vr, t_ExpiresAt = word_of_int (unix_of (vr_ExpiresAt vr)),
                t_RequiresPin = vr_RequiresPIN vr, t_UnlockTicket = vr_UnlockTicket vr\<rparr>),
      s1\<lparr>auth := am'\<rparr>, w')"
    by (simp add: server_call_open VerifyChallenge_def)
  show ?thesis
  proof (cases "pinConfigured (auth s1)")
    case True
    with VerifyNonce_pin_result [OF True vn] auth call show ?thesis
      by (simp add: verify_challenge_def rpc_connected [OF assms(1)])
  next
    case False
    with VerifyNonce_session_result [OF False vn] auth call show ?thesis
      by (simp add: verify_challenge_def rpc_connected [OF assms(1)])
  qed
qed

theorem login_completes_witness:
  "\<exists>r c' s' w'. Client_Authenticate demo_client_env ''me'' demo_client = (Inr r, c') \<and> cl_net c' = (s', w') \<and>
     \<not> ar_RequiresPIN r \<and> map_of (sessions (auth s')) (cl_token c') = Some (w_clock w' + sessionTTL)"
proof -
  let ?c = "server_call demo_deps [] (ReqAuthenticate ''me'') (cl_net demo_client)"
  obtain r s1 w1 where run: "?c = (r, s1, w1)" by (rule prod_cases3)
  have "\<not> isl (fst ?c)" by code_simp
  then obtain a where "r = Inr a" unfolding run by (cases r) auto
  with run have r: "?c = (Inr a, s1, w1)" by simp
  have "length (sessions (auth (fst (snd ?c)))) = 0 \<and> \<not> pinConfigured (auth (fst (snd ?c)))" by code_simp
  then have none: "length (sessions (auth s1)) < maxSessions" "\<not> pinConfigured (auth s1)"
    unfolding run by (auto simp: maxSessions_def)
  have "hd (w_rand (snd (snd ?c))) = Some (replicate 32 (char_of (2::nat))) \<and> w_rand (snd (snd ?c)) \<noteq> []
      \<and> w_ticks (snd (snd ?c)) = []" by code_simp
  then obtain bs where w1: "w_rand w1 = Some (replicate 32 (char_of (2::nat))) # bs" "w_ticks w1 = []"
    unfolding run by (cases "w_rand w1") auto
  have t: "fst (time_now w1) \<le> w_clock w1 + nonceTTL" using w1(2) by (simp add: time_now_def nonceTTL_def)
  from login_completes [OF demo_connected demo_gpg_program _ r t none(1) w1(1)] none(2) show ?thesis by auto
qed

text \<open>Logging in sets the client's token only when it gives a session.\<close>

definition token_after :: "(go_error + auth_result) \<Rightarrow> string \<Rightarrow> string" where
  "token_after r t = (case r of Inl _ \<Rightarrow> t | Inr a \<Rightarrow> if ar_RequiresPIN a then t else ar_Token a)"

lemma verify_challenge_token:
  "verify_challenge E nonce c = (r, c') \<Longrightarrow> cl_token c' = token_after r (cl_token c)"
  by (auto simp: verify_challenge_def rpc_def token_after_def Let_def
      split: prod.splits sum.splits response.splits if_splits)

lemma Client_Authenticate_token:
  "Client_Authenticate E k c = (r, c') \<Longrightarrow> cl_token c' = token_after r (cl_token c)"
  by (auto simp: Client_Authenticate_def rpc_def Let_def dest!: verify_challenge_token
      split: prod.splits sum.splits response.splits option.splits if_splits)
    (simp_all add: token_after_def)

lemma Vault_Authenticate_token:
  "Vault_Authenticate E k c = (r, c') \<Longrightarrow> cl_token c' = token_after r (cl_token c)"
  by (auto simp: Vault_Authenticate_def token_after_def dest!: Client_Authenticate_token
      split: prod.splits sum.splits)

lemma cacheSession_token:
  "cl_token (cacheSession E dir t e c) = t" "cl_net (cacheSession E dir t e c) = cl_net c"
  by (simp_all add: cacheSession_def SaveSessionToken_def SetToken_def Let_def
      split: prod.splits option.splits sum.splits)

text \<open>
  C20: A cached session spares the login: once a session file has been saved, an
  authentication that finds it before its expiry succeeds with exactly the saved token and
  talks neither to the server nor to gpg, whatever the server thinks of the token; after the
  expiry the token is not used: the authentication is a login. When the login fails so does
  the authentication, and the client's token is what it was; when it gives a session, that
  session's token is the client's and is what is cached; when it asks for a PIN, the prompt
  decides, starting from the token the client had.
\<close>

theorem cached_session_reused:
  assumes "user_files E" "ascii t" "0 \<le> ttl" "ttl * second < 2 ^ 63"
    and "SaveSessionToken E dir t ttl c = (None, c1)" "json_time (w_clock (cl_clock c1) + ttl * second)"
    and "cl_files c2 = cl_files c1"
  shows "if fst (time_now (cl_clock c2)) \<le> w_clock (cl_clock c1) + ttl * second
    then AuthenticateSession E dir k prompt tty c2
           = (None, [], c2\<lparr>cl_token := t, cl_clock := snd (time_now (cl_clock c2))\<rparr>)
    else (case Vault_Authenticate E k (c2\<lparr>cl_clock := snd (time_now (cl_clock c2))\<rparr>) of
        (Inl e, c3) \<Rightarrow> cl_token c3 = cl_token c2 \<and>
           AuthenticateSession E dir k prompt tty c2 = (Some (WrapErr ''authentication failed'' e), [], c3)
      | (Inr r, c3) \<Rightarrow>
          (case AuthenticateSession E dir k prompt tty c2 of (err, notes, c4) \<Rightarrow>
             if ar_RequiresPIN r
             then cl_token c3 = cl_token c2 \<and> c4 = snd (unlockWithPIN E dir k prompt r c3) \<and>
               (err = None \<longleftrightarrow> fst (unlockWithPIN E dir k prompt r c3) = None)
             else err = None \<and> cl_token c4 = ar_Token r \<and> cl_net c4 = cl_net c3 \<and>
               c4 = cacheSession E dir (ar_Token r) (ar_ExpiresAt r) c3))"
proof -
  have ttl: "sint (word_of_int (ttl * second) :: 64 word) = ttl * second"
    using assms(3,4) by (intro sint_word_of_int64) simp_all
  note sess = user_files.session_file [OF assms(1,5,2) _ assms(7), unfolded ttl, OF assms(6)]
  obtain r c3 where run: "Vault_Authenticate E k (c2\<lparr>cl_clock := snd (time_now (cl_clock c2))\<rparr>) = (r, c3)"
    by force
  from Vault_Authenticate_token [OF run] show ?thesis
    by (cases r)
      (auto simp: AuthenticateSession_def sess SetToken_def run cacheSession_token token_after_def split: prod.splits option.splits if_splits)
qed

theorem cached_session_reused_witness:
  "\<exists>c1. SaveSessionToken demo_client_env ''/c'' ''abc'' 3600 demo_client = (None, c1) \<and>
     fst (AuthenticateSession demo_client_env ''/c'' ''me'' (\<lambda>v u. (None, u)) True c1) = None \<and>
     cl_token (snd (snd (AuthenticateSession demo_client_env ''/c'' ''me'' (\<lambda>v u. (None, u)) True c1))) = ''abc''"
proof -
  let ?c = "SaveSessionToken demo_client_env ''/c'' ''abc'' 3600 demo_client"
  obtain r c1 where run: "?c = (r, c1)" by force
  have "fst ?c = None" by code_simp
  with run have r: "?c = (None, c1)" by simp
  have "json_time (w_clock (cl_clock (snd ?c)) + 3600 * second)" by code_simp
  then have jt: "json_time (w_clock (cl_clock c1) + 3600 * second)" using run by simp
  have "w_ticks (cl_clock (snd ?c)) = []" by code_simp
  then have "fst (time_now (cl_clock c1)) \<le> w_clock (cl_clock c1) + 3600 * second"
    using run by (simp add: time_now_def)
  with cached_session_reused [OF demo_files.user_files_axioms _ _ _ r jt refl,
      of "''me''" "\<lambda>v u. (None, u)" True] r show ?thesis by simp
qed

text \<open>
  C21: A changed PIN strands the client that changed it: the server drops every session, the
  session file stays, and so, until it expires, every later command authenticates from the
  file without an error, and then each of its calls is refused as unauthenticated.
\<close>

theorem pin_change_strands_client:
  assumes "connected D E" "Client_SetPIN E currentPIN newPIN c = (Inr u, c1)"
    and "Config_SessionToken E dir (c1\<lparr>cl_clock := w\<rparr>) = (Inr t, c2)"
  shows "cl_files c1 = cl_files c \<and>
    AuthenticateSession E dir k prompt tty (c1\<lparr>cl_clock := w\<rparr>) = (None, [], SetToken t c2) \<and>
    (FullMethod req \<notin> skipAuthMethods \<longrightarrow>
      (\<exists>m. fst (rpc E (authedCtx (SetToken t c2)) req (SetToken t c2)) = Inl (StatusError Unauthenticated m)))"
proof -
  from assms(2) [unfolded Client_SetPIN_def] obtain a n where
    call: "server_call D (authedCtx c) (ReqSetPIN currentPIN newPIN) (cl_net c) = (Inr a, n)"
    and c1: "c1 = c\<lparr>cl_net := n\<rparr>"
    by (rule authed_Inr [OF _ assms(1)])
  obtain s1 w1 where n: "n = (s1, w1)" by force
  have none: "sessions (auth s1) = []" using call n by (cases "cl_net c") (auto dest: server_call_SetPIN)
  from assms(3) have net: "cl_net c2 = (s1, w1)"
    by (auto simp: Config_SessionToken_def c1 n Let_def split: sum.splits prod.splits if_splits)
  have "\<exists>m. fst (rpc E md req (SetToken t c2)) = Inl (StatusError Unauthenticated m)"
    if "FullMethod req \<notin> skipAuthMethods" for md
    using server_call_no_session [OF none that, of D md w1] net
    by (auto simp: rpc_connected [OF assms(1)] SetToken_def split: prod.splits)
  with c1 assms(3) show ?thesis by (simp add: AuthenticateSession_def)
qed

text \<open>The state after logging in with the demonstration server, and a saved session.\<close>

definition demo_logged_in :: "((((bytes, bytes) rbt, unit) server \<times> world), unit, (string \<times> bytes) list) client" where
  "demo_logged_in = snd (snd (AuthenticateSession demo_client_env ''/c'' ''me'' (\<lambda>v u. (None, u)) True demo_client))"

theorem pin_change_strands_client_witness:
  "\<exists>c1. Client_SetPIN demo_client_env [] ''1234'' demo_logged_in = (Inr (), c1) \<and>
     (\<exists>t c2 m. AuthenticateSession demo_client_env ''/c'' ''me'' (\<lambda>v u. (None, u)) True
         (c1\<lparr>cl_clock := demo_rand_world\<rparr>) = (None, [], SetToken t c2) \<and>
       fst (rpc demo_client_env (authedCtx (SetToken t c2)) (ReqGetEntry []) (SetToken t c2))
         = Inl (StatusError Unauthenticated m))"
proof -
  let ?c = "Client_SetPIN demo_client_env [] ''1234'' demo_logged_in"
  obtain r c1 where run: "?c = (r, c1)" by force
  have "fst ?c = Inr ()" by code_simp
  with run have r: "?c = (Inr (), c1)" by simp
  obtain x c2 where load: "Config_SessionToken demo_client_env ''/c'' (c1\<lparr>cl_clock := demo_rand_world\<rparr>) = (x, c2)"
    by force
  have "\<not> isl (fst (Config_SessionToken demo_client_env ''/c'' ((snd ?c)\<lparr>cl_clock := demo_rand_world\<rparr>)))"
    by code_simp
  with load run obtain t where "x = Inr t" by (cases x) auto
  with load have load: "Config_SessionToken demo_client_env ''/c'' (c1\<lparr>cl_clock := demo_rand_world\<rparr>) = (Inr t, c2)"
    by simp
  from pin_change_strands_client [OF demo_connected r load, of "''me''" "\<lambda>v u. (None, u)" True "ReqGetEntry []"] r
  show ?thesis by (auto simp: skipAuthMethods_def)
qed

text \<open>
  The submissions of a user who waits as long as he likes before each: the validator \<open>v\<close> is
  called on one PIN after the other, the clock and the randomness of the server being what they
  are by then. The answers and the state at the end.
\<close>

definition at_world :: "world \<Rightarrow> ((('b, 'g) server \<times> world), 'h, 'f) unlock \<Rightarrow>
    ((('b, 'g) server \<times> world), 'h, 'f) unlock" where
  "at_world w u = u\<lparr>u_client := (u_client u)\<lparr>cl_net := (fst (cl_net (u_client u)), w)\<rparr>\<rparr>"

fun submissions :: "(string \<Rightarrow> ((('b, 'g) server \<times> world), 'h, 'f) unlock \<Rightarrow>
      go_error option \<times> ((('b, 'g) server \<times> world), 'h, 'f) unlock) \<Rightarrow> (string \<times> world) list \<Rightarrow>
    ((('b, 'g) server \<times> world), 'h, 'f) unlock \<Rightarrow>
    go_error option list \<times> ((('b, 'g) server \<times> world), 'h, 'f) unlock" where
  "submissions v [] u = ([], u)"
| "submissions v ((pin, w) # subs) u =
     (let (r, u) = v pin (at_world w u); (rs, u) = submissions v subs u in (r # rs, u))"

definition rate_limited :: "go_error option \<Rightarrow> bool" where
  "rate_limited r \<longleftrightarrow> (\<exists>m. r = Some (Errorf (''rate limited: '' @ m)))"

definition ticket_gone :: "((('b, 'g) server \<times> world), 'h, 'f) unlock \<Rightarrow> bool" where
  "ticket_gone u \<longleftrightarrow>
     map_of (unlockTickets (auth (fst (cl_net (u_client u))))) (ar_UnlockTicket (u_auth u)) = None"

lemma ticket_gone_at_world [simp]: "ticket_gone (at_world w u) = ticket_gone u"
  by (simp add: ticket_gone_def at_world_def)

text \<open>What the validator does once its ticket is used up.\<close>

lemma unlock_validate_gone:
  assumes "connected D E" "ticket_gone u" "unlock_validate E dir k pin u = (r, u')"
  shows "rate_limited r \<and> u_attempts u' = u_attempts u + 1 \<and> ticket_gone u'
    \<or> r = Some sessionExpiredAgain \<and> u_attempts u' = 0
    \<or> (\<exists>e. r = Some (PINFatalError (WrapErr ''re-authentication failed'' e)))"
proof -
  obtain s w where n: "cl_net (u_client u) = (s, w)" by force
  obtain q s' w' where run: "Unlock D (ar_UnlockTicket (u_auth u)) pin s w = (q, s', w')" by (rule prod_cases3)
  from assms(2) n have gone: "map_of (unlockTickets (auth s)) (ar_UnlockTicket (u_auth u)) = None"
    by (simp add: ticket_gone_def)
  note cl = Client_Unlock_connected [OF assms(1) n run]
  from Unlock_no_ticket [OF gone, of D pin w] run
  consider (limited) m where "q = Inl (StatusError ResourceExhausted m)"
    | (unauth) m where "q = Inl (StatusError Unauthenticated m)" by auto
  then show ?thesis
  proof cases
    case limited
    with run have "s' = s"
      by (auto simp: Unlock_def Let_def split: prod.splits option.splits sum.splits if_splits)
    with limited cl gone assms(3) show ?thesis
      by (auto simp: unlock_validate_def translateUnlockError_status rate_limited_def ticket_gone_def Let_def)
  next
    case unauth
    with cl assms(3) show ?thesis
      by (auto simp: unlock_validate_def translateUnlockError_status Let_def split: prod.splits sum.splits)
  qed
qed

lemma submissions_gone:
  assumes "connected D E"
  shows "submissions (unlock_validate E dir k) subs u = (rs, u') \<Longrightarrow> ticket_gone u \<Longrightarrow>
    list_all rate_limited rs \<Longrightarrow> ticket_gone u'"
proof (induction subs arbitrary: u rs)
  case Nil
  then show ?case by simp
next
  case (Cons x subs)
  obtain pin w where x: "x = (pin, w)" by force
  obtain r u1 where step: "unlock_validate E dir k pin (at_world w u) = (r, u1)" by force
  obtain rs1 where rest: "submissions (unlock_validate E dir k) subs u1 = (rs1, u')" "rs = r # rs1"
    using Cons.prems(1) by (auto simp: x step split: prod.splits)
  have "rate_limited r" "list_all rate_limited rs1" using Cons.prems(3) rest(2) by simp_all
  moreover have "ticket_gone u1"
    using unlock_validate_gone [OF assms _ step] Cons.prems(2) \<open>rate_limited r\<close>
    by (auto simp: rate_limited_def sessionExpiredAgain_def)
  ultimately show ?case using Cons.IH rest(1) by blast
qed

text \<open>
  C22: One wrong PIN makes the prompt refuse the right one, in the command line's validator and
  in the overlay's. After the server has denied a PIN, however many PINs are submitted and
  however long the user waits before each, the next one is not judged as long as all answers
  since then were that the user is rate limited: it is answered as rate limited again, or that
  the session expired, or a new login fails. When the session expired the count of attempts is
  back at zero, so a PIN that is denied next counts as the first attempt and is answered as an
  incorrect PIN, not as one too many: denied PINs alone never reach the limit of three.
\<close>

theorem next_pin_not_judged:
  assumes "connected D E" "v = unlock_validate E dir k \<or> v = makeDeferredUnlockValidator E dir k"
    and "v pin u = (Some (Errorf DefaultPINError), u1)"
    and "submissions v subs u1 = (rs, u2)" "list_all rate_limited rs"
    and "v pin2 (at_world w2 u2) = (r, u3)"
  shows "rate_limited r \<and> u_attempts u3 = u_attempts u2 + 1
    \<or> r = Some sessionExpiredAgain \<and> u_attempts u3 = 0 \<and>
       (\<forall>pin3 w3 u4. v pin3 (at_world w3 u3) \<noteq> (Some tooManyAttempts, u4))
    \<or> (\<exists>e. r = Some (PINFatalError (WrapErr ''re-authentication failed'' e)))"
proof -
  have v: "v = unlock_validate E dir k" using assms(2) by (auto simp: deferred_validator_same)
  obtain s w where n: "cl_net (u_client u) = (s, w)" by force
  from unlock_validate_denied [OF assms(1) n assms(3) [unfolded v]] have "ticket_gone u1"
    by (auto simp: ticket_gone_def)
  from submissions_gone [OF assms(1) assms(4) [unfolded v] this assms(5)] have "ticket_gone (at_world w2 u2)"
    by simp
  from unlock_validate_gone [OF assms(1) this assms(6) [unfolded v]]
  consider "rate_limited r" "u_attempts u3 = u_attempts u2 + 1"
    | "r = Some sessionExpiredAgain" "u_attempts u3 = 0"
    | e where "r = Some (PINFatalError (WrapErr ''re-authentication failed'' e))"
    by (auto simp: at_world_def)
  then show ?thesis
  proof cases
    case 2
    then show ?thesis
      using unlock_validate_few [OF assms(1), of "at_world _ u3"] by (simp add: v at_world_def)
  qed simp_all
qed

definition demo_unlock :: "((((bytes, bytes) rbt, unit) server \<times> world), unit, (string \<times> bytes) list) unlock" where
  "demo_unlock = \<lparr>u_client = demo_client\<lparr>cl_net := demo_state\<rparr>, u_attempts = 0,
     u_auth = \<lparr>ar_Token = [], ar_RequiresPIN = True, ar_UnlockTicket = nth_token 5, ar_ExpiresAt = zero_time\<rparr>\<rparr>"

theorem next_pin_not_judged_witness:
  "\<exists>u1 u3. unlock_validate demo_client_env ''/c'' ''me'' ''0000'' demo_unlock = (Some (Errorf DefaultPINError), u1) \<and>
     unlock_validate demo_client_env ''/c'' ''me'' ''1234''
       (at_world ((snd (cl_net (u_client u1)))\<lparr>w_clock := w_clock (snd (cl_net (u_client u1))) + 2 * second\<rparr>) u1)
       = (Some sessionExpiredAgain, u3) \<and> u_attempts u3 = 0"
proof -
  let ?v = "unlock_validate demo_client_env ''/c'' ''me''"
  let ?later = "\<lambda>u. (snd (cl_net (u_client u)))\<lparr>w_clock := w_clock (snd (cl_net (u_client u))) + 2 * second\<rparr>"
  obtain r u1 where run: "?v ''0000'' demo_unlock = (r, u1)" by force
  obtain q u3 where again: "?v ''1234'' (at_world (?later u1) u1) = (q, u3)" by force
  have facts: "fst (?v ''0000'' demo_unlock) = Some (Errorf DefaultPINError) \<and>
    fst (?v ''1234'' (at_world (?later (snd (?v ''0000'' demo_unlock))) (snd (?v ''0000'' demo_unlock))))
      = Some sessionExpiredAgain" by code_simp
  then have r: "?v ''0000'' demo_unlock = (Some (Errorf DefaultPINError), u1)"
    and q: "q = Some sessionExpiredAgain" using run again by simp_all
  have none: "submissions ?v [] u1 = ([], u1)" "list_all rate_limited []" by simp_all
  from next_pin_not_judged [OF demo_connected disjI1 [OF refl] r none again] q have "u_attempts u3 = 0"
    by (auto simp: rate_limited_def sessionExpiredAgain_def)
  with r again q show ?thesis by blast
qed

text \<open>
  C23: What the user stores is what the user reads, and of the payload only the ciphertext
  leaves the machine: adding an entry makes one call to the server, which carries the name,
  the type and the metadata as they are, in the clear, and in place of the payload the
  ciphertext that gpg made of it. When the session is still live after that, reading the entry
  by the identifier it got succeeds, the server's copy has that ciphertext, the name and the
  metadata (in the form JSON keeps), and decrypting gives the payload back, for every holder
  of the secret key.
\<close>

theorem added_entry_decrypts:
  assumes con: "connected D E" and prog: "gpg_program (e_gpg E) holds" "holds k (cl_home c)"
    and store: "bbolt (d_bolt D)" "store_inv (d_bolt D) (storage (fst (cl_net c)))"
      "fresh_uuid (d_bolt D) (storage (fst (cl_net c))) (snd (cl_net c))"
    and add: "Vault_AddEntry E k env c = (None, env1, c1)"
    and live: "session_live (auth (fst (cl_net c1))) (fst (time_now (snd (cl_net c1)))) (cl_token c1)"
      "cl_token c1 \<noteq> []"
  shows "\<exists>got c2. Vault_GetEntry E (ID env1) c1 = (Inr got, c2)
    \<and> cl_net c1 = snd (server_call D (authedCtx c)
        (ReqCreateEntry (Some (envelopeToProto (env\<lparr>Payload := Payload got\<rparr>)))) (cl_net c))
    \<and> fst (gpg_Encrypt (e_gpg E) (Payload env) k (cl_home c)) = Inr (Payload got)
    \<and> Payload got = Payload env1 \<and> ID got = ID env1 \<and> Name got = utf8_clean (Name env)
    \<and> Meta got = json_meta (Meta env)
    \<and> (holds k g \<longrightarrow> fst (DecryptAndUse (e_gpg E) (Payload got) (\<lambda>p _. p) [] g) = None \<and>
        fst (snd (DecryptAndUse (e_gpg E) (Payload got) (\<lambda>p _. p) [] g)) = Payload env)"
proof -
  obtain ct g1 i where enc: "gpg_Encrypt (e_gpg E) (Payload env) k (cl_home c) = (Inr ct, g1)"
    and create: "Client_CreateEntry E (env\<lparr>Payload := ct\<rparr>) (c\<lparr>cl_home := g1\<rparr>) = (Inr i, c1)"
    and env1: "env1 = env\<lparr>Payload := ct, ID := i\<rparr>"
    using add by (auto simp: Vault_AddEntry_def vault_encrypt_def split: prod.splits sum.splits)
  obtain s w where n: "cl_net c = (s, w)" by force
  from create [unfolded Client_CreateEntry_def] obtain a n1 where
    call: "server_call D (authedCtx (c\<lparr>cl_home := g1\<rparr>))
        (ReqCreateEntry (Some (envelopeToProto (env\<lparr>Payload := ct\<rparr>)))) (s, w) = (Inr a, n1)"
    and a: "(case a of CreateEntryResponse i \<Rightarrow> Some i | _ \<Rightarrow> None) = Some i"
    and c1: "c1 = c\<lparr>cl_home := g1, cl_net := n1\<rparr>"
    by (rule authed_Inr [OF _ con]) (simp add: n)
  obtain s1 w1 where n1: "n1 = (s1, w1)" by force
  from call [unfolded n1] obtain i' am w0 where i': "a = CreateEntryResponse i'" and w0: "w_uuid w0 = w_uuid w"
    and created: "CreateEntry D (Some (envelopeToProto (env\<lparr>Payload := ct\<rparr>))) (s\<lparr>auth := am\<rparr>) w0 = (Inr i', s1, w1)"
    by (rule server_call_CreateEntry)
  from a i' have i: "i' = i" by simp
  have "fresh_uuid (d_bolt D) (storage (s\<lparr>auth := am\<rparr>)) w0" "store_inv (d_bolt D) (storage (s\<lparr>auth := am\<rparr>))"
    using store(2,3) n by (simp_all add: fresh_uuid_world [OF w0])
  from CreateEntry_then_GetEntry [OF store(1) this(2,1) created] obtain q where
    q: "GetEntry D i s1 = Inr q" "p_Id q = i" "p_Payload q = ct" "p_Name q = utf8_clean (Name env)"
      "p_Meta q = json_meta (Meta env)"
    unfolding i by (auto simp: envelopeToProto_def)
  have tok: "authedCtx c1 = [cl_token c1]" "cl_net c1 = (s1, w1)" using live(2) c1 n1 by (auto simp: authedCtx_def)
  from live(1) tok(2) have "session_live (auth s1) (fst (time_now w1)) (cl_token c1)" by simp
  from server_call_GetEntry [OF this q(1)] obtain n2
    where "server_call D [cl_token c1] (ReqGetEntry i) (s1, w1) = (Inr (EntryResponse q), n2)" by blast
  then have get: "Vault_GetEntry E (ID env1) c1 = (Inr (protoToEnvelope q), c1\<lparr>cl_net := n2\<rparr>)"
    using env1 tok by (simp add: Vault_GetEntry_def Client_GetEntry_def authed_def rpc_connected [OF con])
  have got: "Payload (protoToEnvelope q) = ct" "ID (protoToEnvelope q) = i"
      "Name (protoToEnvelope q) = utf8_clean (Name env)" "Meta (protoToEnvelope q) = json_meta (Meta env)"
    using q by (simp_all add: protoToEnvelope_def)
  have "fst (gpg_Decrypt (e_gpg E) ct g) = Inr (Payload env)" if "holds k g"
    by (rule gpg_program.decrypt_own [OF prog(1) that enc])
  then have "fst (DecryptAndUse (e_gpg E) ct (\<lambda>p _. p) [] g) = None \<and>
      fst (snd (DecryptAndUse (e_gpg E) ct (\<lambda>p _. p) [] g)) = Payload env" if "holds k g"
    using that by (auto simp: DecryptAndUse_def split: prod.splits sum.splits)
  moreover have "authedCtx (c\<lparr>cl_home := g1\<rparr>) = authedCtx c" by (simp add: authedCtx_def)
  ultimately show ?thesis using get got env1 enc call n tok(2) n1 by simp
qed

definition demo_new_entry :: envelope where
  "demo_new_entry = zero_envelope\<lparr>Name := ''mail'', Type := 1, Payload := ''p4ss''\<rparr>"

text \<open>A client with a session on the server with the empty store.\<close>

definition demo_writer :: "((((bytes, bytes) rbt, unit) server \<times> world), unit, (string \<times> bytes) list) client" where
  "demo_writer = demo_client\<lparr>cl_token := ''t'', cl_net :=
     (demo_server\<lparr>auth := (NewAuthManager [])\<lparr>sessions := [(''t'', 2000000000 * second)]\<rparr>\<rparr>, demo_store_world)\<rparr>"

theorem added_entry_decrypts_witness:
  "\<exists>env1 c1 got c2. Vault_AddEntry demo_client_env ''me'' demo_new_entry demo_writer = (None, env1, c1) \<and>
     Vault_GetEntry demo_client_env (ID env1) c1 = (Inr got, c2) \<and> Payload got \<noteq> ''p4ss'' \<and>
     fst (snd (DecryptAndUse demo_gpg (Payload got) (\<lambda>p _. p) [] ())) = ''p4ss''"
proof -
  let ?c = "Vault_AddEntry demo_client_env ''me'' demo_new_entry demo_writer"
  obtain r env1 c1 where run: "?c = (r, env1, c1)" by (rule prod_cases3)
  have "case ?c of (r, e, c1) \<Rightarrow> r = None \<and> Payload e = ''ENC:p4ss'' \<and>
      session_live (auth (fst (cl_net c1))) (fst (time_now (snd (cl_net c1)))) (cl_token c1) \<and>
      cl_token c1 \<noteq> []" by code_simp
  with run have r: "?c = (None, env1, c1)" and ct: "Payload env1 = ''ENC:p4ss''"
    and live: "session_live (auth (fst (cl_net c1))) (fst (time_now (snd (cl_net c1)))) (cl_token c1)"
      "cl_token c1 \<noteq> []" by simp_all
  have "storage demo_server = demo_store"
    by (simp add: demo_server_def NewServer_def Let_def split: prod.splits)
  then have st: "storage (fst (cl_net demo_writer)) = demo_store" by (simp add: demo_writer_def)
  have inv: "store_inv (d_bolt demo_deps) (storage (fst (cl_net demo_writer)))"
    using demo_store_inv st by (simp add: demo_deps_def)
  have fresh: "fresh_uuid (d_bolt demo_deps) (storage (fst (cl_net demo_writer))) (snd (cl_net demo_writer))"
    unfolding st using demo_fresh by (simp add: demo_deps_def demo_writer_def)
  from added_entry_decrypts [OF demo_connected demo_gpg_program _ demo_deps_bolt inv fresh r live, of "()"] ct r
  show ?thesis by (auto simp: demo_new_entry_def demo_client_env_def)
qed

end
