(* ===== verification/Search.thy ===== *)
theory Search
  imports Go_Strings Entity "HOL-Library.Sublist" "HOL-Library.Multiset"
begin

text \<open>
  Finding entries: the filter of \<^verbatim>\<open>internal/domain/service/search.go\<close>, the fuzzy search of
  \<^verbatim>\<open>pkg/fuzzysearch/fuzzysearch.go\<close>, and from \<^verbatim>\<open>internal/adapters/cli/client\<close> the
  resolution of a query to one entry with its picker (\<^verbatim>\<open>resolve.go\<close>) and the lines of
  dmenu (\<^verbatim>\<open>dmenu.go\<close>).
\<close>

subsection \<open>Filters\<close>

record search_opts =
  so_Domain :: string
  so_Email :: string
  so_Query :: string

definition MatchesOpts :: "unicode \<Rightarrow> envelope \<Rightarrow> search_opts \<Rightarrow> bool" where
  "MatchesOpts U e opts =
     (if so_Domain opts \<noteq> [] then
        contains (to_lower U (meta_get (Meta e) ''site'')) (to_lower U (so_Domain opts))
      else if so_Email opts \<noteq> [] then
        equal_fold U (meta_get (Meta e) ''username'') (so_Email opts)
      else if so_Query opts \<noteq> [] then
        let q = to_lower U (so_Query opts) in
        contains (to_lower U (Name e)) q \<or> contains (to_lower U (meta_get (Meta e) ''site'')) q
          \<or> contains (to_lower U (meta_get (Meta e) ''username'')) q
      else False)"

fun FilterEntries :: "unicode \<Rightarrow> envelope list \<Rightarrow> search_opts \<Rightarrow> envelope list" where
  "FilterEntries U [] opts = []"
| "FilterEntries U (e # es) opts =
     (if MatchesOpts U e opts then e # FilterEntries U es opts else FilterEntries U es opts)"

lemma FilterEntries_filter: "FilterEntries U es opts = filter (\<lambda>e. MatchesOpts U e opts) es"
  by (induction es) simp_all

subsection \<open>Fuzzy search\<close>

text \<open>
  The loop of \<^verbatim>\<open>Score\<close> over the rest of the target: the rune before it (none at index 0), the
  runes of the query still to match, the length of the current run and the score.
\<close>

fun score_loop :: "unicode \<Rightarrow> nat option \<Rightarrow> nat list \<Rightarrow> nat list \<Rightarrow> int \<Rightarrow> int \<Rightarrow> int" where
  "score_loop U prev ts [] consecutive score = score"
| "score_loop U prev [] (q # qs) consecutive score = 0"
| "score_loop U prev (t # ts) (q # qs) consecutive score =
     (let atBoundary = (case prev of None \<Rightarrow> True | Some p \<Rightarrow> \<not> is_letter U p \<and> \<not> is_digit U p) in
      if t = q then
        let consecutive = consecutive + 1;
            score = score + 1 + (if atBoundary then 10 else 0) + (if prev = None then 20 else 0)
                      + (if consecutive > 1 then 5 else 0)
        in score_loop U (Some t) ts qs consecutive score
      else score_loop U (Some t) ts (q # qs) 0 score)"

definition Score :: "unicode \<Rightarrow> string \<Rightarrow> string \<Rightarrow> int" where
  "Score U query target =
     (let q = to_lower U query; t = to_lower U target in
      if q = [] then 0 else if q = t then 1000
      else score_loop U None (runes t) (runes q) 0 0)"

record fuzzy_match =
  m_Index :: nat
  m_Score :: int

text \<open>The inner loop over the words: no total when one of them does not match.\<close>

fun word_scores :: "unicode \<Rightarrow> string list \<Rightarrow> string \<Rightarrow> int \<Rightarrow> int option" where
  "word_scores U [] item tot = Some tot"
| "word_scores U (w # ws) item tot =
     (let s = Score U w item in if s = 0 then None else word_scores U ws item (tot + s))"

fun collect_matches :: "unicode \<Rightarrow> string list \<Rightarrow> nat \<Rightarrow> string list \<Rightarrow> fuzzy_match list" where
  "collect_matches U words i [] = []"
| "collect_matches U words i (item # items) =
     (case word_scores U words item 0 of
        Some tot \<Rightarrow>
          if tot > 0 then \<lparr>m_Index = i, m_Score = tot\<rparr> # collect_matches U words (Suc i) items
          else collect_matches U words (Suc i) items
      | None \<Rightarrow> collect_matches U words (Suc i) items)"

text \<open>The order that \<^verbatim>\<open>sort.Slice\<close> gives equal elements is its own; it is the argument \<open>sorter\<close>.\<close>

type_synonym 'a sorter = "('a \<Rightarrow> 'a \<Rightarrow> bool) \<Rightarrow> 'a list \<Rightarrow> 'a list"

definition Fuzzy_Search :: "unicode \<Rightarrow> fuzzy_match sorter \<Rightarrow> string \<Rightarrow> string list \<Rightarrow> int \<Rightarrow> fuzzy_match list" where
  "Fuzzy_Search U sorter query items limit =
     (let words = string_fields query in
      if words = [] then []
      else let matches = sorter (\<lambda>a b. m_Score a > m_Score b) (collect_matches U words 0 items)
           in if limit > 0 \<and> int (length matches) > limit then take (nat limit) matches else matches)"

subsection \<open>Picking one entry\<close>

record picker =
  pk_items :: "(envelope \<times> string) list"
  pk_cursor :: int
  pk_selected :: int

definition formatPickerLabel :: "envelope \<Rightarrow> string" where
  "formatPickerLabel e =
     (if Type e = EntryTypeLogin
      then ''['' @ EntryType_String (Type e) @ ''] '' @ Name e @ '' ('' @ meta_get (Meta e) ''username''
             @ '') -- '' @ meta_get (Meta e) ''site''
      else ''['' @ EntryType_String (Type e) @ ''] '' @ Name e)"

text \<open>One key press: the model after it, and whether the program quits.\<close>

definition picker_Update :: "picker \<Rightarrow> string \<Rightarrow> picker \<times> bool" where
  "picker_Update m key =
     (if key = ''up'' \<or> key = ''k'' then
        (if pk_cursor m > 0 then m\<lparr>pk_cursor := pk_cursor m - 1\<rparr> else m, False)
      else if key = ''down'' \<or> key = ''j'' then
        (if pk_cursor m < int (length (pk_items m)) - 1 then m\<lparr>pk_cursor := pk_cursor m + 1\<rparr> else m, False)
      else if key = ''enter'' then (m\<lparr>pk_selected := pk_cursor m\<rparr>, True)
      else if key = ''q'' \<or> key = ''esc'' \<or> key = ''ctrl+c'' then (m\<lparr>pk_selected := -1\<rparr>, True)
      else (m, False))"

fun picker_lines :: "int \<Rightarrow> int \<Rightarrow> (envelope \<times> string) list \<Rightarrow> string" where
  "picker_lines cur i [] = []"
| "picker_lines cur i ((e, label) # items) =
     (if cur = i then ''> '' else ''  '') @ label @ newline # picker_lines cur (i + 1) items"

definition picker_View :: "picker \<Rightarrow> string" where
  "picker_View m =
     ''Multiple matches found. Select one:'' @ [newline, newline] @
     picker_lines (pk_cursor m) 0 (pk_items m) @
     newline # ''(j/k or up/down to move, enter to select, esc to cancel)'' @ [newline]"

text \<open>The program over the keys to come; it does not end by itself when there are no more.\<close>

fun picker_run :: "picker \<Rightarrow> string list \<Rightarrow> picker option" where
  "picker_run m [] = None"
| "picker_run m (key # keys) =
     (case picker_Update m key of (m, quit) \<Rightarrow> if quit then Some m else picker_run m keys)"

definition pickEntry :: "envelope list \<Rightarrow> string list \<Rightarrow> go_error + envelope" where
  "pickEntry entries keys =
     (let m = \<lparr>pk_items = map (\<lambda>e. (e, formatPickerLabel e)) entries, pk_cursor = 0, pk_selected = -1\<rparr>
      in case picker_run m keys of
           None \<Rightarrow> Inl (WrapErr ''picker failed'' (Errorf ''program was killed''))
         | Some final \<Rightarrow>
             if pk_selected final < 0 \<or> pk_selected final \<ge> int (length entries)
             then Inl (Errorf ''selection cancelled'')
             else Inr (entries ! nat (pk_selected final)))"

text \<open>The message of \<^verbatim>\<open>AmbiguousMatchError\<close>; the middle dot is U+00B7.\<close>

definition ambiguous_line :: "envelope \<Rightarrow> string" where
  "ambiguous_line m =
     (let site = meta_get (Meta m) ''site''; username = meta_get (Meta m) ''username'' in
      if site \<noteq> [] \<or> username \<noteq> []
      then ''  '' @ ID m @ ''  '' @ Name m @ '' ('' @ username @ '' '' @ encode_rune 183 @ '' '' @ site @ '')'' @ [newline]
      else ''  '' @ ID m @ ''  '' @ Name m @ [newline])"

definition AmbiguousMatchError :: "envelope list \<Rightarrow> go_error" where
  "AmbiguousMatchError ms = Errorf
     (''multiple entries match ('' @ dec_nat (length ms) @ ''). Use --id to specify:'' @ newline #
      concat (map ambiguous_line ms))"

record resolve_opts =
  ro_ID :: string
  ro_Domain :: string
  ro_Email :: string
  ro_Query :: string

text \<open>
  \<open>interactive\<close> says that the output is a terminal and not JSON; \<open>keys\<close> are the presses
  the picker would get.
\<close>

definition resolveEntry :: "unicode \<Rightarrow> (nat \<Rightarrow> bool) \<Rightarrow> bool \<Rightarrow> string list \<Rightarrow> envelope list \<Rightarrow> resolve_opts \<Rightarrow>
    go_error + envelope" where
  "resolveEntry U P interactive keys entries opts =
     (if ro_ID opts \<noteq> [] then
        (case find (\<lambda>e. ID e = ro_ID opts) entries of
           Some e \<Rightarrow> Inr e
         | None \<Rightarrow> Inl (Errorf (''no entry found with id '' @ strconv_quote P (ro_ID opts))))
      else
        let matched = FilterEntries U entries
              \<lparr>so_Domain = ro_Domain opts, so_Email = ro_Email opts, so_Query = ro_Query opts\<rparr>
        in case matched of
             [] \<Rightarrow> Inl (Errorf ''no entries found'')
           | [e] \<Rightarrow> Inr e
           | _ \<Rightarrow> if \<not> interactive then Inl (AmbiguousMatchError matched) else pickEntry matched keys)"

subsection \<open>Lines of dmenu\<close>

definition tab :: char where "tab = CHR 0x09"

definition dmenu_label :: "envelope \<Rightarrow> string" where
  "dmenu_label e =
     (if Type e = EntryTypeLogin then encode_rune 128273 @ '' ''
      else if Type e = EntryTypeSecret then encode_rune 128274 @ '' ''
      else if Type e = EntryTypeNote then encode_rune 128221 @ '' '' else []) @ Name e"

definition formatDmenuLine :: "envelope \<Rightarrow> string" where
  "formatDmenuLine e = dmenu_label e @ tab # ID e"

definition parseDmenuSelection :: "string \<Rightarrow> string" where
  "parseDmenuSelection selection =
     (let s = trim_space selection; parts = split2 s tab
      in if length parts = 2 then trim_space (parts ! 1) else s)"

subsection \<open>Fuzzy matching is matching of subsequences\<close>

lemma score_loop_subseq:
  assumes "qs \<noteq> []" "0 \<le> consecutive" "0 \<le> score"
  shows "if subseq qs ts then score + int (length qs) \<le> score_loop U prev ts qs consecutive score
    else score_loop U prev ts qs consecutive score = 0"
  using assms
proof (induction U prev ts qs consecutive score rule: score_loop.induct)
  case (3 U prev t ts q qs consecutive score)
  show ?case
  proof (cases "t = q")
    case True
    show ?thesis
    proof (cases "qs = []")
      case True
      with \<open>t = q\<close> 3(4,5) show ?thesis by (auto simp: Let_def)
    next
      case False
      with 3(1) [OF refl \<open>t = q\<close> refl refl False] 3(4,5) \<open>t = q\<close> show ?thesis
        by (auto simp: Let_def split: if_splits)
    qed
  next
    case False
    with 3(2) [OF refl False] 3(4,5) show ?thesis by (auto simp: Let_def split: if_splits)
  qed
qed auto

lemma runes_Nil_iff [simp]: "runes s = [] \<longleftrightarrow> s = []"
  by (auto simp: runes_def rune_segments.simps [of s] split: if_splits prod.splits)

text \<open>The words of a query match an item when each is a subsequence of it, up to case.\<close>

definition fuzzy_matches :: "unicode \<Rightarrow> string \<Rightarrow> string \<Rightarrow> bool" where
  "fuzzy_matches U query target \<longleftrightarrow>
     to_lower U query \<noteq> [] \<and> subseq (runes (to_lower U query)) (runes (to_lower U target))"

lemma Score_matches: "0 < Score U q t \<longleftrightarrow> fuzzy_matches U q t" and Score_nonneg: "0 \<le> Score U q t"
proof -
  have *: "(if fuzzy_matches U q t then 0 < Score U q t else Score U q t = 0)"
  proof (cases "to_lower U q = [] \<or> to_lower U q = to_lower U t")
    case False
    with score_loop_subseq [of "runes (to_lower U q)" 0 0 "runes (to_lower U t)" U None] show ?thesis
      by (auto simp: Score_def fuzzy_matches_def Let_def split: if_splits)
        (metis length_0_conv neq0_conv of_nat_0_less_iff order_less_le_trans runes_Nil_iff)
  qed (auto simp: Score_def fuzzy_matches_def Let_def)
  show "0 < Score U q t \<longleftrightarrow> fuzzy_matches U q t" "0 \<le> Score U q t"
    using * by (auto split: if_splits)
qed

lemma Score_zero: "Score U q t = 0 \<longleftrightarrow> \<not> fuzzy_matches U q t"
  using Score_matches [of U q t] Score_nonneg [of U q t] by linarith

lemma word_scores_eq:
  "word_scores U ws item n =
    (if \<forall>w \<in> set ws. fuzzy_matches U w item then Some (n + (\<Sum>w \<leftarrow> ws. Score U w item)) else None)"
  by (induction ws arbitrary: n) (auto simp: Let_def Score_zero)

subsection \<open>Sorting and the cut\<close>

text \<open>What is documented of \<^verbatim>\<open>sort.Slice\<close>: a permutation in which no later element is less.\<close>

locale slice_sort =
  fixes sorter :: "'a sorter"
  assumes sorter_mset: "mset (sorter lt xs) = mset xs"
    and sorter_sorted: "(\<And>a b c. lt a b \<Longrightarrow> lt a c \<or> lt c b) \<Longrightarrow> (\<And>a b. lt a b \<Longrightarrow> \<not> lt b a) \<Longrightarrow>
      sorted_wrt (\<lambda>a b. \<not> lt b a) (sorter lt xs)"
begin

lemma sorter_set [simp]: "set (sorter lt xs) = set xs"
  using sorter_mset [of lt xs] by (metis set_mset_mset)

lemma sorter_length [simp]: "length (sorter lt xs) = length xs"
  using sorter_mset [of lt xs] by (metis size_mset)

lemma sorter_distinct: "distinct (map f (sorter lt xs)) = distinct (map f xs)"
  by (metis distinct_count_atmost_1 mset_map set_mset_mset sorter_mset)

end

text \<open>Insertion sort, which the library uses on short slices.\<close>

fun insert_before :: "('a \<Rightarrow> 'a \<Rightarrow> bool) \<Rightarrow> 'a \<Rightarrow> 'a list \<Rightarrow> 'a list" where
  "insert_before lt x [] = [x]"
| "insert_before lt x (y # ys) = (if lt y x then y # insert_before lt x ys else x # y # ys)"

fun insertion_sorter :: "'a sorter" where
  "insertion_sorter lt [] = []"
| "insertion_sorter lt (x # xs) = insert_before lt x (insertion_sorter lt xs)"

lemma insert_before_mset [simp]: "mset (insert_before lt x ys) = add_mset x (mset ys)"
  by (induction ys) auto

lemma insert_before_set [simp]: "set (insert_before lt x ys) = insert x (set ys)"
  by (induction ys) auto

interpretation ins: slice_sort insertion_sorter
proof unfold_locales
  show "mset (insertion_sorter lt xs) = mset xs" for lt and xs :: "'a list"
    by (induction xs) auto
next
  fix lt :: "'a \<Rightarrow> 'a \<Rightarrow> bool" and xs
  assume weak: "\<And>a b c. lt a b \<Longrightarrow> lt a c \<or> lt c b" and asym: "\<And>a b. lt a b \<Longrightarrow> \<not> lt b a"
  have "sorted_wrt (\<lambda>a b. \<not> lt b a) (insert_before lt x ys)"
    if "sorted_wrt (\<lambda>a b. \<not> lt b a) ys" for x ys
    using that
  proof (induction ys)
    case (Cons y ys)
    show ?case
    proof (cases "lt y x")
      case True
      with Cons asym [OF True] show ?thesis by auto
    next
      case False
      have "\<not> lt z x" if "z \<in> set ys" for z
        using weak [of z x y] False Cons.prems that by auto
      with False Cons.prems show ?thesis by auto
    qed
  qed simp
  then show "sorted_wrt (\<lambda>a b. \<not> lt b a) (insertion_sorter lt xs)"
    by (induction xs) auto
qed

lemma collect_matches_set:
  "m \<in> set (collect_matches U ws i items) \<longleftrightarrow>
    (\<exists>j < length items. m_Index m = i + j \<and> (\<forall>w \<in> set ws. fuzzy_matches U w (items ! j)) \<and>
       m_Score m = (\<Sum>w \<leftarrow> ws. Score U w (items ! j)) \<and> 0 < m_Score m)"
proof (induction items arbitrary: i)
  case (Cons item items)
  let ?P = "\<lambda>item k. m_Index m = k \<and> (\<forall>w \<in> set ws. fuzzy_matches U w item) \<and>
       m_Score m = (\<Sum>w \<leftarrow> ws. Score U w item) \<and> 0 < m_Score m"
  have split: "(\<exists>j < length (item # items). ?P ((item # items) ! j) (i + j)) \<longleftrightarrow>
      ?P item i \<or> (\<exists>j < length items. ?P (items ! j) (Suc i + j))"
    by (auto simp: less_Suc_eq_0_disj)
  have first: "?P item i \<longleftrightarrow> (case word_scores U ws item 0 of
      None \<Rightarrow> False | Some t \<Rightarrow> 0 < t \<and> m = \<lparr>m_Index = i, m_Score = t\<rparr>)"
    by (cases m) (auto simp: word_scores_eq)
  show ?case
    unfolding split first using Cons.IH [of "Suc i"] by (auto split: option.splits)
qed simp

lemma collect_matches_index:
  "distinct (map m_Index (collect_matches U ws i items)) \<and>
   (\<forall>m \<in> set (collect_matches U ws i items). i \<le> m_Index m)"
proof (induction items arbitrary: i)
  case (Cons item items)
  from Cons.IH [of "Suc i"] have "distinct (map m_Index (collect_matches U ws (Suc i) items))"
    "\<forall>m \<in> set (collect_matches U ws (Suc i) items). Suc i \<le> m_Index m" by auto
  then show ?case by (auto split: option.splits)
qed simp

lemma sum_scores_pos:
  "ws \<noteq> [] \<Longrightarrow> \<forall>w \<in> set ws. fuzzy_matches U w item \<Longrightarrow> 0 < (\<Sum>w \<leftarrow> ws. Score U w item)"
proof (induction ws)
  case (Cons w ws)
  have "0 \<le> (\<Sum>w \<leftarrow> ws. Score U w item)" by (intro sum_list_nonneg) (auto simp: Score_nonneg)
  with Cons.prems(2) Score_matches [of U w item] show ?case by simp
qed simp

subsection \<open>The picker stays on an item\<close>

definition picker_ok :: "picker \<Rightarrow> bool" where
  "picker_ok m \<longleftrightarrow> 0 \<le> pk_cursor m \<and> pk_cursor m < int (length (pk_items m)) \<and>
     - 1 \<le> pk_selected m \<and> pk_selected m < int (length (pk_items m))"

lemma picker_Update_cases:
  "picker_Update m key = (m', quit) \<Longrightarrow>
   m' = m \<or> (pk_cursor m > 0 \<and> m' = m\<lparr>pk_cursor := pk_cursor m - 1\<rparr>) \<or>
   (pk_cursor m < int (length (pk_items m)) - 1 \<and> m' = m\<lparr>pk_cursor := pk_cursor m + 1\<rparr>) \<or>
   m' = m\<lparr>pk_selected := pk_cursor m\<rparr> \<or> m' = m\<lparr>pk_selected := -1\<rparr>"
  unfolding picker_Update_def by (simp only: prod.inject split: if_split_asm) blast+

lemma picker_Update_ok:
  "picker_ok m \<Longrightarrow> picker_Update m key = (m', quit) \<Longrightarrow> picker_ok m' \<and> pk_items m' = pk_items m"
  by (drule picker_Update_cases) (auto simp: picker_ok_def)

lemma picker_run_ok:
  "picker_ok m \<Longrightarrow> picker_run m keys = Some m' \<Longrightarrow> picker_ok m' \<and> pk_items m' = pk_items m"
proof (induction keys arbitrary: m)
  case (Cons key keys)
  obtain m1 quit where u: "picker_Update m key = (m1, quit)" by force
  from picker_Update_ok [OF Cons.prems(1) u] have m1: "picker_ok m1" "pk_items m1 = pk_items m" by simp_all
  with Cons.IH [OF m1(1)] Cons.prems(2) u show ?case by (auto split: if_splits)
qed simp

lemma pickEntry_mem:
  assumes "pickEntry entries keys = Inr e"
  shows "e \<in> set entries"
proof (cases "entries = []")
  case True
  with assms show ?thesis by (auto simp: pickEntry_def Let_def split: option.splits if_splits)
next
  case False
  let ?m = "\<lparr>pk_items = map (\<lambda>e. (e, formatPickerLabel e)) entries, pk_cursor = 0, pk_selected = -1\<rparr>"
  have ok: "picker_ok ?m" using False by (simp add: picker_ok_def)
  from assms obtain m' where run: "picker_run ?m keys = Some m'" "0 \<le> pk_selected m'"
      "pk_selected m' < int (length entries)" "e = entries ! nat (pk_selected m')"
    by (auto simp: pickEntry_def Let_def split: option.splits if_splits)
  then show ?thesis by simp
qed

subsection \<open>Lines of dmenu\<close>

text \<open>An ASCII character ends whatever a byte sequence before it was.\<close>

lemma decode_rune_before_ascii:
  assumes "a \<noteq> []" "(of_char c :: nat) < 128"
  shows "decode_rune (a @ c # b) = decode_rune a"
proof -
  obtain x s where a: "a = x # s" using assms(1) by (cases a) auto
  have c: "\<not> cont_byte c" using assms(2) by (simp add: cont_byte_def)
  consider "s = []" | y where "s = [y]" | y z where "s = [y, z]" | y z u t where "s = y # z # u # t"
    by (cases s rule: list.exhaust; cases "tl s" rule: list.exhaust; cases "tl (tl s)" rule: list.exhaust) auto
  then show ?thesis
    by cases (use c in \<open>simp_all add: a decode_rune.simps(2) Let_def\<close>)
qed

lemma rune_segments_before_ascii:
  "(of_char c :: nat) < 128 \<Longrightarrow> rune_segments (a @ c # b) = rune_segments a @ (of_char c, [c]) # rune_segments b"
proof (induction a rule: rune_segments.induct)
  case (1 a)
  show ?case
  proof (cases "a = []")
    case False
    obtain r n where d: "decode_rune a = (r, n)" by force
    then have n: "1 \<le> n" "n \<le> length a" using decode_rune_size [OF False] by auto
    have "decode_rune (a @ c # b) = (r, n)" using decode_rune_before_ascii [OF False 1(2)] d by simp
    then have "rune_segments (a @ c # b) = (r, take n a) # rune_segments (drop n a @ c # b)"
      using False n by (simp add: rune_segments.simps [of "a @ c # b"])
    also have "rune_segments (drop n a @ c # b) = rune_segments (drop n a) @ (of_char c, [c]) # rune_segments b"
      using "1.IH" [OF False d [symmetric] refl 1(2)] .
    finally show ?thesis using False d by (simp add: rune_segments.simps [of a])
  qed (use 1(2) in simp)
qed

text \<open>Dropping spaces in front of text and a tab leaves the tab, or nothing up to the word after it.\<close>

lemma trim_line:
  assumes "tab \<notin> set a" "w \<noteq> []" "ascii w" "\<forall>c \<in> set w. \<not> is_space (of_char c)"
  shows "trim_space (a @ tab # w) = w \<or> (\<exists>a'. tab \<notin> set a' \<and> trim_space (a @ tab # w) = a' @ tab # w)"
proof -
  let ?sp = "\<lambda>(r :: nat, b :: string). is_space r"
  let ?seg = "\<lambda>c. (of_char c :: nat, [c :: char])"
  have tab: "(of_char tab :: nat) < 128" "is_space (of_char tab)" by (simp_all add: tab_def is_space_def)
  have w: "rune_segments w = map ?seg w" by (rule rune_segments_ascii [OF assms(3)])
  have join: "join_segments (map ?seg t) = t" for t by (induction t) (auto simp: join_segments_def)
  have segs: "rune_segments (a @ tab # w) = rune_segments a @ ?seg tab # map ?seg w"
    using rune_segments_before_ascii [OF tab(1)] w by simp
  have keep: "rev (dropWhile ?sp (rev (xs @ map ?seg w))) = xs @ map ?seg w" for xs
    using assms(2,4) by (cases w rule: rev_cases) auto
  have front: "dropWhile ?sp (map ?seg w) = map ?seg w" using assms(2,4) by (cases w) auto
  show ?thesis
  proof (cases "\<forall>x \<in> set (rune_segments a). ?sp x")
    case True
    then have "dropWhile ?sp (rune_segments (a @ tab # w)) = map ?seg w"
      using tab(2) front by (simp add: segs dropWhile_append)
    then have "trim_space (a @ tab # w) = w" using keep [of "[]"] join by (simp add: trim_space_def)
    then show ?thesis ..
  next
    case False
    define d where "d = dropWhile ?sp (rune_segments a)"
    from False have "dropWhile ?sp (rune_segments (a @ tab # w)) = (d @ [?seg tab]) @ map ?seg w"
      by (simp add: segs d_def dropWhile_append) blast
    then have "trim_space (a @ tab # w) = join_segments d @ tab # w"
      using keep [of "d @ [?seg tab]"] join by (simp add: trim_space_def join_segments_def)
    moreover have "tab \<notin> set (join_segments d)"
    proof
      assume "tab \<in> set (join_segments d)"
      then have "tab \<in> set (join_segments (rune_segments a))"
        unfolding d_def join_segments_def by (auto dest: set_dropWhileD)
      with assms(1) show False by simp
    qed
    ultimately show ?thesis by blast
  qed
qed

definition ascii_tables :: unicode where
  "ascii_tables = \<lparr>uni_lower = (\<lambda>r. r), uni_upper = (\<lambda>r. r), uni_fold = (\<lambda>r. r),
     uni_letter = (\<lambda>r. False), uni_digit = (\<lambda>r. False)\<rparr>"

subsection \<open>Properties\<close>

text \<open>
  C25: The fuzzy score is a test for subsequences: it is positive exactly when the query,
  in lower case, is not empty and its characters occur in the lower-case target in order,
  and zero otherwise, so the greedy loop misses no way to match.
\<close>

theorem score_iff_subsequence:
  "(0 < Score U query target) =
    (to_lower U query \<noteq> [] \<and> subseq (runes (to_lower U query)) (runes (to_lower U target))) \<and>
   0 \<le> Score U query target"
  using Score_matches Score_nonneg by (simp add: fuzzy_matches_def)

text \<open>
  C26: The fuzzy search returns the best matches: for a query with a word, every result
  names an item that all words match, no item twice, with the sum of the words' scores,
  in descending order; every matching item that was left out scores at most as much as every
  result, and none is left out unless the limit was reached.
\<close>

theorem search_returns_best:
  fixes U :: unicode and sorter :: "fuzzy_match sorter" and query :: string and items :: "string list"
    and limit :: int
  assumes "slice_sort sorter" "string_fields query \<noteq> []"
  defines "rs \<equiv> Fuzzy_Search U sorter query items limit"
    and "hits \<equiv> {i. i < length items \<and> (\<forall>w \<in> set (string_fields query). fuzzy_matches U w (items ! i))}"
    and "points \<equiv> (\<lambda>i. \<Sum>w \<leftarrow> string_fields query. Score U w (items ! i))"
  shows "m_Index ` set rs \<subseteq> hits \<and> distinct (map m_Index rs) \<and> (\<forall>m \<in> set rs. m_Score m = points (m_Index m))
    \<and> sorted_wrt (\<lambda>a b. m_Score b \<le> m_Score a) rs
    \<and> (\<forall>i \<in> hits - m_Index ` set rs. \<forall>m \<in> set rs. points i \<le> m_Score m)
    \<and> (if limit > 0 \<and> int (card hits) > limit then int (length rs) = limit else m_Index ` set rs = hits)"
proof -
  let ?c = "collect_matches U (string_fields query) 0 items"
  define ms where "ms = sorter (\<lambda>a b. m_Score a > m_Score b) ?c"
  have set: "set ms = set ?c" and dist: "distinct (map m_Index ms)"
    by (simp_all add: ms_def slice_sort.sorter_set [OF assms(1)] slice_sort.sorter_distinct [OF assms(1)]
      collect_matches_index [THEN conjunct1])
  have "sorted_wrt (\<lambda>a b. \<not> m_Score b > m_Score a) ms"
    unfolding ms_def by (rule slice_sort.sorter_sorted [OF assms(1)]) auto
  then have sorted: "sorted_wrt (\<lambda>a b. m_Score b \<le> m_Score a) ms" by (simp add: not_less)
  have hits: "m_Index ` set ms = hits"
  proof (intro equalityI subsetI)
    fix i
    assume "i \<in> hits"
    then have "\<lparr>m_Index = i, m_Score = points i\<rparr> \<in> set ?c"
      using sum_scores_pos [OF assms(2)] by (simp add: collect_matches_set hits_def points_def)
    then show "i \<in> m_Index ` set ms" unfolding set by force
  qed (auto simp: set collect_matches_set hits_def)
  have points: "m_Score m = points (m_Index m)" if "m \<in> set ms" for m
    using that by (auto simp: set collect_matches_set points_def)
  have card: "card hits = length ms"
    using dist hits by (metis distinct_card length_map set_map)
  define n where "n = (if limit > 0 \<and> int (length ms) > limit then nat limit else length ms)"
  have rs: "rs = take n ms"
    using assms(2) by (simp add: rs_def Fuzzy_Search_def ms_def n_def Let_def)
  have ms: "ms = rs @ drop n ms" by (simp add: rs)
  have sorted': "sorted_wrt (\<lambda>a b. m_Score b \<le> m_Score a) rs"
      "\<forall>x \<in> set rs. \<forall>y \<in> set (drop n ms). m_Score y \<le> m_Score x"
    using sorted ms by (metis sorted_wrt_append)+
  have sub: "set rs \<subseteq> set ms" using ms by (metis Un_upper1 set_append)
  have rest: "points i \<le> m_Score m" if "i \<in> hits - m_Index ` set rs" "m \<in> set rs" for i m
  proof -
    from that(1) hits obtain y where y: "y \<in> set ms" "m_Index y = i" "y \<notin> set rs" by auto
    with ms have "y \<in> set (drop n ms)" by (metis Un_iff set_append)
    with sorted'(2) that(2) points y show ?thesis by fastforce
  qed
  have "distinct (map m_Index rs)" using dist rs by (simp add: take_map [symmetric] distinct_take)
  moreover have "if limit > 0 \<and> int (card hits) > limit then int (length rs) = limit else m_Index ` set rs = hits"
    using hits by (auto simp: card rs n_def)
  ultimately show ?thesis using sorted' sub hits points rest by blast
qed

theorem search_returns_best_witness:
  "map m_Index (Fuzzy_Search ascii_tables insertion_sorter ''git'' [''GitHub'', ''Bitbucket'', ''my git''] 5) = [0, 2]
   \<and> distinct (map m_Index (Fuzzy_Search ascii_tables insertion_sorter ''git'' [''GitHub'', ''Bitbucket'', ''my git''] 5))"
proof
  show "map m_Index (Fuzzy_Search ascii_tables insertion_sorter ''git'' [''GitHub'', ''Bitbucket'', ''my git''] 5) = [0, 2]"
    by code_simp
  have "string_fields ''git'' \<noteq> []" by code_simp
  from search_returns_best [OF ins.slice_sort_axioms this, of ascii_tables "[''GitHub'', ''Bitbucket'', ''my git'']" 5]
  show "distinct (map m_Index (Fuzzy_Search ascii_tables insertion_sorter ''git'' [''GitHub'', ''Bitbucket'', ''my git''] 5))"
    by blast
qed

text \<open>
  C27: A query resolves to an entry of the list that fits it: what is found by an identifier
  has it, what is found by a search matches the search, also when it was picked by hand, and
  without a terminal a search resolves exactly when it has one match.
\<close>

theorem resolve_sound:
  "(resolveEntry U P interactive keys entries opts = Inr e \<longrightarrow>
     e \<in> set entries \<and> (if ro_ID opts \<noteq> [] then ID e = ro_ID opts
       else MatchesOpts U e \<lparr>so_Domain = ro_Domain opts, so_Email = ro_Email opts, so_Query = ro_Query opts\<rparr>)) \<and>
   (ro_ID opts = [] \<longrightarrow>
     (resolveEntry U P False keys entries opts = Inr e) =
     (FilterEntries U entries \<lparr>so_Domain = ro_Domain opts, so_Email = ro_Email opts, so_Query = ro_Query opts\<rparr> = [e]))"
proof (cases "ro_ID opts = []")
  case True
  define matched where "matched = FilterEntries U entries
    \<lparr>so_Domain = ro_Domain opts, so_Email = ro_Email opts, so_Query = ro_Query opts\<rparr>"
  have res: "resolveEntry U P i keys entries opts = (case matched of [] \<Rightarrow> Inl (Errorf ''no entries found'')
      | [e] \<Rightarrow> Inr e | _ \<Rightarrow> if \<not> i then Inl (AmbiguousMatchError matched) else pickEntry matched keys)" for i
    unfolding resolveEntry_def matched_def Let_def using True by simp
  have "e \<in> set matched" if "resolveEntry U P interactive keys entries opts = Inr e"
    using that unfolding res by (auto dest: pickEntry_mem split: list.splits if_splits)
  moreover have "(resolveEntry U P False keys entries opts = Inr e) = (matched = [e])"
    unfolding res by (auto split: list.splits)
  ultimately show ?thesis using True by (auto simp: matched_def FilterEntries_filter)
next
  case False
  then show ?thesis
    by (auto simp: resolveEntry_def find_Some_iff split: option.splits)
qed

theorem resolve_sound_witness:
  "FilterEntries ascii_tables [zero_envelope\<lparr>Name := ''mail''\<rparr>] \<lparr>so_Domain = [], so_Email = [], so_Query = ''mail''\<rparr>
     = [zero_envelope\<lparr>Name := ''mail''\<rparr>]"
proof -
  let ?e = "zero_envelope\<lparr>Name := ''mail''\<rparr>"
  let ?o = "\<lparr>ro_ID = [], ro_Domain = [], ro_Email = [], ro_Query = ''mail''\<rparr>"
  have "resolveEntry ascii_tables (\<lambda>r. False) False [] [?e] ?o = Inr ?e" by code_simp
  with resolve_sound [of ascii_tables "\<lambda>r. False" True "[]" "[?e]" ?o ?e] show ?thesis by simp
qed

text \<open>
  C15: Selecting a line of the dmenu list selects its entry: when the name has no tab and the
  identifier is ASCII without spaces, the parsed selection is the identifier, whether the
  menu returns the whole line or the identifier alone.
\<close>

theorem dmenu_selects_entry:
  assumes "tab \<notin> set (Name e)" "ID e \<noteq> []" "ascii (ID e)" "\<forall>c \<in> set (ID e). \<not> is_space (of_char c)"
  shows "parseDmenuSelection (formatDmenuLine e) = ID e \<and> parseDmenuSelection (ID e) = ID e"
proof -
  have label: "tab \<notin> set (dmenu_label e)"
  proof -
    have "tab \<notin> set (encode_rune 128273 @ '' '')" "tab \<notin> set (encode_rune 128274 @ '' '')"
      "tab \<notin> set (encode_rune 128221 @ '' '')" by code_simp+
    with assms(1) show ?thesis by (simp add: dmenu_label_def)
  qed
  have "trimmed (ID e)" using assms(2,4) by (simp add: trimmed_def)
  then have trim: "trim_space (ID e) = ID e" by (rule trim_space_trimmed [OF assms(3)])
  have "\<not> is_space (of_char tab) \<Longrightarrow> False" by (simp add: tab_def is_space_def)
  then have "tab \<notin> set (ID e)" using assms(4) by blast
  then have self: "split2 (ID e) tab = [ID e]" by (rule split2_none)
  from trim_line [OF label assms(2-4)] have "parseDmenuSelection (formatDmenuLine e) = ID e"
    using trim self by (auto simp: parseDmenuSelection_def formatDmenuLine_def Let_def)
  with trim self show ?thesis by (simp add: parseDmenuSelection_def Let_def)
qed

theorem dmenu_selects_entry_witness:
  "parseDmenuSelection (formatDmenuLine (zero_envelope\<lparr>ID := ''0192-ab'', Name := '' my mail'', Type := 1\<rparr>)) = ''0192-ab''"
  using dmenu_selects_entry [of "zero_envelope\<lparr>ID := ''0192-ab'', Name := '' my mail'', Type := 1\<rparr>"]
  by (simp add: tab_def is_space_def)

end
