(* ===== verification/Login_Name.thy ===== *)
theory Login_Name
  imports Go_Strings Entity
begin

text \<open>
  The names of logins in \<^verbatim>\<open>internal/domain/entity/login.go\<close>. The parser and the printer of
  \<^verbatim>\<open>net/url\<close> are the argument: \<open>url_parse\<close> gives the parts of a URL or no URL at all, and
  \<open>url_String\<close> writes the parts.
\<close>

record url =
  u_Scheme :: string
  u_Opaque :: string
  u_User :: "string option"
  u_Host :: string
  u_Path :: string
  u_RawPath :: string
  u_OmitHost :: bool
  u_ForceQuery :: bool
  u_RawQuery :: string
  u_Fragment :: string
  u_RawFragment :: string

record url_lib =
  url_parse :: "string \<Rightarrow> url option"
  url_String :: "url \<Rightarrow> string"

definition ExtractDomain :: "url_lib \<Rightarrow> string \<Rightarrow> string" where
  "ExtractDomain L raw =
     (if raw = [] then []
      else case url_parse L raw of
        None \<Rightarrow> raw
      | Some u \<Rightarrow>
          let host = (if u_Host u = []
                      then (case url_parse L (''https://'' @ raw) of Some u2 \<Rightarrow> u_Host u2 | None \<Rightarrow> [])
                      else u_Host u)
          in if host = [] then raw else host)"

definition DeriveLoginName :: "url_lib \<Rightarrow> string \<Rightarrow> string \<Rightarrow> string" where
  "DeriveLoginName L site username =
     (let domain = ExtractDomain L site;
          domain = (if domain = [] then site else domain)
      in if username \<noteq> [] then domain @ '' ('' @ username @ '')'' else domain)"

lemma ExtractDomain_Nil: "ExtractDomain L raw = [] \<longleftrightarrow> raw = []"
  by (auto simp: ExtractDomain_def Let_def split: option.splits)

text \<open>A plain URL splitter for examples: a scheme, a host up to the first slash, the rest.\<close>

definition demo_url_parse :: "string \<Rightarrow> url option" where
  "demo_url_parse s =
     (let mk = (\<lambda>sch host path. \<lparr>u_Scheme = sch, u_Opaque = [], u_User = None, u_Host = host, u_Path = path,
            u_RawPath = [], u_OmitHost = False, u_ForceQuery = False, u_RawQuery = [], u_Fragment = [],
            u_RawFragment = []\<rparr>)
      in if has_prefix s ''https://''
         then Some (mk ''https'' (takeWhile (\<lambda>c. c \<noteq> CHR ''/'') (drop 8 s)) (dropWhile (\<lambda>c. c \<noteq> CHR ''/'') (drop 8 s)))
         else if CHR '':'' \<in> set s then None else Some (mk [] [] s))"

definition demo_url_String :: "url \<Rightarrow> string" where
  "demo_url_String u =
     (if u_Scheme u \<noteq> [] then u_Scheme u @ ''://'' else []) @ u_Host u @ u_Path u"

definition demo_urls :: url_lib where
  "demo_urls = \<lparr>url_parse = demo_url_parse, url_String = demo_url_String\<rparr>"

end
