(* ===== verification/Cli_Base.thy ===== *)
theory Cli_Base
  imports Client_Server Search
begin

text \<open>
  What the commands of \<^verbatim>\<open>internal/adapters/cli/client\<close> share: their context (the
  configuration, the flags and the environment), the inputs they read and the outputs they
  write, and the connection every one of them opens and closes. An output is what is shown,
  not how it is drawn, and writing it does not fail.
\<close>

datatype shown =
    OutText string
  | ErrText string
  | ErrorShown go_error
  | SuccessShown string
  | TableShown "envelope list"
  | JsonEntries "envelope list"
  | JsonEntry envelope
  | JsonDeleted string
  | EntryShown envelope "(string \<times> string) list"
  | Notified string
  | Copied string
  | HelpShown
  | ChildRun string "string list" "string list"

text \<open>
  The standard input is the chunks that the reads of the process return; passwords and the
  keys of the picker come from the terminal.
\<close>

record io =
  io_stdin :: "bytes list"
  io_passwords :: "(go_error + string) list"
  io_keys :: "string list"
  io_out :: "shown list"

definition put :: "shown \<Rightarrow> io \<Rightarrow> io" where
  "put x s = s\<lparr>io_out := io_out s @ [x]\<rparr>"

definition puts :: "shown list \<Rightarrow> io \<Rightarrow> io" where
  "puts xs s = s\<lparr>io_out := io_out s @ xs\<rparr>"

record ('n, 'g, 'f) command =
  k_env :: "('n, 'g, 'f) client_env"
  k_dir :: string
  k_unconfigured :: bool
  k_server :: string
  k_key :: string
  k_prompt :: "('n, 'g, 'f) unlock prompt"
  k_tty :: bool
  k_json :: bool
  k_terminal :: bool
  k_unicode :: unicode
  k_print :: "nat \<Rightarrow> bool"
  k_copy :: "string \<Rightarrow> go_error option"

type_synonym ('n, 'g, 'f) outcome = "go_error option \<times> io \<times> ('n, 'g, 'f) client"

definition show_error :: "go_error \<Rightarrow> io \<Rightarrow> ('n, 'g, 'f) client \<Rightarrow> ('n, 'g, 'f) outcome" where
  "show_error e s c = (Some e, put (ErrorShown e) s, c)"

definition connect :: "('n, 'g, 'f) command \<Rightarrow> ('n, 'g, 'f) client \<Rightarrow>
    go_error option \<times> string list \<times> ('n, 'g, 'f) client" where
  "connect K c =
     ConnectAndAuth (k_env K) (k_dir K) (k_unconfigured K) (k_server K) (k_key K) (k_prompt K) (k_tty K) c"

text \<open>
  The start and the deferred end of the commands: a failure to connect is shown and returned,
  a failure to close is only shown.
\<close>

definition with_client :: "('n, 'g, 'f) command \<Rightarrow>
    (io \<Rightarrow> ('n, 'g, 'f) client \<Rightarrow> ('n, 'g, 'f) outcome) \<Rightarrow> io \<Rightarrow> ('n, 'g, 'f) client \<Rightarrow> ('n, 'g, 'f) outcome" where
  "with_client K body s c =
     (case connect K c of
        (Some e, ns, c) \<Rightarrow> show_error e (puts (map Notified ns) s) c
      | (None, ns, c) \<Rightarrow>
         (case body (puts (map Notified ns) s) c of
            (r, s, c) \<Rightarrow>
              (case Client_Close (k_env K) c of
                 (None, c) \<Rightarrow> (r, s, c)
               | (Some e, c) \<Rightarrow> (r, put (ErrorShown e) s, c))))"

subsection \<open>Reading a line\<close>

text \<open>
  A new scanner reads chunks until it has a line; what it has read beyond the line is lost
  with it. A line that does not fit its buffer is no line.
\<close>

fun scan_first :: "bytes \<Rightarrow> bytes list \<Rightarrow> string \<times> bytes list" where
  "scan_first acc chunks =
     (case index_byte acc newline of
        Some i \<Rightarrow> (drop_cr (take i acc), chunks)
      | None \<Rightarrow>
          if maxTokenSize \<le> length acc then ([], chunks)
          else (case chunks of
                  [] \<Rightarrow> (drop_cr acc, [])
                | c # cs \<Rightarrow> scan_first (acc @ c) cs))"

declare scan_first.simps [simp del]

definition prompt :: "string \<Rightarrow> string \<Rightarrow> io \<Rightarrow> string \<times> io" where
  "prompt label defaultVal s =
     (let s = put (OutText (if defaultVal \<noteq> [] then label @ '' ['' @ defaultVal @ '']: '' else label @ '': '')) s;
          (line, rest) = scan_first [] (io_stdin s);
          val = trim_space line
      in (if val = [] then defaultVal else val, s\<lparr>io_stdin := rest\<rparr>))"

text \<open>\<^verbatim>\<open>term.ReadPassword\<close>, which fails when the input is not a terminal or ends.\<close>

definition read_password :: "io \<Rightarrow> (go_error + string) \<times> io" where
  "read_password s =
     (case io_passwords s of
        [] \<Rightarrow> (Inl (Errorf ''EOF''), s)
      | p # ps \<Rightarrow> (p, s\<lparr>io_passwords := ps\<rparr>))"

definition ReadPassword :: "string \<Rightarrow> io \<Rightarrow> (go_error + string) \<times> io" where
  "ReadPassword label s =
     (let s = put (ErrText label) s; (r, s) = read_password s in (r, put (ErrText [newline]) s))"

text \<open>The resolution of a command: it uses up the keys of the picker.\<close>

definition resolve :: "('n, 'g, 'f) command \<Rightarrow> envelope list \<Rightarrow> resolve_opts \<Rightarrow> io \<Rightarrow> go_error + envelope" where
  "resolve K entries opts s =
     resolveEntry (k_unicode K) (k_print K) (\<not> k_json K \<and> k_terminal K) (io_keys s) entries opts"

definition no_criteria :: go_error where
  "no_criteria = Errorf ''provide a search query, --domain, --email, or --id''"

subsection \<open>What the frame of a command does\<close>

lemma put_out [simp]: "io_out (put x s) = io_out s @ [x]" "io_out (puts xs s) = io_out s @ xs"
  by (simp_all add: put_def puts_def)

text \<open>A command that needs a client either fails to connect or runs its body once.\<close>

lemma with_client_cases [consumes 1, case_names refused ran]:
  assumes "with_client K body s c = (r, s', c')"
  obtains (refused) e ns c1 where "connect K c = (Some e, ns, c1)" "r = Some e" "c' = c1"
        "io_out s' = io_out s @ map Notified ns @ [ErrorShown e]"
    | (ran) ns c1 s2 c2 where "connect K c = (None, ns, c1)"
        "body (puts (map Notified ns) s) c1 = (r, s2, c2)"
        "io_out s' = io_out s2 \<or> (\<exists>e. io_out s' = io_out s2 @ [ErrorShown e])"
        "c' = snd (Client_Close (k_env K) c2)"
proof -
  obtain q ns c1 where q: "connect K c = (q, ns, c1)" by (rule prod_cases3)
  show thesis
  proof (cases q)
    case (Some e)
    with assms q show thesis by (intro refused) (auto simp: with_client_def show_error_def)
  next
    case None
    obtain r2 s2 c2 where b: "body (puts (map Notified ns) s) c1 = (r2, s2, c2)" by (rule prod_cases3)
    with assms q None show thesis
      by (intro ran [of ns c1 s2 c2]) (auto simp: with_client_def split: prod.splits option.splits)
  qed
qed

text \<open>A demonstration context: the demonstration server, no terminal, nothing typed.\<close>

definition demo_command :: "((((bytes, bytes) rbt, unit) server \<times> world), unit, (string \<times> bytes) list) command" where
  "demo_command = \<lparr>k_env = demo_client_env, k_dir = ''/c'', k_unconfigured = False, k_server = ''s'',
     k_key = ''me'', k_prompt = (\<lambda>v u. (None, u)), k_tty = False, k_json = False, k_terminal = False,
     k_unicode = ascii_tables, k_print = (\<lambda>r. False), k_copy = (\<lambda>x. None)\<rparr>"

definition demo_io :: io where
  "demo_io = \<lparr>io_stdin = [], io_passwords = [], io_keys = [], io_out = []\<rparr>"

end
