(* ===== verification/Inject.thy ===== *)
theory Inject
  imports Cli_Base
begin

text \<open>
  \<^verbatim>\<open>internal/adapters/cli/client/dotenv.go\<close> and \<^verbatim>\<open>inject.go\<close>: reading environment files,
  resolving the references to the vault in them, and running a command with the result.
\<close>

subsection \<open>Environment files\<close>

record env_line =
  el_Key :: string
  el_Value :: string

text \<open>Matching quotes around a value.\<close>

definition unquote_value :: "string \<Rightarrow> string" where
  "unquote_value s =
     (if 2 \<le> length s \<and>
         ((hd s = CHR 0x22 \<and> last s = CHR 0x22) \<or> (hd s = CHR 0x27 \<and> last s = CHR 0x27))
      then butlast (tl s) else s)"

fun parse_env_lines :: "nat \<Rightarrow> string list \<Rightarrow> go_error + env_line list" where
  "parse_env_lines lineNum [] = Inr []"
| "parse_env_lines lineNum (text # rest) =
     (let lineNum = lineNum + 1; line = trim_space text in
      if line = [] \<or> has_prefix line ''#'' then parse_env_lines lineNum rest
      else
        let line = trim_prefix line ''export '' in
        case index_byte line (CHR ''='') of
          None \<Rightarrow> Inl (Errorf (''line '' @ dec_nat lineNum @ '': invalid format (no '' @ CHR 0x27 # ''='' @ CHR 0x27 # ''): '' @ line))
        | Some i \<Rightarrow>
            let key = trim_space (take i line);
                val = unquote_value (trim_space (drop (i + 1) line))
            in map_sum id (\<lambda>ls. \<lparr>el_Key = key, el_Value = val\<rparr> # ls) (parse_env_lines lineNum rest))"

text \<open>The lines that were read are parsed before the error of the scanner is looked at.\<close>

definition parseDotenv :: "bytes \<Rightarrow> go_error + env_line list" where
  "parseDotenv data =
     (case scan_lines data of (lines, err) \<Rightarrow>
        (case parse_env_lines 0 lines of
           Inl e \<Rightarrow> Inl e
         | Inr ls \<Rightarrow> (case err of Some e \<Rightarrow> Inl e | None \<Rightarrow> Inr ls)))"

subsection \<open>References\<close>

record sekeve_ref =
  sr_Query :: string
  sr_Field :: string

definition sekevePrefix :: string where "sekevePrefix = ''sekeve:''"

definition parseSekeveRef :: "string \<Rightarrow> sekeve_ref option" where
  "parseSekeveRef val =
     (if \<not> has_prefix val sekevePrefix then None
      else let rest = drop (length sekevePrefix) val in
        if rest = [] then None
        else case index_byte rest (CHR ''#'') of
          Some idx \<Rightarrow> Some \<lparr>sr_Query = take idx rest, sr_Field = drop (idx + 1) rest\<rparr>
        | None \<Rightarrow> Some \<lparr>sr_Query = rest, sr_Field = []\<rparr>)"

definition extractField :: "(nat \<Rightarrow> bool) \<Rightarrow> bytes \<Rightarrow> string \<Rightarrow> string \<Rightarrow> go_error + string" where
  "extractField P plaintext entryType fld =
     (if entryType = ''login'' then
        (case unmarshal_login plaintext of
           (Some e, _) \<Rightarrow> Inl (WrapErr ''unmarshal login'' e)
         | (None, l) \<Rightarrow>
             if fld = [] \<or> fld = ''password'' then Inr (Password l)
             else if fld = ''username'' then Inr (Username l)
             else if fld = ''site'' then Inr (Site l)
             else if fld = ''notes'' then Inr (Notes l)
             else Inl (Errorf (''login has no field '' @ strconv_quote P fld @
                         '' (valid: password, username, site, notes)'')))
      else if entryType = ''secret'' then
        (case unmarshal_secret plaintext of
           (Some e, _) \<Rightarrow> Inl (WrapErr ''unmarshal secret'' e)
         | (None, x) \<Rightarrow>
             if fld = [] \<or> fld = ''value'' then Inr (secret_Value x)
             else if fld = ''name'' then Inr (secret_Name x)
             else Inl (Errorf (''secret has no field '' @ strconv_quote P fld @ '' (valid: value, name)'')))
      else if entryType = ''note'' then
        (case unmarshal_note plaintext of
           (Some e, _) \<Rightarrow> Inl (WrapErr ''unmarshal note'' e)
         | (None, x) \<Rightarrow>
             if fld = [] \<or> fld = ''content'' then Inr (note_Content x)
             else if fld = ''name'' then Inr (note_Name x)
             else Inl (Errorf (''note has no field '' @ strconv_quote P fld @ '' (valid: content, name)'')))
      else Inl (Errorf (''unknown entry type '' @ strconv_quote P entryType)))"




subsection \<open>The command\<close>





subsection \<open>Writing an environment file\<close>

lemma trim_space_ends:
  assumes "(of_char a :: nat) < 128" "\<not> is_space (of_char a)" "(of_char b :: nat) < 128" "\<not> is_space (of_char b)"
  shows "trim_space (a # m @ [b]) = a # m @ [b]"
proof -
  have segs: "rune_segments (a # m @ [b]) = (of_char a, [a]) # rune_segments m @ [(of_char b, [b])]"
    using assms(1) rune_segments_before_ascii [OF assms(3), of m "[]"] by simp
  have "join_segments (rune_segments (a # m @ [b])) = a # m @ [b]" by (rule join_rune_segments)
  then show ?thesis using assms(2,4) by (simp add: trim_space_def segs)
qed

definition quoted_line :: "string \<times> string \<Rightarrow> string" where
  "quoted_line kv = fst kv @ CHR ''='' # CHR 0x22 # snd kv @ [CHR 0x22]"

definition write_dotenv :: "(string \<times> string) list \<Rightarrow> bytes" where
  "write_dotenv kvs = concat (map (\<lambda>l. l @ [newline]) (map quoted_line kvs))"

text \<open>A key that can stand at the start of a line.\<close>

definition env_key :: "string \<Rightarrow> bool" where
  "env_key k \<longleftrightarrow> k \<noteq> [] \<and> ascii k \<and> trimmed k \<and> CHR ''='' \<notin> set k \<and> newline \<notin> set k \<and>
     hd k \<noteq> CHR ''#'' \<and> take 7 k \<noteq> ''export ''"

lemma quoted_line_trim: "env_key k \<Longrightarrow> trim_space (quoted_line (k, v)) = quoted_line (k, v)"
  using trim_space_ends [of "hd k" "CHR 0x22" "tl k @ CHR ''='' # CHR 0x22 # v"]
  by (cases k) (auto simp: env_key_def quoted_line_def trimmed_def is_space_def)

lemma quoted_line_no_export:
  assumes "env_key k"
  shows "trim_prefix (quoted_line (k, v)) ''export '' = quoted_line (k, v)"
proof -
  have "take 7 (quoted_line (k, v)) \<noteq> ''export ''"
  proof
    assume e: "take 7 (quoted_line (k, v)) = ''export ''"
    show False
    proof (cases "7 \<le> length k")
      case True
      with e assms show False by (simp add: quoted_line_def env_key_def)
    next
      case False
      then have "CHR ''='' \<in> set (take 7 (quoted_line (k, v)))"
        by (simp add: quoted_line_def take_Cons')
      with e show False by simp
    qed
  qed
  then show ?thesis by (simp add: trim_prefix_def has_prefix_def eval_nat_numeral)
qed

lemma parse_quoted_line:
  assumes "env_key k"
  shows "parse_env_lines n (quoted_line (k, v) # ls) =
    map_sum id (\<lambda>ls. \<lparr>el_Key = k, el_Value = v\<rparr> # ls) (parse_env_lines (n + 1) ls)"
proof -
  let ?l = "quoted_line (k, v)"
  have "?l \<noteq> []" "\<not> has_prefix ?l ''#''"
    using assms by (cases k; simp add: quoted_line_def env_key_def has_prefix_def)+
  moreover have "index_byte ?l (CHR ''='') = Some (length k)"
    using assms by (simp add: quoted_line_def env_key_def index_byte_append)
  moreover have "trim_space k = k" using assms by (simp add: env_key_def trim_space_trimmed)
  moreover have "trim_space (CHR 0x22 # v @ [CHR 0x22]) = CHR 0x22 # v @ [CHR 0x22]"
    by (rule trim_space_ends) (simp_all add: is_space_def)
  moreover have "take (length k) ?l = k" "drop (length k + 1) ?l = CHR 0x22 # v @ [CHR 0x22]"
    by (simp_all add: quoted_line_def)
  ultimately show ?thesis
    using quoted_line_trim [OF assms, of v] quoted_line_no_export [OF assms, of v]
    by (simp add: Let_def unquote_value_def)
qed

subsection \<open>Properties\<close>

text \<open>
  C28: Environment files round-trip: a file that gives each key a value in double quotes is
  read back to exactly these keys and values, in order, whatever bytes the values have but
  newlines, as long as a line stays below the 64 KiB bound of the scanner and the keys are such
  as can start a line: not empty, ASCII without surrounding spaces, with no equals sign or
  newline in them, and starting neither with a hash sign nor with the word export and a space.
\<close>

theorem dotenv_roundtrip:
  assumes "\<forall>(k, v) \<in> set kvs. env_key k \<and> newline \<notin> set v \<and> length k + length v + 3 < maxTokenSize"
  shows "parseDotenv (write_dotenv kvs) = Inr (map (\<lambda>(k, v). \<lparr>el_Key = k, el_Value = v\<rparr>) kvs)"
proof -
  have lines: "newline \<notin> set l \<and> length l < maxTokenSize \<and> drop_cr l = l" if "l \<in> set (map quoted_line kvs)" for l
    using that assms by (auto simp: quoted_line_def env_key_def newline_def drop_cr_def)
  then have "map drop_cr (map quoted_line kvs) = map quoted_line kvs" by (intro map_idI) blast
  with scan_lines_concat [of "map quoted_line kvs"] lines
  have scan: "scan_lines (write_dotenv kvs) = (map quoted_line kvs, None)"
    by (simp add: write_dotenv_def)
  have "parse_env_lines n (map quoted_line kvs) = Inr (map (\<lambda>(k, v). \<lparr>el_Key = k, el_Value = v\<rparr>) kvs)" for n
    using assms
  proof (induction kvs arbitrary: n)
    case (Cons kv kvs)
    obtain k v where kv: "kv = (k, v)" by force
    with Cons.prems have "env_key k" by auto
    from parse_quoted_line [OF this, of n v "map quoted_line kvs"] Cons.IH [of "n + 1"] Cons.prems
    show ?case by (simp add: kv)
  qed simp
  then show ?thesis by (simp add: parseDotenv_def scan)
qed

theorem dotenv_roundtrip_witness:
  "parseDotenv (write_dotenv [(''A'', ''b c''), (''TOKEN'', ''sekeve:github#username'')])
     = Inr [\<lparr>el_Key = ''A'', el_Value = ''b c''\<rparr>, \<lparr>el_Key = ''TOKEN'', el_Value = ''sekeve:github#username''\<rparr>]"
  using dotenv_roundtrip [of "[(''A'', ''b c''), (''TOKEN'', ''sekeve:github#username'')]"]
  by (simp add: env_key_def trimmed_def is_space_def newline_def maxTokenSize_def)

text \<open>
  The lines with their references resolved, one after the other against the listing \<open>es\<close>, from
  the client \<open>c\<close> to the client \<open>c'\<close>: a line without a reference stays as it is; one with a
  reference gets the field of the only listed entry that matches it, whose payload is fetched
  and decrypted at that moment.
\<close>

inductive lines_resolved :: "('n, 'g, 'f) command \<Rightarrow> envelope list \<Rightarrow> env_line list \<Rightarrow> ('n, 'g, 'f) client \<Rightarrow>
    env_line list \<Rightarrow> ('n, 'g, 'f) client \<Rightarrow> bool"
  for K :: "('n, 'g, 'f) command" and es :: "envelope list"
where
  end_resolved: "lines_resolved K es [] c [] c"
| plain_line: "\<lbrakk>parseSekeveRef (el_Value l) = None; lines_resolved K es ls c ls' c'\<rbrakk> \<Longrightarrow>
     lines_resolved K es (l # ls) c (l # ls') c'"
| reference_line: "\<lbrakk>parseSekeveRef (el_Value l) = Some ref;
     FilterEntries (k_unicode K) es \<lparr>so_Domain = [], so_Email = [], so_Query = sr_Query ref\<rparr> = [e];
     Vault_GetEntry (k_env K) (ID e) c = (Inr env, c1);
     gpg_Decrypt (e_gpg (k_env K)) (Payload env) (cl_home c1) = (Inr plaintext, g);
     extractField (k_print K) plaintext (EntryType_String (Type env)) (sr_Field ref) = Inr x;
     lines_resolved K es ls (c1\<lparr>cl_home := g\<rparr>) ls' c'\<rbrakk> \<Longrightarrow>
     lines_resolved K es (l # ls) c (l\<lparr>el_Value := x\<rparr> # ls') c'"

inductive_simps lines_resolved_Nil: "lines_resolved K es [] c ls' c'"







end
