(* ===== verification/Cli.thy ===== *)
theory Cli
  imports Cli_Base Login_Name
begin

text \<open>
  The commands of \<^verbatim>\<open>internal/adapters/cli/client\<close> that work on entries: \<^verbatim>\<open>list\<close>, \<^verbatim>\<open>search\<close>,
  \<^verbatim>\<open>get\<close>, \<^verbatim>\<open>rm\<close>, \<^verbatim>\<open>add\<close>, \<^verbatim>\<open>dmenu\<close> and \<^verbatim>\<open>pin\<close>. Each is the function that cobra runs,
  from its flags and arguments to its result, its inputs and outputs and the client.
\<close>

type_synonym ('n, 'g, 'f) run_e = "io \<Rightarrow> ('n, 'g, 'f) client \<Rightarrow> ('n, 'g, 'f) outcome"

subsection \<open>Listing and searching\<close>

definition show_entries :: "('n, 'g, 'f) command \<Rightarrow> envelope list \<Rightarrow> ('n, 'g, 'f) run_e" where
  "show_entries K es s c = (None, put (if k_json K then JsonEntries es else TableShown es) s, c)"

definition list_cmd :: "('n, 'g, 'f) command \<Rightarrow> string \<Rightarrow> ('n, 'g, 'f) run_e" where
  "list_cmd K entryTypeStr =
     with_client K (\<lambda>s c.
       (case Vault_ListEntries (k_env K) (ParseEntryType entryTypeStr) c of
          (Inl e, c) \<Rightarrow> show_error e s c
        | (Inr es, c) \<Rightarrow> show_entries K es s c))"

definition search_cmd :: "('n, 'g, 'f) command \<Rightarrow> string \<Rightarrow> string \<Rightarrow> string list \<Rightarrow> ('n, 'g, 'f) run_e" where
  "search_cmd K domain email args =
     with_client K (\<lambda>s c.
       (case Vault_ListEntries (k_env K) EntryTypeUnspecified c of
          (Inl e, c) \<Rightarrow> show_error e s c
        | (Inr es, c) \<Rightarrow>
            show_entries K (FilterEntries (k_unicode K) es
              \<lparr>so_Domain = domain, so_Email = email,
               so_Query = (case args of [] \<Rightarrow> [] | q # _ \<Rightarrow> q)\<rparr>) s c))"

subsection \<open>Finding the entry of a command\<close>

definition opts_of :: "string \<Rightarrow> string \<Rightarrow> string \<Rightarrow> string list \<Rightarrow> resolve_opts" where
  "opts_of i domain email args =
     \<lparr>ro_ID = i, ro_Domain = domain, ro_Email = email, ro_Query = (case args of [] \<Rightarrow> [] | q # _ \<Rightarrow> q)\<rparr>"

text \<open>
  The part that \<^verbatim>\<open>get\<close>, \<^verbatim>\<open>edit\<close> and \<^verbatim>\<open>rm\<close> have in common: without an identifier the entries are
  listed and one is resolved. An error is shown except for missing criteria.
\<close>

definition find_entry :: "('n, 'g, 'f) command \<Rightarrow> resolve_opts \<Rightarrow> io \<Rightarrow> ('n, 'g, 'f) client \<Rightarrow>
    (go_error + envelope) \<times> io \<times> ('n, 'g, 'f) client" where
  "find_entry K opts s c =
     (if ro_Query opts = [] \<and> ro_Domain opts = [] \<and> ro_Email opts = [] then (Inl no_criteria, s, c)
      else case Vault_ListEntries (k_env K) EntryTypeUnspecified c of
        (Inl e, c) \<Rightarrow> (Inl e, put (ErrorShown e) s, c)
      | (Inr es, c) \<Rightarrow>
         (case resolve K es opts s of
            Inl e \<Rightarrow> (Inl e, put (ErrorShown e) s, c)
          | Inr env \<Rightarrow> (Inr env, s, c)))"

text \<open>The entry with its payload: by the identifier that was given or found.\<close>

definition fetch_entry :: "('n, 'g, 'f) command \<Rightarrow> resolve_opts \<Rightarrow> io \<Rightarrow> ('n, 'g, 'f) client \<Rightarrow>
    (go_error + envelope) \<times> io \<times> ('n, 'g, 'f) client" where
  "fetch_entry K opts s c =
     (let fetch = (\<lambda>i s c. case Vault_GetEntry (k_env K) i c of
                     (Inl e, c) \<Rightarrow> (Inl e, put (ErrorShown e) s, c)
                   | (Inr env, c) \<Rightarrow> (Inr env, s, c))
      in if ro_ID opts \<noteq> [] then fetch (ro_ID opts) s c
         else (case find_entry K opts s c of
                 (Inl e, s, c) \<Rightarrow> (Inl e, s, c)
               | (Inr env, s, c) \<Rightarrow> fetch (ID env) s c))"

subsection \<open>get\<close>

text \<open>
  What the callback of the decryption shows, or its error. The JSON form has the plaintext
  as its payload.
\<close>

definition display_plaintext :: "bool \<Rightarrow> envelope \<Rightarrow> bytes \<Rightarrow> go_error + shown" where
  "display_plaintext json env plaintext =
     (if json then Inr (JsonEntry (env\<lparr>Payload := plaintext\<rparr>))
      else if Type env = EntryTypeLogin then
        (case unmarshal_login plaintext of
           (Some e, _) \<Rightarrow> Inl e
         | (None, l) \<Rightarrow> Inr (EntryShown env
             ([(''Username'', Username l), (''Password'', Password l)] @
              (if Site l \<noteq> [] then [(''Site'', Site l)] else []) @
              (if Notes l \<noteq> [] then [(''Notes'', Notes l)] else []))))
      else if Type env = EntryTypeSecret then
        (case unmarshal_secret plaintext of
           (Some e, _) \<Rightarrow> Inl e
         | (None, x) \<Rightarrow> Inr (EntryShown env [(''Value'', secret_Value x)]))
      else if Type env = EntryTypeNote then
        (case unmarshal_note plaintext of
           (Some e, _) \<Rightarrow> Inl e
         | (None, x) \<Rightarrow> Inr (EntryShown env [(''Content'', note_Content x)]))
      else Inr (OutText (plaintext @ [newline])))"

definition displayDecryptedEntry :: "('n, 'g, 'f) command \<Rightarrow> envelope \<Rightarrow> ('n, 'g, 'f) run_e" where
  "displayDecryptedEntry K env s c =
     (case Vault_DecryptAndUse (k_env K) (Payload env)
             (\<lambda>plaintext _. Some (display_plaintext (k_json K) env plaintext)) None c of
        (Some e, _, c) \<Rightarrow> show_error e s c
      | (None, Some (Inl e), c) \<Rightarrow> show_error e s c
      | (None, Some (Inr x), c) \<Rightarrow> (None, put x s, c)
      | (None, None, c) \<Rightarrow> (None, s, c))"

definition get_cmd :: "('n, 'g, 'f) command \<Rightarrow> string \<Rightarrow> string \<Rightarrow> string \<Rightarrow> string list \<Rightarrow> ('n, 'g, 'f) run_e" where
  "get_cmd K i domain email args =
     with_client K (\<lambda>s c.
       (case fetch_entry K (opts_of i domain email args) s c of
          (Inl e, s, c) \<Rightarrow> (Some e, s, c)
        | (Inr env, s, c) \<Rightarrow> displayDecryptedEntry K env s c))"

subsection \<open>rm\<close>

definition rm_cmd :: "('n, 'g, 'f) command \<Rightarrow> string \<Rightarrow> string \<Rightarrow> string \<Rightarrow> string list \<Rightarrow> ('n, 'g, 'f) run_e" where
  "rm_cmd K i domain email args =
     with_client K (\<lambda>s c.
       (let opts = opts_of i domain email args;
            target = (if ro_ID opts \<noteq> [] then (Inr (ro_ID opts, ro_ID opts), s, c)
                      else (case find_entry K opts s c of
                              (Inl e, s, c) \<Rightarrow> (Inl e, s, c)
                            | (Inr env, s, c) \<Rightarrow> (Inr (ID env, Name env), s, c)))
        in case target of
             (Inl e, s, c) \<Rightarrow> (Some e, s, c)
           | (Inr (targetID, targetName), s, c) \<Rightarrow>
              (case Vault_DeleteEntry (k_env K) targetID c of
                 (Some e, c) \<Rightarrow> show_error e s c
               | (None, c) \<Rightarrow>
                   (None, put (if k_json K then JsonDeleted targetID
                     else SuccessShown (''Entry '' @ strconv_quote (k_print K) targetName @ '' deleted'')) s, c))))"

subsection \<open>add\<close>

text \<open>The end of the three ways to add: the entry is encrypted, sent and shown.\<close>

definition add_entry :: "('n, 'g, 'f) command \<Rightarrow> string \<Rightarrow> envelope \<Rightarrow> ('n, 'g, 'f) run_e" where
  "add_entry K what env =
     with_client K (\<lambda>s c.
       (case Vault_AddEntry (k_env K) (k_key K) env c of
          (Some e, env, c) \<Rightarrow> show_error e s c
        | (None, env, c) \<Rightarrow>
            (None, put (if k_json K then JsonEntry env
              else SuccessShown (what @ '' '' @ strconv_quote (k_print K) (Name env) @ '' added'')) s, c)))"

definition ask :: "string \<Rightarrow> string \<Rightarrow> io \<Rightarrow> string \<times> io" where
  "ask label val s = (if val = [] then prompt label [] s else (val, s))"

definition add_login_cmd :: "('n, 'g, 'f) command \<Rightarrow> url_lib \<Rightarrow> string \<Rightarrow> string \<Rightarrow> string \<Rightarrow> string \<Rightarrow> ('n, 'g, 'f) run_e" where
  "add_login_cmd K L site username password notes s c =
     (let (site, s) = ask ''Site'' site s;
          (username, s) = ask ''Username'' username s;
          (pw, s) = (if password = []
                     then let (r, s) = read_password (put (OutText ''Password: '') s)
                          in (r, put (OutText [newline]) s)
                     else (Inr password, s))
      in case pw of
           Inl e \<Rightarrow> show_error e s c
         | Inr password \<Rightarrow>
             let (notes, s) = (if notes = [] \<and> k_terminal K then prompt ''Notes (optional)'' [] s else (notes, s));
                 payload = marshal_login \<lparr>Site = site, Username = username, Password = password, Notes = notes\<rparr>
             in add_entry K ''Login'' (zero_envelope\<lparr>Name := DeriveLoginName L site username, Type := EntryTypeLogin,
                  Meta := [(''username'', username), (''site'', site)], Payload := payload\<rparr>) s c)"

definition add_secret_cmd :: "('n, 'g, 'f) command \<Rightarrow> string \<Rightarrow> string \<Rightarrow> ('n, 'g, 'f) run_e" where
  "add_secret_cmd K name val =
     add_entry K ''Secret'' (zero_envelope\<lparr>Name := name, Type := EntryTypeSecret,
       Payload := marshal_secret \<lparr>secret_Name = name, secret_Value = val\<rparr>\<rparr>)"

text \<open>The content comes from a file or from the lines of the input, whose scanner may stop early.\<close>

definition add_note_cmd :: "('n, 'g, 'f) command \<Rightarrow> string \<Rightarrow> string \<Rightarrow> ('n, 'g, 'f) run_e" where
  "add_note_cmd K filePath name s c =
     (let content = (if filePath \<noteq> []
            then map_sum id (\<lambda>data. (data, s)) (e_read_file (k_env K) filePath (cl_files c))
            else Inr (join_strings (fst (scan_lines (concat (io_stdin s)))) [newline],
                      put (OutText (''Enter note content (Ctrl+D to finish):'' @ [newline])) (s\<lparr>io_stdin := []\<rparr>)))
      in case content of
           Inl e \<Rightarrow> show_error e s c
         | Inr (content, s) \<Rightarrow>
             add_entry K ''Note'' (zero_envelope\<lparr>Name := name, Type := EntryTypeNote,
               Payload := marshal_note \<lparr>note_Name = name, note_Content = content\<rparr>\<rparr>) s c)"

subsection \<open>dmenu\<close>

text \<open>The value that is copied for an entry.\<close>

definition dmenu_value :: "envelope \<Rightarrow> bytes \<Rightarrow> go_error + string" where
  "dmenu_value env plaintext =
     (if Type env = EntryTypeLogin then
        (case unmarshal_login plaintext of (Some e, _) \<Rightarrow> Inl e | (None, l) \<Rightarrow> Inr (Password l))
      else if Type env = EntryTypeSecret then
        (case unmarshal_secret plaintext of (Some e, _) \<Rightarrow> Inl e | (None, x) \<Rightarrow> Inr (secret_Value x))
      else if Type env = EntryTypeNote then
        (case unmarshal_note plaintext of (Some e, _) \<Rightarrow> Inl e | (None, x) \<Rightarrow> Inr (note_Content x))
      else Inr plaintext)"

text \<open>The callback of the decryption: it copies the value and notifies, or has an error.\<close>

definition dmenu_copy :: "('n, 'g, 'f) command \<Rightarrow> envelope \<Rightarrow> bytes \<Rightarrow> go_error option \<times> io \<Rightarrow> go_error option \<times> io" where
  "dmenu_copy K env plaintext acc =
     (case dmenu_value env plaintext of
        Inl e \<Rightarrow> (Some e, snd acc)
      | Inr v \<Rightarrow>
         (case k_copy K v of
            Some e \<Rightarrow> (Some e, snd acc)
          | None \<Rightarrow> (fst acc, puts [Copied v, Notified ''Copied to clipboard''] (snd acc))))"

definition dmenu_cmd :: "('n, 'g, 'f) command \<Rightarrow> bool \<Rightarrow> bool \<Rightarrow> string \<Rightarrow> ('n, 'g, 'f) run_e" where
  "dmenu_cmd K ensureSession listMode copySelection =
     with_client K (\<lambda>s c.
       (if ensureSession then (None, s, c)
        else if listMode then
          (case Vault_ListEntries (k_env K) EntryTypeUnspecified c of
             (Inl e, c) \<Rightarrow> show_error e s c
           | (Inr es, c) \<Rightarrow> (None, puts (map (\<lambda>e. OutText (formatDmenuLine e @ [newline])) es) s, c))
        else if copySelection \<noteq> [] then
          (let i = parseDmenuSelection copySelection
           in if i = []
              then show_error (Errorf (''could not parse selection: '' @ strconv_quote (k_print K) copySelection)) s c
              else (case Vault_GetEntry (k_env K) i c of
                      (Inl e, c) \<Rightarrow> show_error e s c
                    | (Inr env, c) \<Rightarrow>
                       (case Vault_DecryptAndUse (k_env K) (Payload env) (dmenu_copy K env) (None, s) c of
                          (Some e, (_, s), c) \<Rightarrow> show_error e s c
                        | (None, (Some e, s), c) \<Rightarrow> show_error e s c
                        | (None, (None, s), c) \<Rightarrow> (None, s, c))))
        else (None, put HelpShown s, c)))"

subsection \<open>pin\<close>

text \<open>
  The PIN commands return the errors of the connection and of their prompts without showing
  them, and drop the error of closing.
\<close>

definition with_client_quiet :: "('n, 'g, 'f) command \<Rightarrow> ('n, 'g, 'f) run_e \<Rightarrow> ('n, 'g, 'f) run_e" where
  "with_client_quiet K body s c =
     (case connect K c of
        (Some e, ns, c) \<Rightarrow> (Some e, puts (map Notified ns) s, c)
      | (None, ns, c) \<Rightarrow>
         (case body (puts (map Notified ns) s) c of (r, s, c) \<Rightarrow> (r, s, snd (Client_Close (k_env K) c))))"

text \<open>The new PIN, typed twice, once it has four to six characters.\<close>

definition read_new_pin :: "string \<Rightarrow> io \<Rightarrow> (go_error + string) \<times> io" where
  "read_new_pin confirmLabel s =
     (case ReadPassword ''New PIN: '' s of
        (Inl e, s) \<Rightarrow> (Inl e, s)
      | (Inr pin, s) \<Rightarrow>
         (case ReadPassword confirmLabel s of
            (Inl e, s) \<Rightarrow> (Inl e, s)
          | (Inr confirm, s) \<Rightarrow>
              if pin \<noteq> confirm then (Inl (Errorf ''PINs do not match''), s)
              else if length pin < 4 \<or> 6 < length pin then (Inl (Errorf ''PIN must be 4-6 digits''), s)
              else (Inr pin, s)))"

definition send_pin :: "('n, 'g, 'f) command \<Rightarrow> string \<Rightarrow> string \<Rightarrow> string \<Rightarrow> ('n, 'g, 'f) run_e" where
  "send_pin K current pin success s c =
     (case Client_SetPIN (k_env K) current pin c of
        (Inl e, c) \<Rightarrow> show_error e s c
      | (Inr _, c) \<Rightarrow> (None, put (SuccessShown success) s, c))"

definition pin_set_cmd :: "('n, 'g, 'f) command \<Rightarrow> ('n, 'g, 'f) run_e" where
  "pin_set_cmd K =
     with_client_quiet K (\<lambda>s c.
       (case Client_HasPIN (k_env K) c of
          (Inl e, c) \<Rightarrow> (Some e, s, c)
        | (Inr True, c) \<Rightarrow>
            (Some (Errorf ''PIN already set''),
             put (ErrorShown (Errorf (''PIN already set; use '' @ [CHR 0x27] @ ''sekeve pin change'' @ [CHR 0x27] @ '' instead''))) s, c)
        | (Inr False, c) \<Rightarrow>
           (case read_new_pin ''Confirm PIN: '' s of
              (Inl e, s) \<Rightarrow> (Some e, s, c)
            | (Inr pin, s) \<Rightarrow> send_pin K [] pin ''PIN set successfully'' s c)))"

definition pin_change_cmd :: "('n, 'g, 'f) command \<Rightarrow> ('n, 'g, 'f) run_e" where
  "pin_change_cmd K =
     with_client_quiet K (\<lambda>s c.
       (case ReadPassword ''Current PIN: '' s of
          (Inl e, s) \<Rightarrow> (Some e, s, c)
        | (Inr current, s) \<Rightarrow>
           (case read_new_pin ''Confirm new PIN: '' s of
              (Inl e, s) \<Rightarrow> (Some e, s, c)
            | (Inr pin, s) \<Rightarrow> send_pin K current pin ''PIN changed successfully'' s c)))"

end
