(* ===== verification/Editor.thy ===== *)
theory Editor
  imports Cli
begin

text \<open>
  \<^verbatim>\<open>internal/adapters/cli/client/edit.go\<close>: editing an entry, a note in the editor of the user
  by way of a temporary file. What the code asks of the operating system is the record
  \<open>editor\<close>, over the same state of files as the rest of the client: at any time one temporary
  file is open, and the operations on it take its name.
\<close>

record 'f editor =
  ed_name :: string
  ed_create :: "'f \<Rightarrow> (go_error + string) \<times> 'f"
  ed_open :: "string \<Rightarrow> 'f \<Rightarrow> go_error option \<times> 'f"
  ed_write :: "string \<Rightarrow> string \<Rightarrow> 'f \<Rightarrow> go_error option \<times> 'f"
  ed_close :: "string \<Rightarrow> 'f \<Rightarrow> go_error option \<times> 'f"
  ed_run :: "string \<Rightarrow> string \<Rightarrow> 'f \<Rightarrow> go_error option \<times> 'f"
  ed_read :: "string \<Rightarrow> 'f \<Rightarrow> go_error + bytes"
  ed_size :: "string \<Rightarrow> 'f \<Rightarrow> int option"
  ed_overwrite :: "string \<Rightarrow> bytes \<Rightarrow> 'f \<Rightarrow> go_error option \<times> 'f"
  ed_remove :: "string \<Rightarrow> 'f \<Rightarrow> go_error option \<times> 'f"

subsection \<open>The temporary file\<close>

text \<open>
  The text of an error and, where the removal fails as well, of that one. The two are only
  ever shown.
\<close>

definition also_failed :: "string \<Rightarrow> go_error \<Rightarrow> string \<Rightarrow> go_error \<Rightarrow> go_error" where
  "also_failed m e what e2 =
     Errorf (m @ '': '' @ error_string e @ '' (also failed to '' @ what @ '': '' @ error_string e2 @ '')'')"

definition remove_failed :: "'f editor \<Rightarrow> string \<Rightarrow> string \<Rightarrow> go_error \<Rightarrow> 'f \<Rightarrow> go_error \<times> 'f" where
  "remove_failed Ed tmpName m e fs =
     (case ed_remove Ed tmpName fs of
        (Some removeErr, fs) \<Rightarrow> (also_failed m e ''remove temp file'' removeErr, fs)
      | (None, fs) \<Rightarrow> (WrapErr m e, fs))"

text \<open>Filling the file: an error has removed it, or tried to.\<close>

definition fill_temp :: "'f editor \<Rightarrow> string \<Rightarrow> string \<Rightarrow> 'f \<Rightarrow> go_error option \<times> 'f" where
  "fill_temp Ed tmpName content fs =
     (case ed_close Ed tmpName fs of
        (Some e, fs) \<Rightarrow> (Some (WrapErr ''failed to close temp file'' e), snd (ed_remove Ed tmpName fs))
      | (None, fs) \<Rightarrow>
         (case ed_open Ed tmpName fs of
            (Some e, fs) \<Rightarrow> apfst Some (remove_failed Ed tmpName ''failed to set temp file permissions'' e fs)
          | (None, fs) \<Rightarrow>
             (case ed_write Ed tmpName content fs of
                (Some e, fs) \<Rightarrow>
                  (case ed_close Ed tmpName fs of
                     (Some closeErr, fs) \<Rightarrow>
                       (Some (also_failed ''failed to write temp file'' e ''close'' closeErr), snd (ed_remove Ed tmpName fs))
                   | (None, fs) \<Rightarrow> (Some (WrapErr ''failed to write temp file'' e), snd (ed_remove Ed tmpName fs)))
              | (None, fs) \<Rightarrow>
                 (case ed_close Ed tmpName fs of
                    (Some e, fs) \<Rightarrow> (Some (WrapErr ''failed to close temp file after write'' e), snd (ed_remove Ed tmpName fs))
                  | (None, fs) \<Rightarrow> (None, fs)))))"

text \<open>The number of zeros: the size of the file where it is more than what was read.\<close>

definition wipe_size :: "'f editor \<Rightarrow> string \<Rightarrow> bytes \<Rightarrow> 'f \<Rightarrow> nat" where
  "wipe_size Ed tmpName data fs =
     (case ed_size Ed tmpName fs of
        Some n \<Rightarrow> if n > int (length data) then nat n else length data
      | None \<Rightarrow> length data)"

definition wipe_temp :: "'f editor \<Rightarrow> string \<Rightarrow> bytes \<Rightarrow> 'f \<Rightarrow> go_error option \<times> 'f" where
  "wipe_temp Ed tmpName data fs =
     (case ed_overwrite Ed tmpName (replicate (wipe_size Ed tmpName data fs) (CHR 0x00)) fs of
        (Some e, fs) \<Rightarrow> apfst Some (remove_failed Ed tmpName ''failed to securely overwrite temp file'' e fs)
      | (None, fs) \<Rightarrow>
         (case ed_remove Ed tmpName fs of
            (Some e, fs) \<Rightarrow> (Some (WrapErr ''failed to remove temp file'' e), fs)
          | (None, fs) \<Rightarrow> (None, fs)))"

text \<open>The edited text comes with an error when the file could not be wiped.\<close>

definition editInEditor :: "'f editor \<Rightarrow> string \<Rightarrow> 'f \<Rightarrow> string \<times> go_error option \<times> 'f" where
  "editInEditor Ed content fs =
     (let prog = (if ed_name Ed = [] then ''vi'' else ed_name Ed)
      in case ed_create Ed fs of
        (Inl e, fs) \<Rightarrow> ([], Some (WrapErr ''failed to create temp file'' e), fs)
      | (Inr tmpName, fs) \<Rightarrow>
         (case fill_temp Ed tmpName content fs of
            (Some e, fs) \<Rightarrow> ([], Some e, fs)
          | (None, fs) \<Rightarrow>
             (case ed_run Ed prog tmpName fs of
                (Some e, fs) \<Rightarrow> (case remove_failed Ed tmpName ''editor failed'' e fs of (e, fs) \<Rightarrow> ([], Some e, fs))
              | (None, fs) \<Rightarrow>
                 (case ed_read Ed tmpName fs of
                    Inl e \<Rightarrow> (case remove_failed Ed tmpName ''failed to read temp file'' e fs of (e, fs) \<Rightarrow> ([], Some e, fs))
                  | Inr data \<Rightarrow> (data, wipe_temp Ed tmpName data fs)))))"

subsection \<open>edit\<close>

text \<open>
  The callback of the decryption: the entry with its new plaintext, or an error. The type
  that has no form of its own keeps the payload it has, which is the ciphertext.
\<close>

definition edit_plaintext :: "'f editor \<Rightarrow> url_lib \<Rightarrow> envelope \<Rightarrow> bytes \<Rightarrow> io \<times> 'f \<Rightarrow>
    (go_error + envelope) \<times> io \<times> 'f" where
  "edit_plaintext Ed L env plaintext = (\<lambda>(s, fs).
     (if Type env = EntryTypeLogin then
        (case unmarshal_login plaintext of
           (Some e, _) \<Rightarrow> (Inl e, s, fs)
         | (None, l) \<Rightarrow>
             let (site, s) = prompt ''Site'' (Site l) s;
                 (username, s) = prompt ''Username'' (Username l) s;
                 (password, s) = prompt ''Password'' (Password l) s;
                 (notes, s) = prompt ''Notes'' (Notes l) s
             in (Inr (env\<lparr>Payload := marshal_login \<lparr>Site = site, Username = username, Password = password, Notes = notes\<rparr>,
                      Meta := [(''username'', username), (''site'', site)],
                      Name := DeriveLoginName L site username\<rparr>), s, fs))
      else if Type env = EntryTypeSecret then
        (case unmarshal_secret plaintext of
           (Some e, _) \<Rightarrow> (Inl e, s, fs)
         | (None, x) \<Rightarrow>
             let (val, s) = prompt ''Value'' (secret_Value x) s
             in (Inr (env\<lparr>Payload := marshal_secret (x\<lparr>secret_Value := val\<rparr>)\<rparr>), s, fs))
      else if Type env = EntryTypeNote then
        (case unmarshal_note plaintext of
           (Some e, _) \<Rightarrow> (Inl e, s, fs)
         | (None, x) \<Rightarrow>
            (case editInEditor Ed (note_Content x) fs of
               (_, Some e, fs) \<Rightarrow> (Inl e, s, fs)
             | (content, None, fs) \<Rightarrow> (Inr (env\<lparr>Payload := marshal_note (x\<lparr>note_Content := content\<rparr>)\<rparr>), s, fs)))
      else (Inr env, s, fs)))"

definition edit_cmd :: "('n, 'g, 'f) command \<Rightarrow> 'f editor \<Rightarrow> url_lib \<Rightarrow> string \<Rightarrow> string \<Rightarrow> string \<Rightarrow> string list \<Rightarrow>
    ('n, 'g, 'f) run_e" where
  "edit_cmd K Ed L i domain email args =
     with_client K (\<lambda>s c.
       (case fetch_entry K (opts_of i domain email args) s c of
          (Inl e, s, c) \<Rightarrow> (Some e, s, c)
        | (Inr env, s, c) \<Rightarrow>
           (case Vault_DecryptAndUse (k_env K) (Payload env) (\<lambda>plaintext (_, s, fs). edit_plaintext Ed L env plaintext (s, fs))
                   (Inr env, s, cl_files c) c of
              (Some e, (_, s, fs), c) \<Rightarrow> show_error e s (c\<lparr>cl_files := fs\<rparr>)
            | (None, (Inl e, s, fs), c) \<Rightarrow> show_error e s (c\<lparr>cl_files := fs\<rparr>)
            | (None, (Inr env', s, fs), c) \<Rightarrow>
               (case Vault_UpdateEntry (k_env K) (k_key K) env' (c\<lparr>cl_files := fs\<rparr>) of
                  (Some e, _, c) \<Rightarrow> show_error e s c
                | (None, env', c) \<Rightarrow>
                    (None, put (if k_json K then JsonEntry env'
                       else SuccessShown (''Entry '' @ strconv_quote (k_print K)
                              (if Name env' \<noteq> [] then Name env' else Name env) @ '' updated'')) s, c)))))"

subsection \<open>No plaintext is left behind\<close>

text \<open>
  Every way out of the editor after the file was created ends with its removal, and the way
  out without an error has written zeros over all of it before.
\<close>

definition ends_removed :: "'f editor \<Rightarrow> string \<Rightarrow> 'f \<Rightarrow> bool" where
  "ends_removed Ed n fs \<longleftrightarrow> (\<exists>fs0. fs = snd (ed_remove Ed n fs0))"

definition wiped :: "'f editor \<Rightarrow> string \<Rightarrow> string \<Rightarrow> 'f \<Rightarrow> bool" where
  "wiped Ed n text fs \<longleftrightarrow>
     (\<exists>fs0 fs1 k. ed_read Ed n fs0 = Inr text \<and> length text \<le> k \<and>
        (\<forall>sz. ed_size Ed n fs0 = Some sz \<longrightarrow> sz \<le> int k) \<and>
        ed_overwrite Ed n (replicate k (CHR 0x00)) fs0 = (None, fs1) \<and> ed_remove Ed n fs1 = (None, fs))"

lemma ends_removedI [intro]: "ed_remove Ed n fs0 = (r, fs) \<Longrightarrow> ends_removed Ed n fs"
  unfolding ends_removed_def by (metis snd_conv)

lemma ends_removed_snd [simp]: "ends_removed Ed n (snd (ed_remove Ed n fs))"
  by (auto simp: ends_removed_def)

lemma remove_failed_ends: "remove_failed Ed n m e fs = (e', fs') \<Longrightarrow> ends_removed Ed n fs'"
  by (auto simp: remove_failed_def split: prod.splits option.splits)

lemma fill_temp_ends: "fill_temp Ed n content fs = (Some e, fs') \<Longrightarrow> ends_removed Ed n fs'"
  by (auto simp: fill_temp_def apfst_def map_prod_def dest: remove_failed_ends split: prod.splits option.splits)

lemma wipe_size_ge:
  "length data \<le> wipe_size Ed n data fs"
  "ed_size Ed n fs = Some sz \<Longrightarrow> sz \<le> int (wipe_size Ed n data fs)"
  by (auto simp: wipe_size_def split: option.splits)

lemma wipe_temp_ends: "wipe_temp Ed n data fs = (r, fs') \<Longrightarrow> ends_removed Ed n fs'"
  by (auto simp: wipe_temp_def apfst_def map_prod_def dest: remove_failed_ends split: prod.splits option.splits)

lemma wipe_temp_wiped:
  assumes "wipe_temp Ed n data fs = (None, fs')" and "ed_read Ed n fs = Inr data"
  shows "wiped Ed n data fs'"
proof -
  from assms(1) obtain fs1 where
    "ed_overwrite Ed n (replicate (wipe_size Ed n data fs) (CHR 0x00)) fs = (None, fs1)"
    "ed_remove Ed n fs1 = (None, fs')"
    by (auto simp: wipe_temp_def apfst_def map_prod_def split: prod.splits option.splits)
  with assms(2) wipe_size_ge [where Ed = Ed and n = n and data = data and fs = fs] show ?thesis unfolding wiped_def by blast
qed

lemma editInEditor_ends:
  assumes "editInEditor Ed content fs = (text, r, fs')" and "ed_create Ed fs = (Inr n, fs1)"
  shows "ends_removed Ed n fs' \<and> (r = None \<longrightarrow> wiped Ed n text fs')"
  using assms unfolding editInEditor_def Let_def
  by (auto dest: fill_temp_ends wipe_temp_ends wipe_temp_wiped remove_failed_ends
      split: prod.splits option.splits sum.splits)

text \<open>
  C30: Editing a note leaves no plaintext on the disk: whatever fails, the temporary file is gone
  when the editor returns, provided removing a file works; and when there was no error, the
  file had been overwritten with at least as many zeros as it had bytes before it was removed.
\<close>

theorem editor_file_removed:
  assumes "\<forall>n fs. n \<notin> names (snd (ed_remove Ed n fs))"
    and "editInEditor Ed content fs = (t, r, fs')"
    and "ed_create Ed fs = (Inr n, fs1)"
  shows "n \<notin> names fs' \<and> (r = None \<longrightarrow> wiped Ed n t fs')"
  using assms(1) editInEditor_ends [OF assms(2,3)] by (auto simp: ends_removed_def)

text \<open>Files as an association list, and an editor that adds a line.\<close>

definition demo_put :: "string \<Rightarrow> bytes \<Rightarrow> (string \<times> bytes) list \<Rightarrow> go_error option \<times> (string \<times> bytes) list" where
  "demo_put n data fs = (None, AList.update n data fs)"

definition demo_get :: "string \<Rightarrow> (string \<times> bytes) list \<Rightarrow> bytes" where
  "demo_get n fs = (case map_of fs n of Some d \<Rightarrow> d | None \<Rightarrow> [])"

definition demo_editor :: "(string \<times> bytes) list editor" where
  "demo_editor = \<lparr>ed_name = [], ed_create = (\<lambda>fs. (Inr ''/tmp/e'', AList.update ''/tmp/e'' [] fs)),
     ed_open = (\<lambda>n. demo_put n []), ed_write = demo_put, ed_close = (\<lambda>n fs. (None, fs)),
     ed_run = (\<lambda>prog n fs. demo_put n (demo_get n fs @ '' edited'') fs),
     ed_read = (\<lambda>n fs. Inr (demo_get n fs)), ed_size = (\<lambda>n fs. Some (int (length (demo_get n fs)))),
     ed_overwrite = demo_put, ed_remove = (\<lambda>n fs. (None, AList.delete n fs))\<rparr>"

theorem editor_file_removed_witness:
  "''/tmp/e'' \<notin> fst ` set ([(''/x'', ''kept'')] :: (string \<times> bytes) list) \<and>
   wiped demo_editor ''/tmp/e'' ''old edited'' [(''/x'', ''kept'')]"
proof -
  have gone: "\<forall>n fs. n \<notin> fst ` set (snd (ed_remove demo_editor n fs))"
    by (auto simp: demo_editor_def AList.delete_eq)
  have run: "editInEditor demo_editor ''old'' [(''/x'', ''kept'')] = (''old edited'', None, [(''/x'', ''kept'')])"
    by code_simp
  have new: "ed_create demo_editor [(''/x'', ''kept'')] = (Inr ''/tmp/e'', [(''/x'', ''kept''), (''/tmp/e'', [])])"
    by code_simp
  from editor_file_removed [OF gone run new] show ?thesis by simp
qed

end
