(* ===== verification/Bitwarden.thy ===== *)
theory Bitwarden
  imports Codec Login_Name
begin

text \<open>
  \<^verbatim>\<open>internal/adapters/cli/client/bitwarden.go\<close>: the export of Bitwarden as its JSON is read
  (the types with their struct tags, slices and a pointer included), and the entries its
  items become. The parser of URLs is the argument.
\<close>

subsection \<open>The types\<close>

text \<open>A nil slice is \<open>None\<close>, and so is a nil pointer.\<close>

record bitwarden_uri =
  URI :: string

record bitwarden_login =
  URIs :: "bitwarden_uri list option"
  bw_Username :: string
  bw_Password :: string

record bitwarden_item =
  bw_Type :: int
  bw_Name :: string
  bw_Notes :: string
  bw_Login :: "bitwarden_login option"

record bitwarden_export =
  Encrypted :: bool
  Folders :: "json option"
  Items :: "bitwarden_item list option"

definition bwTypeLogin :: int where "bwTypeLogin = 1"
definition bwTypeSecureNote :: int where "bwTypeSecureNote = 2"

definition zero_uri :: bitwarden_uri where "zero_uri = \<lparr>URI = []\<rparr>"

definition zero_bw_login :: bitwarden_login where
  "zero_bw_login = \<lparr>URIs = None, bw_Username = [], bw_Password = []\<rparr>"

definition zero_item :: bitwarden_item where
  "zero_item = \<lparr>bw_Type = 0, bw_Name = [], bw_Notes = [], bw_Login = None\<rparr>"

definition zero_export :: bitwarden_export where
  "zero_export = \<lparr>Encrypted = False, Folders = None, Items = None\<rparr>"

subsection \<open>Reading\<close>

definition saved_error :: "go_error option \<times> 'a \<Rightarrow> dec_out \<times> 'a" where
  "saved_error p = (case p of (None, x) \<Rightarrow> (DOk, x) | (Some e, x) \<Rightarrow> (DSave e, x))"

text \<open>The elements of a slice: an element it had before is decoded into.\<close>

fun decode_elements :: "(json \<Rightarrow> 'a \<Rightarrow> dec_out \<times> 'a) \<Rightarrow> 'a \<Rightarrow> json list \<Rightarrow> 'a list \<Rightarrow> go_error option \<times> 'a list" where
  "decode_elements dec zero [] old = (None, [])"
| "decode_elements dec zero (v # vs) old =
     (case dec v (case old of [] \<Rightarrow> zero | x # _ \<Rightarrow> x) of
        (DOk, x) \<Rightarrow> apsnd ((#) x) (decode_elements dec zero vs (tl old))
      | (DSave e, x) \<Rightarrow>
         (case decode_elements dec zero vs (tl old) of (_, xs) \<Rightarrow> (Some e, x # xs))
      | (DAbort e, x) \<Rightarrow> (Some e, [x]))"

definition decode_slice :: "(json \<Rightarrow> 'a \<Rightarrow> dec_out \<times> 'a) \<Rightarrow> 'a \<Rightarrow> json \<Rightarrow> 'a list option \<Rightarrow> dec_out \<times> 'a list option" where
  "decode_slice dec zero v old =
     (case v of
        JNull \<Rightarrow> (DOk, None)
      | JArr vs \<Rightarrow> saved_error (apsnd Some (decode_elements dec zero vs (case old of None \<Rightarrow> [] | Some xs \<Rightarrow> xs)))
      | _ \<Rightarrow> (DSave type_error, old))"

text \<open>A pointer: null clears it, any other value first allocates what it points to.\<close>

definition decode_pointer :: "(json \<Rightarrow> 'a \<Rightarrow> dec_out \<times> 'a) \<Rightarrow> 'a \<Rightarrow> json \<Rightarrow> 'a option \<Rightarrow> dec_out \<times> 'a option" where
  "decode_pointer dec zero v old =
     (if v = JNull then (DOk, None)
      else apsnd Some (dec v (case old of None \<Rightarrow> zero | Some x \<Rightarrow> x)))"

definition decode_bool :: "json \<Rightarrow> bool \<Rightarrow> dec_out \<times> bool" where
  "decode_bool v old =
     (case v of JBool b \<Rightarrow> (DOk, b) | JNull \<Rightarrow> (DOk, old) | _ \<Rightarrow> (DSave type_error, old))"

definition decode_uri :: "json \<Rightarrow> bitwarden_uri \<Rightarrow> dec_out \<times> bitwarden_uri" where
  "decode_uri v u =
     saved_error (decode_object [''uri'']
       (\<lambda>n v u. let (d, s) = decode_string v (URI u) in (d, u\<lparr>URI := s\<rparr>)) v u)"

definition bw_login_fields :: "string \<Rightarrow> json \<Rightarrow> bitwarden_login \<Rightarrow> dec_out \<times> bitwarden_login" where
  "bw_login_fields n v l =
     (if n = ''uris'' then let (d, us) = decode_slice decode_uri zero_uri v (URIs l) in (d, l\<lparr>URIs := us\<rparr>)
      else if n = ''username'' then let (d, s) = decode_string v (bw_Username l) in (d, l\<lparr>bw_Username := s\<rparr>)
      else let (d, s) = decode_string v (bw_Password l) in (d, l\<lparr>bw_Password := s\<rparr>))"

definition decode_bw_login :: "json \<Rightarrow> bitwarden_login \<Rightarrow> dec_out \<times> bitwarden_login" where
  "decode_bw_login v l = saved_error (decode_object [''uris'', ''username'', ''password''] bw_login_fields v l)"

definition item_fields :: "string \<Rightarrow> json \<Rightarrow> bitwarden_item \<Rightarrow> dec_out \<times> bitwarden_item" where
  "item_fields n v x =
     (if n = ''type'' then let (d, i) = decode_int v (bw_Type x) in (d, x\<lparr>bw_Type := i\<rparr>)
      else if n = ''name'' then let (d, s) = decode_string v (bw_Name x) in (d, x\<lparr>bw_Name := s\<rparr>)
      else if n = ''notes'' then let (d, s) = decode_string v (bw_Notes x) in (d, x\<lparr>bw_Notes := s\<rparr>)
      else let (d, l) = decode_pointer decode_bw_login zero_bw_login v (bw_Login x) in (d, x\<lparr>bw_Login := l\<rparr>))"

definition decode_item :: "json \<Rightarrow> bitwarden_item \<Rightarrow> dec_out \<times> bitwarden_item" where
  "decode_item v x = saved_error (decode_object [''type'', ''name'', ''notes'', ''login''] item_fields v x)"

definition export_fields :: "string \<Rightarrow> json \<Rightarrow> bitwarden_export \<Rightarrow> dec_out \<times> bitwarden_export" where
  "export_fields n v x =
     (if n = ''encrypted'' then let (d, b) = decode_bool v (Encrypted x) in (d, x\<lparr>Encrypted := b\<rparr>)
      else if n = ''folders'' then (DOk, x\<lparr>Folders := Some v\<rparr>)
      else let (d, its) = decode_slice decode_item zero_item v (Items x) in (d, x\<lparr>Items := its\<rparr>))"

definition unmarshal_export :: "bytes \<Rightarrow> go_error option \<times> bitwarden_export" where
  "unmarshal_export data = json_unmarshal [''encrypted'', ''folders'', ''items''] export_fields data zero_export"

subsection \<open>Mapping items to entries\<close>

definition isImportableItem :: "bitwarden_item \<Rightarrow> bool" where
  "isImportableItem item \<longleftrightarrow>
     trim_space (bw_Name item) \<noteq> [] \<and> (bw_Type item = bwTypeLogin \<or> bw_Type item = bwTypeSecureNote)"

definition normalizeURI :: "url_lib \<Rightarrow> string \<Rightarrow> string" where
  "normalizeURI L raw =
     (if raw = [] then []
      else case url_parse L raw of
        None \<Rightarrow> raw
      | Some u \<Rightarrow>
          if u_Host u = [] then raw
          else url_String L (u\<lparr>u_Path := [], u_RawPath := [], u_RawQuery := [], u_Fragment := []\<rparr>))"

definition MapLoginToEnvelope :: "url_lib \<Rightarrow> bitwarden_item \<Rightarrow> envelope" where
  "MapLoginToEnvelope L item =
     (let l = zero_login\<lparr>Notes := bw_Notes item\<rparr>;
          l = (case bw_Login item of
                 None \<Rightarrow> l
               | Some b \<Rightarrow> l\<lparr>Username := bw_Username b, Password := bw_Password b,
                   Site := (case URIs b of Some (u # _) \<Rightarrow> normalizeURI L (URI u) | _ \<Rightarrow> [])\<rparr>);
          name = (if Username l \<noteq> [] then bw_Name item @ '' ('' @ Username l @ '')'' else bw_Name item)
      in zero_envelope\<lparr>Name := name, Type := EntryTypeLogin,
           Meta := [(''username'', Username l), (''site'', Site l)], Payload := marshal_login l\<rparr>)"

definition MapNoteToEnvelope :: "bitwarden_item \<Rightarrow> envelope" where
  "MapNoteToEnvelope item =
     zero_envelope\<lparr>Name := bw_Name item, Type := EntryTypeNote,
       Payload := marshal_note \<lparr>note_Name = bw_Name item, note_Content = bw_Notes item\<rparr>\<rparr>"

text \<open>
  The user part of a URL and a bare question mark survive the normalization, which clears
  only the path, the query and the fragment.
\<close>

lemma normalizeURI_keeps:
  assumes "url_parse L raw = Some u" "u_Host u \<noteq> []" "raw \<noteq> []"
  shows "\<exists>v. normalizeURI L raw = url_String L v \<and> u_User v = u_User u \<and> u_ForceQuery v = u_ForceQuery u \<and>
    u_Scheme v = u_Scheme u \<and> u_Host v = u_Host u \<and> u_Path v = [] \<and> u_RawQuery v = [] \<and> u_Fragment v = []"
  using assms by (auto simp: normalizeURI_def intro!: exI [where x = "u\<lparr>u_Path := [], u_RawPath := [],
    u_RawQuery := [], u_Fragment := []\<rparr>"])

text \<open>The payload of an imported entry reads back as what the export had, as valid UTF-8.\<close>

lemma map_login_payload:
  "\<exists>l. unmarshal_login (Payload (MapLoginToEnvelope L item)) = (None, l) \<and> Notes l = utf8_clean (bw_Notes item) \<and>
     (\<forall>b. bw_Login item = Some b \<longrightarrow>
        Username l = utf8_clean (bw_Username b) \<and> Password l = utf8_clean (bw_Password b))"
  by (auto simp: MapLoginToEnvelope_def Let_def unmarshal_marshal_login clean_login_def zero_login_def
      split: option.splits)

lemma map_note_payload:
  "unmarshal_note (Payload (MapNoteToEnvelope item)) =
     (None, \<lparr>note_Name = utf8_clean (bw_Name item), note_Content = utf8_clean (bw_Notes item)\<rparr>)"
  by (simp add: MapNoteToEnvelope_def unmarshal_marshal_note clean_note_def)

end
