(* ===== verification/Import_Entries.thy ===== *)
theory Import_Entries
  imports Editor Bitwarden
begin

text \<open>
  \<^verbatim>\<open>internal/adapters/cli/client/import.go\<close>: the import of a Bitwarden export. The interface
  \<^verbatim>\<open>VaultImporter\<close> is the record \<open>importer\<close>. The goroutines that add the entries are a state
  machine: the channel is a queue, each worker is where it is in its loop, and a schedule says
  which worker goes next. A call of \<^verbatim>\<open>AddEntry\<close> is one step, and so are the updates of the
  atomic counters after it.
\<close>

record 'v importer =
  vi_AddEntry :: "envelope \<Rightarrow> 'v \<Rightarrow> go_error option \<times> 'v"
  vi_ListEntries :: "entry_type \<Rightarrow> 'v \<Rightarrow> (go_error + envelope list) \<times> 'v"
  vi_DeleteEntry :: "string \<Rightarrow> 'v \<Rightarrow> go_error option \<times> 'v"

text \<open>The vault of a command as an importer.\<close>

definition vault_importer :: "('n, 'g, 'f) command \<Rightarrow> ('n, 'g, 'f) client importer" where
  "vault_importer K = \<lparr>
     vi_AddEntry = (\<lambda>env c. case Vault_AddEntry (k_env K) (k_key K) env c of (r, _, c) \<Rightarrow> (r, c)),
     vi_ListEntries = Vault_ListEntries (k_env K),
     vi_DeleteEntry = Vault_DeleteEntry (k_env K)\<rparr>"

record import_result =
  Imported :: nat
  Duplicates :: nat
  Failed :: nat
  Unsupported :: nat
  Invalid :: nat
  FirstErr :: "go_error option"

definition zero_result :: import_result where
  "zero_result = \<lparr>Imported = 0, Duplicates = 0, Failed = 0, Unsupported = 0, Invalid = 0, FirstErr = None\<rparr>"

subsection \<open>What is imported\<close>

definition deduplicationKey :: "envelope \<Rightarrow> string" where
  "deduplicationKey e =
     (if Type e = EntryTypeLogin \<and> Meta e \<noteq> []
      then ''login:'' @ meta_get (Meta e) ''site'' @ '':'' @ meta_get (Meta e) ''username''
      else dec_int (Type e) @ '':'' @ Name e)"

definition item_envelope :: "url_lib \<Rightarrow> bitwarden_item \<Rightarrow> envelope" where
  "item_envelope L item =
     (if bw_Type item = bwTypeLogin then MapLoginToEnvelope L item else MapNoteToEnvelope item)"

text \<open>
  The first loop: the entries to import in the order of the items, and the counters of those
  that are not. \<open>seen\<close> are the keys that the map holds.
\<close>

fun plan_items :: "url_lib \<Rightarrow> bitwarden_item list \<Rightarrow> string list \<Rightarrow> import_result \<Rightarrow>
    envelope list \<times> import_result" where
  "plan_items L [] seen r = ([], r)"
| "plan_items L (item # items) seen r =
     (if \<not> isImportableItem item then
        plan_items L items seen
          (if trim_space (bw_Name item) = [] then r\<lparr>Invalid := Suc (Invalid r)\<rparr>
           else r\<lparr>Unsupported := Suc (Unsupported r)\<rparr>)
      else
        (let env = item_envelope L item;
             key = deduplicationKey env
         in if key \<in> set seen then plan_items L items seen (r\<lparr>Duplicates := Suc (Duplicates r)\<rparr>)
            else apfst ((#) env) (plan_items L items (key # seen) r)))"

subsection \<open>The workers\<close>

definition importWorkers :: nat where "importWorkers = 10"

text \<open>
  A worker waits for the channel, has an entry to add, has the result of that to count, has
  the progress to report, or has returned.
\<close>

datatype worker = Receiving | Adding envelope | Counting "go_error option" | Reporting nat | Returned

record 'v pool =
  po_vault :: 'v
  po_queue :: "envelope list"
  po_workers :: "worker list"
  po_imported :: nat
  po_failed :: nat
  po_done :: nat
  po_first :: "go_error option"
  po_progress :: "nat list"

definition start_pool :: "envelope list \<Rightarrow> 'v \<Rightarrow> 'v pool" where
  "start_pool toImport v = \<lparr>po_vault = v, po_queue = toImport,
     po_workers = replicate (min importWorkers (length toImport)) Receiving,
     po_imported = 0, po_failed = 0, po_done = 0, po_first = None, po_progress = []\<rparr>"

text \<open>
  The next step of a worker. When the context is cancelled as well as the channel ready, the
  \<^verbatim>\<open>select\<close> may take either; \<open>cancelled\<close> is its choice.
\<close>

definition worker_step :: "'v importer \<Rightarrow> nat \<times> bool \<Rightarrow> 'v pool \<Rightarrow> 'v pool" where
  "worker_step V = (\<lambda>(i, cancelled) st.
     (let go = (\<lambda>w st. st\<lparr>po_workers := (po_workers st)[i := w]\<rparr>) in
      if length (po_workers st) \<le> i then st
      else case po_workers st ! i of
        Receiving \<Rightarrow>
          if cancelled then go Returned st
          else (case po_queue st of
                  [] \<Rightarrow> go Returned st
                | env # q \<Rightarrow> go (Adding env) (st\<lparr>po_queue := q\<rparr>))
      | Adding env \<Rightarrow>
         (case vi_AddEntry V env (po_vault st) of (r, v) \<Rightarrow> go (Counting r) (st\<lparr>po_vault := v\<rparr>))
      | Counting r \<Rightarrow>
          let n = Suc (po_done st);
              st = (case r of
                      Some e \<Rightarrow> st\<lparr>po_failed := Suc (po_failed st),
                                   po_first := (case po_first st of None \<Rightarrow> Some e | Some e0 \<Rightarrow> Some e0)\<rparr>
                    | None \<Rightarrow> st\<lparr>po_imported := Suc (po_imported st)\<rparr>)
          in go (Reporting n) (st\<lparr>po_done := n\<rparr>)
      | Reporting n \<Rightarrow> go Receiving (st\<lparr>po_progress := po_progress st @ [n]\<rparr>)
      | Returned \<Rightarrow> st))"

definition run_pool :: "'v importer \<Rightarrow> (nat \<times> bool) list \<Rightarrow> 'v pool \<Rightarrow> 'v pool" where
  "run_pool V sched st = fold (worker_step V) sched st"

definition pool_finished :: "'v pool \<Rightarrow> bool" where
  "pool_finished st \<longleftrightarrow> list_all (\<lambda>w. w = Returned) (po_workers st)"

text \<open>
  The import under a schedule: \<open>None\<close> as long as a worker has not returned. The progress is
  what the callback got.
\<close>

definition processImport :: "'v importer \<Rightarrow> url_lib \<Rightarrow> bitwarden_item list \<Rightarrow> bool \<Rightarrow> (nat \<times> bool) list \<Rightarrow> 'v \<Rightarrow>
    (go_error + import_result) option \<times> nat list \<times> 'v" where
  "processImport V L items skipDedup sched v =
     (case (if skipDedup then (Inr [], v) else vi_ListEntries V EntryTypeUnspecified v) of
        (Inl e, v) \<Rightarrow> (Some (Inl (WrapErr ''failed to list existing entries'' e)), [], v)
      | (Inr existing, v) \<Rightarrow>
         (case plan_items L items (map deduplicationKey existing) zero_result of
            (toImport, result) \<Rightarrow>
              if toImport = [] then (Some (Inr result), [], v)
              else
                (let st = run_pool V sched (start_pool toImport v) in
                 (if pool_finished st
                  then Some (Inr (result\<lparr>Imported := po_imported st, Failed := po_failed st, FirstErr := po_first st\<rparr>))
                  else None,
                  po_progress st, po_vault st))))"

subsection \<open>Wiping\<close>

definition isNotFound :: "go_error \<Rightarrow> bool" where
  "isNotFound e \<longleftrightarrow> (case status_from_error e of Some (c, _) \<Rightarrow> c = NotFound | None \<Rightarrow> False)"

fun wipe_loop :: "'v importer \<Rightarrow> envelope list \<Rightarrow> nat \<Rightarrow> nat \<Rightarrow> 'v \<Rightarrow> (go_error + nat \<times> nat) \<times> 'v" where
  "wipe_loop V [] deleted skipped v = (Inr (deleted, skipped), v)"
| "wipe_loop V (e # es) deleted skipped v =
     (case vi_DeleteEntry V (ID e) v of
        (Some err, v) \<Rightarrow>
          if isNotFound err then wipe_loop V es deleted (Suc skipped) v
          else (Inl (WrapErr ''failed to delete entry during wipe'' err), v)
      | (None, v) \<Rightarrow> wipe_loop V es (Suc deleted) skipped v)"

definition wipeEntries :: "'v importer \<Rightarrow> io \<Rightarrow> 'v \<Rightarrow> go_error option \<times> io \<times> 'v" where
  "wipeEntries V s v =
     (case vi_ListEntries V EntryTypeUnspecified v of
        (Inl e, v) \<Rightarrow> (Some (WrapErr ''failed to list entries for wipe'' e), s, v)
      | (Inr entries, v) \<Rightarrow>
          if entries = [] then (None, s, v)
          else (case wipe_loop V entries 0 0 v of
                  (Inl e, v) \<Rightarrow> (Some e, s, v)
                | (Inr (deleted, skipped), v) \<Rightarrow>
                    (None, put (ErrText (''Wiped '' @ dec_nat deleted @ '' entries ('' @ dec_nat skipped @
                       '' not found, skipped)'' @ [newline])) s, v)))"

subsection \<open>The Bitwarden program\<close>

text \<open>
  \<^verbatim>\<open>bw\<close> is a parameter: whether it is in the path, and what a run with arguments and added
  environment variables does. The password comes from the terminal, if there is one.
\<close>

record 'b bw_cli =
  bw_found :: bool
  bw_stdin_tty :: bool
  bw_exec :: "string list \<Rightarrow> string list \<Rightarrow> 'b \<Rightarrow> (go_error option \<times> bytes) \<times> 'b"

definition bw_status :: "bytes \<Rightarrow> go_error option \<times> string" where
  "bw_status data = json_unmarshal [''status''] (\<lambda>n v s. decode_string v s) data []"

definition exportFromBitwardenCLI :: "'b bw_cli \<Rightarrow> io \<Rightarrow> 'b \<Rightarrow> (go_error + bytes) \<times> io \<times> 'b" where
  "exportFromBitwardenCLI B s b =
     (if \<not> bw_found B then (Inl (Errorf ''bitwarden CLI (bw) not found in PATH; install it or use --file''), s, b)
      else case bw_exec B [''status''] [] b of
        ((Some e, _), b) \<Rightarrow> (Inl (WrapErr ''failed to check Bitwarden status'' e), s, b)
      | ((None, statusOut), b) \<Rightarrow>
         (case bw_status statusOut of
            (Some _, _) \<Rightarrow> (Inl (Errorf ''failed to parse Bitwarden status''), s, b)
          | (None, status) \<Rightarrow>
              if status = ''unauthenticated''
              then (Inl (Errorf (''not logged into Bitwarden; run '' @ [CHR 0x27] @ ''bw login'' @ [CHR 0x27] @ '' first'')), s, b)
              else if \<not> bw_stdin_tty B
              then (Inl (Errorf ''stdin must be a terminal to read master password; use --file instead''), s, b)
              else (case ReadPassword ''Bitwarden master password: '' s of
                (Inl e, s) \<Rightarrow> (Inl (WrapErr ''failed to read password'' e), s, b)
              | (Inr pass, s) \<Rightarrow>
                 (case bw_exec B [''unlock'', ''--raw'', ''--passwordenv'', ''BW_MASTER_PASS''] [''BW_MASTER_PASS='' @ pass] b of
                    ((Some _, _), b) \<Rightarrow> (Inl (Errorf ''failed to unlock Bitwarden vault (wrong password?)''), s, b)
                  | ((None, sessionOut), b) \<Rightarrow>
                      let session = ''BW_SESSION='' @ trim_space sessionOut in
                      (case bw_exec B [''export'', ''--raw'', ''--format'', ''json''] [session] b of
                         ((Some _, _), b) \<Rightarrow> (Inl (Errorf ''failed to export Bitwarden vault''), s, b)
                       | ((None, exported), b) \<Rightarrow>
                           (Inr exported, s, snd (bw_exec B [''lock''] [session] b)))))))"

subsection \<open>The progress display\<close>

record import_model =
  im_total :: nat
  im_done :: bool
  im_frame :: string

datatype import_msg = ImportDoneMsg | KeyPressMsg string | TickMsg string | OtherMsg

text \<open>One message: the model after it, and whether the program quits. A tick draws the next frame.\<close>

definition import_Update :: "import_model \<Rightarrow> import_msg \<Rightarrow> import_model \<times> bool" where
  "import_Update m msg =
     (case msg of
        ImportDoneMsg \<Rightarrow> (m\<lparr>im_done := True\<rparr>, True)
      | KeyPressMsg key \<Rightarrow> if key = ''ctrl+c'' then (m\<lparr>im_done := True\<rparr>, True) else (m, False)
      | TickMsg frame \<Rightarrow> (m\<lparr>im_frame := frame\<rparr>, False)
      | OtherMsg \<Rightarrow> (m, False))"

definition import_View :: "import_model \<Rightarrow> nat \<Rightarrow> string" where
  "import_View m progress =
     (if im_done m then []
      else ''  '' @ im_frame m @ '' Importing '' @ dec_nat progress @ ''/'' @ dec_nat (im_total m))"

text \<open>
  What happens while the display runs: a worker of the import makes a step, the goroutine
  assigns the result that \<^verbatim>\<open>processImport\<close> has returned, or the display handles a message. The
  goroutine assigns only once the import has returned, and its own message is sent only after
  the assignment; before that these two events do nothing.
\<close>

datatype spinner_event = Work "nat \<times> bool" | Assign | Message import_msg

text \<open>
  The run of the display up to the message it quits at: the steps the workers have made by
  then, what has been assigned (if anything), and whether it has quit at all. \<open>returned\<close> is what
  the import returns after the given steps, if it has returned.
\<close>

fun run_display :: "((nat \<times> bool) list \<Rightarrow> 'r option) \<Rightarrow> import_model \<Rightarrow> (nat \<times> bool) list \<Rightarrow> 'r option \<Rightarrow>
    spinner_event list \<Rightarrow> (nat \<times> bool) list \<times> 'r option \<times> bool" where
  "run_display returned m sched assigned [] = (sched, assigned, False)"
| "run_display returned m sched assigned (Work s # evs) = run_display returned m (sched @ [s]) assigned evs"
| "run_display returned m sched assigned (Assign # evs) =
     run_display returned m sched (if assigned = None then returned sched else assigned) evs"
| "run_display returned m sched assigned (Message msg # evs) =
     (if msg = ImportDoneMsg \<and> assigned = None then run_display returned m sched assigned evs
      else case import_Update m msg of
             (m, quit) \<Rightarrow> if quit then (sched, assigned, True) else run_display returned m sched assigned evs)"

definition new_import_model :: "nat \<Rightarrow> import_model" where
  "new_import_model n = \<lparr>im_total = n, im_done = False, im_frame = ''|''\<rparr>"

text \<open>
  The result is the variable that the goroutine assigns: it is nil as long as the goroutine has
  not, even when the display ended without an error. \<open>None\<close> stands for a display that has not
  ended, by its own error \<open>runErr\<close> or by a message.
\<close>

definition runImportWithSpinner :: "'v importer \<Rightarrow> url_lib \<Rightarrow> bitwarden_item list \<Rightarrow> bool \<Rightarrow>
    go_error option \<Rightarrow> spinner_event list \<Rightarrow> 'v \<Rightarrow> (go_error + import_result option) option \<times> 'v" where
  "runImportWithSpinner V L items skipDedup runErr evs v =
     (let total = length (filter isImportableItem items) in
      case run_display (\<lambda>sched. fst (processImport V L items skipDedup sched v))
             (new_import_model total) [] None evs of
        (sched, assigned, quit) \<Rightarrow>
          (case runErr of
             Some e \<Rightarrow> Some (Inl e)
           | None \<Rightarrow>
               if \<not> quit then None
               else Some (case assigned of
                            None \<Rightarrow> Inr None
                          | Some (Inl e) \<Rightarrow> Inl e
                          | Some (Inr res) \<Rightarrow> Inr (Some res)),
           snd (snd (processImport V L items skipDedup sched v))))"

subsection \<open>import bitwarden\<close>

text \<open>
  What the terminal and the schedule bring to a run: the schedule of the workers when there is
  no display, and the events of the display when there is one.
\<close>

record import_terminal =
  ir_stderr_tty :: bool
  ir_sched :: "(nat \<times> bool) list"
  ir_run_err :: "go_error option"
  ir_events :: "spinner_event list"

text \<open>A run ends, or still waits for its workers or the display, or dereferences the nil result.\<close>

datatype 'a ending = Ended 'a | Waiting | NilDereference

definition import_summary :: "import_result \<Rightarrow> string" where
  "import_summary r =
     ''Import complete: '' @ dec_nat (Imported r) @ '' imported, '' @ dec_nat (Duplicates r) @
     '' skipped (duplicate), '' @ dec_nat (Failed r) @ '' failed, '' @ dec_nat (Unsupported r) @
     '' skipped (unsupported type), '' @ dec_nat (Invalid r) @ '' skipped (invalid)'' @
     (case FirstErr r of
        Some e \<Rightarrow> if Failed r > 0 then newline # ''  first error: '' @ error_string e else []
      | None \<Rightarrow> [])"

text \<open>The end of the command, with the counters read from the result.\<close>

definition import_report :: "go_error + import_result \<Rightarrow> io \<Rightarrow> (go_error option \<times> io) ending" where
  "import_report r s =
     (case r of
        Inl e \<Rightarrow> Ended (Some e, put (ErrorShown e) s)
      | Inr res \<Rightarrow> Ended (None, put (SuccessShown (import_summary res)) s))"

text \<open>The import proper, once the client is connected.\<close>

definition import_items :: "'v importer \<Rightarrow> url_lib \<Rightarrow> import_terminal \<Rightarrow> bool \<Rightarrow> bitwarden_item list \<Rightarrow> io \<Rightarrow> 'v \<Rightarrow>
    (go_error option \<times> io) ending \<times> 'v" where
  "import_items V L R force items s v =
     (case (if force then wipeEntries V s v else (None, s, v)) of
        (Some e, s, v) \<Rightarrow> (Ended (Some e, put (ErrorShown e) s), v)
      | (None, s, v) \<Rightarrow>
          if ir_stderr_tty R
          then (case runImportWithSpinner V L items force (ir_run_err R) (ir_events R) v of
                  (None, v) \<Rightarrow> (Waiting, v)
                | (Some (Inl e), v) \<Rightarrow> (import_report (Inl e) s, v)
                | (Some (Inr None), v) \<Rightarrow> (NilDereference, v)
                | (Some (Inr (Some res)), v) \<Rightarrow> (import_report (Inr res) s, v))
          else (case processImport V L items force (ir_sched R) v of
                  (None, _, v) \<Rightarrow> (Waiting, v)
                | (Some r, _, v) \<Rightarrow> (import_report r s, v)))"

text \<open>The export is read and checked before anything connects.\<close>

definition read_export :: "go_error + bytes \<Rightarrow> io \<Rightarrow> (go_error + bitwarden_item list) \<times> io" where
  "read_export got s =
     (let fail = (\<lambda>e. (Inl e, put (ErrorShown e) s)) in
      case got of
        Inl e \<Rightarrow> fail e
      | Inr data \<Rightarrow>
         (case unmarshal_export data of
            (Some e, _) \<Rightarrow> (Inl e, put (ErrorShown (Errorf ''invalid Bitwarden JSON'')) s)
          | (None, export) \<Rightarrow>
              if Encrypted export then fail (Errorf ''encrypted export not supported; re-export without encryption'')
              else (case Items export of
                      None \<Rightarrow> fail (Errorf ''invalid Bitwarden export format'')
                    | Some items \<Rightarrow> (Inr items, s))))"

definition runImportBitwarden :: "('n, 'g, 'f) command \<Rightarrow> url_lib \<Rightarrow> 'b bw_cli \<Rightarrow> import_terminal \<Rightarrow> string \<Rightarrow> bool \<Rightarrow>
    io \<Rightarrow> 'b \<Rightarrow> ('n, 'g, 'f) client \<Rightarrow> (go_error option \<times> io) ending \<times> 'b \<times> ('n, 'g, 'f) client" where
  "runImportBitwarden K L B R filePath force s b c =
     (case (if filePath \<noteq> []
            then (case e_read_file (k_env K) filePath (cl_files c) of
                    Inl e \<Rightarrow> ((Inl e, put (ErrorShown (WrapErr ''cannot read file'' e)) s), b)
                  | Inr data \<Rightarrow> (read_export (Inr data) s, b))
            else (case exportFromBitwardenCLI B s b of (r, s, b) \<Rightarrow> (read_export r s, b))) of
        ((Inl e, s), b) \<Rightarrow> (Ended (Some e, s), b, c)
      | ((Inr items, s), b) \<Rightarrow>
         (case connect K c of
            (Some e, ns, c) \<Rightarrow> (Ended (Some e, put (ErrorShown e) (puts (map Notified ns) s)), b, c)
          | (None, ns, c) \<Rightarrow>
             (case import_items (vault_importer K) L R force items (puts (map Notified ns) s) c of
                (Ended (r, s), c) \<Rightarrow>
                  (case Client_Close (k_env K) c of
                     (None, c) \<Rightarrow> (Ended (r, s), b, c)
                   | (Some e, c) \<Rightarrow> (Ended (r, put (ErrorShown e) s), b, c))
              | (Waiting, c) \<Rightarrow> (Waiting, b, c)
              | (NilDereference, c) \<Rightarrow> (NilDereference, b, c))))"

subsection \<open>Which entries are imported\<close>

text \<open>
  The item at index \<open>i\<close> is new: it can be imported, and neither \<open>seen\<close> nor an importable item
  before it has its key.
\<close>

definition item_key :: "url_lib \<Rightarrow> bitwarden_item \<Rightarrow> string" where
  "item_key L item = deduplicationKey (item_envelope L item)"

definition new_item :: "url_lib \<Rightarrow> string list \<Rightarrow> bitwarden_item list \<Rightarrow> nat \<Rightarrow> bool" where
  "new_item L seen items i \<longleftrightarrow> i < length items \<and> isImportableItem (items ! i) \<and>
     item_key L (items ! i) \<notin> set seen \<and>
     (\<forall>j<i. isImportableItem (items ! j) \<longrightarrow> item_key L (items ! j) \<noteq> item_key L (items ! i))"

text \<open>The other importable items, and those of the two kinds that cannot be imported.\<close>

definition duplicate_item :: "url_lib \<Rightarrow> string list \<Rightarrow> bitwarden_item list \<Rightarrow> nat \<Rightarrow> bool" where
  "duplicate_item L seen items i \<longleftrightarrow>
     i < length items \<and> isImportableItem (items ! i) \<and> \<not> new_item L seen items i"

definition nameless_item :: "bitwarden_item \<Rightarrow> bool" where
  "nameless_item item \<longleftrightarrow> trim_space (bw_Name item) = []"

definition other_type_item :: "bitwarden_item \<Rightarrow> bool" where
  "other_type_item item \<longleftrightarrow>
     \<not> nameless_item item \<and> bw_Type item \<noteq> bwTypeLogin \<and> bw_Type item \<noteq> bwTypeSecureNote"

lemma new_item_0:
  "new_item L seen (x # xs) 0 \<longleftrightarrow> isImportableItem x \<and> item_key L x \<notin> set seen"
  by (simp add: new_item_def)

lemma new_item_Suc:
  "new_item L seen (x # xs) (Suc i) \<longleftrightarrow>
     new_item L (if isImportableItem x then item_key L x # seen else seen) xs i"
  by (auto simp: new_item_def All_less_Suc2)

lemma new_item_seen: "k \<in> set seen \<Longrightarrow> new_item L (k # seen) xs = new_item L seen xs"
  by (auto simp: new_item_def fun_eq_iff)

lemmas new_item_Cons = new_item_0 new_item_Suc

lemma filter_upt_Suc:
  "filter P [0..<Suc n] = (if P 0 then [0] else []) @ map Suc (filter (\<lambda>i. P (Suc i)) [0..<n])"
  by (simp add: upt_conv_Cons map_Suc_upt [symmetric] filter_map o_def del: upt_Suc)

lemma plan_items_exact:
  "plan_items L items seen r = (es, r') \<Longrightarrow>
     es = map (\<lambda>i. item_envelope L (items ! i)) (filter (new_item L seen items) [0..<length items]) \<and>
     Duplicates r' = Duplicates r + length (filter (duplicate_item L seen items) [0..<length items]) \<and>
     Unsupported r' = Unsupported r + length (filter other_type_item items) \<and>
     Invalid r' = Invalid r + length (filter nameless_item items) \<and>
     Imported r' = Imported r \<and> Failed r' = Failed r \<and> FirstErr r' = FirstErr r"
proof (induction items arbitrary: seen r es)
  case Nil
  then show ?case by simp
next
  case (Cons x xs)
  have kinds: "isImportableItem x \<longleftrightarrow> \<not> nameless_item x \<and> \<not> other_type_item x"
    by (auto simp: isImportableItem_def nameless_item_def other_type_item_def)
  consider (no) "\<not> isImportableItem x" | (dup) "isImportableItem x" "item_key L x \<in> set seen"
    | (new) "isImportableItem x" "item_key L x \<notin> set seen" by blast
  then show ?case
  proof cases
    case no
    with Cons.prems obtain r1 where rest: "plan_items L xs seen r1 = (es, r')"
      and r1: "r1 = (if nameless_item x then r\<lparr>Invalid := Suc (Invalid r)\<rparr> else r\<lparr>Unsupported := Suc (Unsupported r)\<rparr>)"
      by (auto simp: nameless_item_def)
    from Cons.IH [OF rest] no kinds show ?thesis
      by (auto simp: r1 filter_upt_Suc new_item_Cons duplicate_item_def other_type_item_def o_def
          simp del: upt_Suc)
  next
    case dup
    with Cons.prems have rest: "plan_items L xs seen (r\<lparr>Duplicates := Suc (Duplicates r)\<rparr>) = (es, r')"
      by (simp add: Let_def item_key_def)
    from Cons.IH [OF rest] dup kinds show ?thesis
      by (auto simp: filter_upt_Suc new_item_Cons duplicate_item_def new_item_seen o_def simp del: upt_Suc)
  next
    case new
    with Cons.prems obtain es1 where rest: "plan_items L xs (item_key L x # seen) r = (es1, r')"
      and es: "es = item_envelope L x # es1"
      by (auto simp: Let_def apfst_def map_prod_def item_key_def split: prod.splits)
    from Cons.IH [OF rest] new kinds show ?thesis
      by (auto simp: es filter_upt_Suc new_item_Cons duplicate_item_def o_def simp del: upt_Suc)
  qed
qed

text \<open>The items are new, duplicates, of another type or nameless.\<close>

lemma items_partition:
  "length (filter (new_item L seen items) [0..<length items]) +
   length (filter (duplicate_item L seen items) [0..<length items]) +
   length (filter other_type_item items) + length (filter nameless_item items) = length items"
proof (induction items arbitrary: seen)
  case Nil
  then show ?case by simp
next
  case (Cons x xs)
  have kinds: "isImportableItem x \<longleftrightarrow> \<not> nameless_item x \<and> \<not> other_type_item x"
    "other_type_item x \<Longrightarrow> \<not> nameless_item x"
    by (auto simp: isImportableItem_def nameless_item_def other_type_item_def)
  from Cons.IH [of "if isImportableItem x then item_key L x # seen else seen"] kinds show ?case
    by (auto simp: filter_upt_Suc new_item_Cons duplicate_item_def o_def simp del: upt_Suc)
qed

text \<open>What an item is imported as: the entry, its key, and its payload as it reads back.\<close>

definition first_uri :: "bitwarden_login \<Rightarrow> string" where
  "first_uri b = (case URIs b of Some (u # _) \<Rightarrow> URI u | _ \<Rightarrow> [])"

definition imported_login :: "url_lib \<Rightarrow> bitwarden_item \<Rightarrow> login" where
  "imported_login L item =
     (case bw_Login item of
        None \<Rightarrow> \<lparr>Site = [], Username = [], Password = [], Notes = bw_Notes item\<rparr>
      | Some b \<Rightarrow> \<lparr>Site = normalizeURI L (first_uri b), Username = bw_Username b,
                   Password = bw_Password b, Notes = bw_Notes item\<rparr>)"

definition imported_as :: "url_lib \<Rightarrow> bitwarden_item \<Rightarrow> envelope \<Rightarrow> bool" where
  "imported_as L item e \<longleftrightarrow>
     (if bw_Type item = bwTypeLogin
      then Type e = EntryTypeLogin \<and>
        (let l = imported_login L item in
         Name e = (if Username l = [] then bw_Name item else bw_Name item @ '' ('' @ Username l @ '')'') \<and>
         Meta e = [(''username'', Username l), (''site'', Site l)] \<and>
         deduplicationKey e = ''login:'' @ Site l @ '':'' @ Username l \<and>
         unmarshal_login (Payload e) = (None, clean_login l))
      else Type e = EntryTypeNote \<and> Name e = bw_Name item \<and> Meta e = [] \<and>
        deduplicationKey e = ''3:'' @ bw_Name item \<and>
        unmarshal_note (Payload e) =
          (None, \<lparr>note_Name = utf8_clean (bw_Name item), note_Content = utf8_clean (bw_Notes item)\<rparr>))"

lemma item_envelope_login: "bw_Type item = bwTypeLogin \<Longrightarrow> imported_as L item (item_envelope L item)"
  by (auto simp: imported_as_def item_envelope_def MapLoginToEnvelope_def imported_login_def first_uri_def
      normalizeURI_def zero_login_def zero_envelope_def Let_def unmarshal_marshal_login deduplicationKey_def
      meta_get_def split: option.splits list.splits)

lemma item_envelope_note:
  assumes other: "bw_Type item \<noteq> bwTypeLogin"
  shows "imported_as L item (item_envelope L item)"
proof -
  have "dec_int EntryTypeNote = ''3''" by code_simp
  moreover have "EntryTypeNote \<noteq> EntryTypeLogin" by code_simp
  ultimately show ?thesis using other map_note_payload [of item]
    by (simp add: imported_as_def item_envelope_def deduplicationKey_def)
      (simp add: MapNoteToEnvelope_def zero_envelope_def)
qed

lemma item_envelope_imported_as: "imported_as L item (item_envelope L item)"
  using item_envelope_login item_envelope_note by blast

subsection \<open>The workers under every schedule\<close>

text \<open>The entries added one after the other: the results of the calls and the vault.\<close>

fun add_all :: "'v importer \<Rightarrow> envelope list \<Rightarrow> 'v \<Rightarrow> go_error option list \<times> 'v" where
  "add_all V [] v = ([], v)"
| "add_all V (e # es) v =
     (case vi_AddEntry V e v of (r, v) \<Rightarrow> apfst ((#) r) (add_all V es v))"

text \<open>A step of some worker that has not returned; \<open>cancel\<close> says whether the context may be cancelled.\<close>

inductive pool_step :: "'v importer \<Rightarrow> bool \<Rightarrow> 'v pool \<Rightarrow> 'v pool \<Rightarrow> bool" for V :: "'v importer" and cancel :: bool
where
  pool_stepI: "\<lbrakk>i < length (po_workers st); po_workers st ! i \<noteq> Returned; c \<longrightarrow> cancel\<rbrakk> \<Longrightarrow>
     pool_step V cancel st (worker_step V (i, c) st)"

fun worker_adds :: "worker \<Rightarrow> envelope multiset" where
  "worker_adds (Adding env) = {#env#}"
| "worker_adds _ = {#}"

fun worker_counts :: "worker \<Rightarrow> go_error option multiset" where
  "worker_counts (Counting r) = {#r#}"
| "worker_counts _ = {#}"

fun worker_work :: "worker \<Rightarrow> nat" where
  "worker_work Receiving = 1"
| "worker_work (Adding env) = 4"
| "worker_work (Counting r) = 3"
| "worker_work (Reporting n) = 2"
| "worker_work Returned = 0"

definition total_over :: "(worker \<Rightarrow> 'm::comm_monoid_add) \<Rightarrow> worker list \<Rightarrow> 'm" where
  "total_over f ws = sum_list (map f ws)"

lemma total_over_update:
  "i < length ws \<Longrightarrow> total_over f (ws[i := w]) + f (ws ! i) = total_over f ws + f w"
proof (induction ws arbitrary: i)
  case (Cons x ws)
  then show ?case by (cases i) (auto simp: total_over_def algebra_simps)
qed simp

lemma total_over_zero: "list_all (\<lambda>w. f w = 0) ws \<Longrightarrow> total_over f ws = 0"
  by (induction ws) (auto simp: total_over_def)

lemma total_over_returned:
  "list_all (\<lambda>w. w = Returned) ws \<Longrightarrow> f Returned = 0 \<Longrightarrow> total_over f ws = 0"
  by (induction ws) (auto simp: total_over_def)

lemma add_all_snoc:
  "add_all V (es @ [e]) v =
     (case add_all V es v of (rs, v) \<Rightarrow> case vi_AddEntry V e v of (r, v) \<Rightarrow> (rs @ [r], v))"
  by (induction es arbitrary: v) (auto split: prod.splits)

definition pool_work :: "'v pool \<Rightarrow> nat" where
  "pool_work st = 4 * length (po_queue st) + total_over worker_work (po_workers st)"

text \<open>What a step does, by the place of the worker.\<close>

lemma worker_step_cases [consumes 2, case_names leave take_entry add count report]:
  assumes "i < length (po_workers st)" and "po_workers st ! i \<noteq> Returned"
  obtains
    (leave) "po_workers st ! i = Receiving" "c \<or> po_queue st = []"
      "worker_step V (i, c) st = st\<lparr>po_workers := (po_workers st)[i := Returned]\<rparr>"
  | (take_entry) env q where "po_workers st ! i = Receiving" "po_queue st = env # q" "\<not> c"
      "worker_step V (i, c) st = st\<lparr>po_queue := q, po_workers := (po_workers st)[i := Adding env]\<rparr>"
  | (add) env r v where "po_workers st ! i = Adding env" "vi_AddEntry V env (po_vault st) = (r, v)"
      "worker_step V (i, c) st = st\<lparr>po_vault := v, po_workers := (po_workers st)[i := Counting r]\<rparr>"
  | (count) r where "po_workers st ! i = Counting r"
      "worker_step V (i, c) st =
         st\<lparr>po_workers := (po_workers st)[i := Reporting (Suc (po_done st))],
            po_imported := po_imported st + (if r = None then 1 else 0),
            po_failed := po_failed st + (if r = None then 0 else 1),
            po_done := Suc (po_done st),
            po_first := (if po_first st = None then r else po_first st)\<rparr>"
  | (report) n where "po_workers st ! i = Reporting n"
      "worker_step V (i, c) st =
         st\<lparr>po_workers := (po_workers st)[i := Receiving], po_progress := po_progress st @ [n]\<rparr>"
proof (cases "po_workers st ! i")
  case Receiving
  with assms show thesis
    by (cases "po_queue st"; cases c) (auto simp: worker_step_def intro: leave take_entry)
next
  case (Adding env)
  with assms add show thesis by (cases "vi_AddEntry V env (po_vault st)") (auto simp: worker_step_def)
next
  case (Counting r)
  with assms show thesis
    by (cases r; cases "po_first st") (auto simp: worker_step_def Let_def intro!: count)
next
  case (Reporting n)
  with assms report show thesis by (auto simp: worker_step_def)
next
  case Returned
  with assms show thesis by simp
qed

lemma pool_step_work: "pool_step V cancel st st' \<Longrightarrow> pool_work st' < pool_work st"
proof (induction rule: pool_step.induct)
  case (pool_stepI i st c)
  note upd = total_over_update [OF pool_stepI(1), of worker_work]
  from pool_stepI(1,2) show ?case
  proof (cases rule: worker_step_cases [where c = c and V = V])
    case leave
    with upd [of Returned] show ?thesis by (simp add: pool_work_def)
  next
    case (take_entry env q)
    with upd [of "Adding env"] show ?thesis by (simp add: pool_work_def)
  next
    case (add env r v)
    with upd [of "Counting r"] show ?thesis by (simp add: pool_work_def)
  next
    case (count r)
    with upd [of "Reporting (Suc (po_done st))"] show ?thesis by (simp add: pool_work_def)
  next
    case (report n)
    with upd [of Receiving] show ?thesis by (simp add: pool_work_def)
  qed
qed

text \<open>
  What holds at every point: the entries already added in some order, those being added and
  those in the queue are the entries to import; the vault is what adding in that order gives;
  the counters and the results yet to be counted are the results of those calls.
\<close>

definition pool_inv :: "'v importer \<Rightarrow> bool \<Rightarrow> envelope list \<Rightarrow> 'v \<Rightarrow> 'v pool \<Rightarrow> bool" where
  "pool_inv V cancel entries v st \<longleftrightarrow>
     (\<exists>es rs counted. add_all V es v = (rs, po_vault st) \<and>
        mset es + total_over worker_adds (po_workers st) + mset (po_queue st) = mset entries \<and>
        counted + total_over worker_counts (po_workers st) = mset rs \<and>
        po_imported st = count counted None \<and> po_failed st = size counted - count counted None \<and>
        po_done st = size counted \<and>
        (po_first st = None \<longrightarrow> set_mset counted \<subseteq> {None}) \<and>
        (po_first st \<noteq> None \<longrightarrow> po_first st \<in># counted)) \<and>
     (\<not> cancel \<longrightarrow> Returned \<in> set (po_workers st) \<longrightarrow> po_queue st = [])"

lemma pool_inv_start: "pool_inv V cancel entries v (start_pool entries v)"
proof -
  have "total_over worker_adds (po_workers (start_pool entries v)) = {#}"
    "total_over worker_counts (po_workers (start_pool entries v)) = {#}"
    by (rule total_over_zero, simp add: start_pool_def list_all_iff)+
  then show ?thesis
    unfolding pool_inv_def
    by (intro conjI exI [of _ "[]"] exI [of _ "{#}"]) (auto simp: start_pool_def)
qed

lemma pool_inv_step:
  assumes step: "pool_step V cancel st st'" and inv: "pool_inv V cancel entries v st"
  shows "pool_inv V cancel entries v st'"
  using step
proof cases
  case (pool_stepI i c)
  note adds = total_over_update [OF pool_stepI(2), of worker_adds, symmetric]
    and counts = total_over_update [OF pool_stepI(2), of worker_counts, symmetric]
  from inv obtain es rs counted where add_all: "add_all V es v = (rs, po_vault st)"
    and all: "mset es + total_over worker_adds (po_workers st) + mset (po_queue st) = mset entries"
    and results: "counted + total_over worker_counts (po_workers st) = mset rs"
    and counters: "po_imported st = count counted None" "po_failed st = size counted - count counted None"
      "po_done st = size counted"
    and first: "po_first st = None \<longrightarrow> set_mset counted \<subseteq> {None}"
      "po_first st \<noteq> None \<longrightarrow> po_first st \<in># counted"
    and left: "\<not> cancel \<longrightarrow> Returned \<in> set (po_workers st) \<longrightarrow> po_queue st = []"
    unfolding pool_inv_def by (elim conjE exE)
  have kept: "Returned \<in> set ((po_workers st)[i := w]) \<Longrightarrow> w \<noteq> Returned \<Longrightarrow> Returned \<in> set (po_workers st)" for w
    using set_update_subset_insert [of "po_workers st" i w] by auto
  from pool_stepI(2,3) show ?thesis
  proof (cases rule: worker_step_cases [where c = c and V = V])
    case leave
    with adds [of Returned] counts [of Returned] add_all all results counters first left pool_stepI show ?thesis
      unfolding pool_inv_def by (intro conjI exI [of _ es] exI [of _ rs] exI [of _ counted]) auto
  next
    case (take_entry env q)
    with adds [of "Adding env", symmetric] counts [of "Adding env"] add_all all results counters first left kept [of "Adding env"]
      pool_stepI show ?thesis
      unfolding pool_inv_def by (intro conjI exI [of _ es] exI [of _ rs] exI [of _ counted]) auto
  next
    case (add env r v')
    with adds [of "Counting r"] counts [of "Counting r", symmetric] add_all all results counters first left kept [of "Counting r"]
      pool_stepI show ?thesis
      unfolding pool_inv_def
      by (intro conjI exI [of _ "es @ [env]"] exI [of _ "rs @ [r]"] exI [of _ counted]) (auto simp: add_all_snoc)
  next
    case (count r)
    let ?w = "Reporting (Suc (po_done st))"
    have le: "count counted None \<le> size counted" by (rule count_le_size)
    from count adds [of ?w] counts [of ?w] add_all all results counters first left kept [of ?w] le pool_stepI
    show ?thesis
      unfolding pool_inv_def
      by (intro conjI exI [of _ es] exI [of _ rs] exI [of _ "add_mset r counted"]) (auto simp: Suc_diff_le)
  next
    case (report n)
    with adds [of Receiving] counts [of Receiving] add_all all results counters first left kept [of Receiving]
      pool_stepI show ?thesis
      unfolding pool_inv_def by (intro conjI exI [of _ es] exI [of _ rs] exI [of _ counted]) auto
  qed
qed

lemma pool_step_length: "pool_step V cancel st st' \<Longrightarrow> length (po_workers st') = length (po_workers st)"
  by (induction rule: pool_step.induct)
     (auto simp: worker_step_def Let_def split: worker.splits list.splits prod.splits option.splits)

lemma pool_stuck_iff: "(\<forall>st'. \<not> pool_step V cancel st st') \<longleftrightarrow> pool_finished st"
proof
  assume stuck: "\<forall>st'. \<not> pool_step V cancel st st'"
  show "pool_finished st" unfolding pool_finished_def list_all_length
  proof (intro allI impI)
    fix i assume "i < length (po_workers st)"
    with stuck pool_stepI [of i st False cancel V] show "po_workers st ! i = Returned" by blast
  qed
next
  assume "pool_finished st"
  then show "\<forall>st'. \<not> pool_step V cancel st st'"
    by (auto simp: pool_finished_def list_all_length elim!: pool_step.cases)
qed

lemma pool_no_infinite_run: "\<not> (\<forall>n. pool_step V cancel (f n) (f (Suc n)))"
proof
  assume "\<forall>n. pool_step V cancel (f n) (f (Suc n))"
  then have step: "pool_work (f (Suc n)) < pool_work (f n)" for n by (blast intro: pool_step_work)
  have "pool_work (f n) + n \<le> pool_work (f 0)" for n
  proof (induction n)
    case (Suc n)
    with step [of n] show ?case by simp
  qed simp
  from this [of "Suc (pool_work (f 0))"] show False by simp
qed

text \<open>A schedule makes steps; picking a worker that has returned does nothing.\<close>

lemma worker_step_idle:
  "\<not> (i < length (po_workers st) \<and> po_workers st ! i \<noteq> Returned) \<Longrightarrow> worker_step V (i, c) st = st"
  by (auto simp: worker_step_def)

lemma run_pool_steps:
  "(\<forall>i. (i, True) \<notin> set sched) \<or> cancel \<Longrightarrow> (pool_step V cancel)\<^sup>*\<^sup>* st (run_pool V sched st)"
proof (induction sched arbitrary: st)
  case Nil
  then show ?case by (simp add: run_pool_def)
next
  case (Cons p sched)
  obtain i c where p: "p = (i, c)" by (cases p)
  from Cons.prems have "(pool_step V cancel)\<^sup>*\<^sup>* (worker_step V (i, c) st) (run_pool V (p # sched) st)"
    using Cons.IH [of "worker_step V (i, c) st"] by (auto simp: run_pool_def p)
  moreover have "worker_step V (i, c) st = st \<or> pool_step V cancel st (worker_step V (i, c) st)"
  proof (cases "i < length (po_workers st) \<and> po_workers st ! i \<noteq> Returned")
    case True
    with Cons.prems pool_stepI [of i st c cancel V] show ?thesis by (auto simp: p)
  next
    case False
    with worker_step_idle [of i st V c] show ?thesis by blast
  qed
  ultimately show ?case by (auto intro: converse_rtranclp_into_rtranclp)
qed

lemma run_pool_completes: "\<exists>more. pool_finished (run_pool V more st)"
proof (induction "pool_work st" arbitrary: st rule: less_induct)
  case less
  show ?case
  proof (cases "pool_finished st")
    case True
    then have "pool_finished (run_pool V [] st)" by (simp add: run_pool_def)
    then show ?thesis ..
  next
    case False
    then obtain i where i: "i < length (po_workers st)" "po_workers st ! i \<noteq> Returned"
      by (auto simp: pool_finished_def list_all_length)
    then have "pool_step V False st (worker_step V (i, False) st)" by (intro pool_stepI) auto
    from less [OF pool_step_work [OF this]] obtain more where
      "pool_finished (run_pool V more (worker_step V (i, False) st))" ..
    then have "pool_finished (run_pool V ((i, False) # more) st)" by (simp add: run_pool_def)
    then show ?thesis ..
  qed
qed

lemma pool_reach:
  assumes "(pool_step V cancel)\<^sup>*\<^sup>* (start_pool entries v) st"
  shows "pool_inv V cancel entries v st \<and> length (po_workers st) = min importWorkers (length entries)"
  using assms
proof (induction rule: rtranclp_induct)
  case base
  then show ?case by (simp add: pool_inv_start) (simp add: start_pool_def)
next
  case (step y z)
  then show ?case using pool_inv_step [OF step(2)] pool_step_length [OF step(2)] by simp
qed

text \<open>What the workers have done once they all returned: the same as adding in some order.\<close>

lemma pool_result:
  assumes reach: "(pool_step V False)\<^sup>*\<^sup>* (start_pool entries v) st" and fin: "pool_finished st"
  obtains es rs where "mset es = mset entries" "add_all V es v = (rs, po_vault st)"
    "po_imported st = count_list rs None" "po_imported st + po_failed st = length entries"
    "po_first st = None \<longleftrightarrow> set rs \<subseteq> {None}" "po_first st \<noteq> None \<longrightarrow> po_first st \<in> set rs"
proof -
  from pool_reach [OF reach] have inv: "pool_inv V False entries v st"
    and len: "length (po_workers st) = min importWorkers (length entries)" by simp_all
  have adds: "total_over worker_adds (po_workers st) = {#}" and counts: "total_over worker_counts (po_workers st) = {#}"
    using fin by (simp_all add: pool_finished_def total_over_returned)
  have q: "po_queue st = []"
  proof (cases "entries = []")
    case True
    with inv show ?thesis by (auto simp: pool_inv_def)
  next
    case False
    with len have "0 < length (po_workers st)" by (simp add: importWorkers_def)
    then have "po_workers st \<noteq> []" by simp
    with fin have "Returned \<in> set (po_workers st)"
      by (cases "po_workers st") (auto simp: pool_finished_def)
    with inv show ?thesis by (auto simp: pool_inv_def)
  qed
  from inv obtain es rs counted where add_all: "add_all V es v = (rs, po_vault st)"
    and all: "mset es = mset entries" and results: "counted = mset rs"
    and counters: "po_imported st = count counted None" "po_failed st = size counted - count counted None"
    and first: "po_first st = None \<longrightarrow> set_mset counted \<subseteq> {None}"
      "po_first st \<noteq> None \<longrightarrow> po_first st \<in># counted"
    unfolding pool_inv_def adds counts q by auto
  have "length rs = length es" using add_all
    by (induction es arbitrary: v rs) (auto simp: apfst_def map_prod_def split: prod.splits)
  with all results have size: "size counted = length entries" using mset_eq_length by fastforce
  have "po_imported st = count_list rs None" using counters(1) results by (simp add: count_mset)
  moreover have "po_imported st + po_failed st = length entries"
    using counters count_le_size [of counted None] size by simp
  moreover have "po_first st = None \<longleftrightarrow> set rs \<subseteq> {None}" "po_first st \<noteq> None \<longrightarrow> po_first st \<in> set rs"
    using first results by (cases "po_first st"; force)+
  ultimately show thesis by (rule that [OF all add_all])
qed

subsection \<open>The import as a whole\<close>

lemma processImport_cases [consumes 1, case_names none_new added]:
  assumes "processImport V L items skipDedup sched v = (Some (Inr r), progress, v')"
  obtains (none_new) existing v1 r0 where "(if skipDedup then (Inr [], v) else vi_ListEntries V EntryTypeUnspecified v) = (Inr existing, v1)"
      "plan_items L items (map deduplicationKey existing) zero_result = ([], r0)" "r = r0" "v' = v1"
  | (added) existing v1 toImport r0 st where "(if skipDedup then (Inr [], v) else vi_ListEntries V EntryTypeUnspecified v) = (Inr existing, v1)"
      "plan_items L items (map deduplicationKey existing) zero_result = (toImport, r0)"
      "st = run_pool V sched (start_pool toImport v1)" "pool_finished st" "v' = po_vault st"
      "r = r0\<lparr>Imported := po_imported st, Failed := po_failed st, FirstErr := po_first st\<rparr>"
proof -
  obtain q v1 where q: "(if skipDedup then (Inr [], v) else vi_ListEntries V EntryTypeUnspecified v) = (q, v1)"
    by (rule prod.exhaust)
  with assms obtain existing where ex: "q = Inr existing" by (cases q) (auto simp: processImport_def)
  obtain toImport r0 where plan: "plan_items L items (map deduplicationKey existing) zero_result = (toImport, r0)"
    by (rule prod.exhaust)
  note eval = assms [unfolded processImport_def q ex, simplified, unfolded plan, simplified]
  show thesis
  proof (cases "toImport = []")
    case True
    with eval none_new q ex plan show thesis by simp
  next
    case False
    define st where "st = run_pool V sched (start_pool toImport v1)"
    from eval False have "pool_finished st" "v' = po_vault st"
      "r = r0\<lparr>Imported := po_imported st, Failed := po_failed st, FirstErr := po_first st\<rparr>"
      by (simp_all add: Let_def st_def split: if_split_asm)
    with added [OF q [unfolded ex] plan st_def] show thesis by blast
  qed
qed

lemma mset_map_permuted:
  "mset ys = mset (map f xs) \<Longrightarrow> \<exists>zs. mset zs = mset xs \<and> ys = map f zs"
proof (induction ys arbitrary: xs)
  case Nil
  then show ?case by simp
next
  case (Cons y ys)
  then have "y \<in> f ` set xs" by (metis list.set_intros(1) list.set_map mset_eq_setD)
  then obtain x where x: "x \<in> set xs" "y = f x" by blast
  then have "mset xs = add_mset x (mset (remove1 x xs))" by simp
  with Cons.prems x(2) have "mset ys = mset (map f (remove1 x xs))" by (simp del: mset_remove1)
  from Cons.IH [OF this] obtain zs where "mset zs = mset (remove1 x xs)" "ys = map f zs" by blast
  with x show ?case by (intro exI [of _ "x # zs"]) simp
qed

text \<open>
  C31: An import that is not cancelled accounts for every item exactly once, under every schedule
  of its workers. What is added are the new items, each once and in some order: those that can
  be imported and whose key neither an entry in the vault (unless that check is off) nor an
  earlier importable item has. A login is added with the name, the user, the password, the
  first site and the notes of its item, and its key is its site and user; a secure note with its
  name and notes, and its key is its name. Exactly the other
  importable items are counted as duplicates, exactly the items with a blank name as invalid,
  and exactly the named items of another type as unsupported. What the workers do to the vault,
  and the counts of imported and failed entries they report, are those of adding the new items
  one after the other in that order.
\<close>

theorem import_exact:
  assumes run: "processImport V L items skipDedup sched v = (Some (Inr r), progress, v')"
    and uncancelled: "\<forall>i. (i, True) \<notin> set sched"
  shows "Imported r + Duplicates r + Failed r + Unsupported r + Invalid r = length items \<and>
    Unsupported r = length (filter other_type_item items) \<and>
    Invalid r = length (filter nameless_item items) \<and>
    (\<exists>existing v1 js rs.
       (if skipDedup then (Inr [], v) else vi_ListEntries V EntryTypeUnspecified v) = (Inr existing, v1) \<and>
       mset js = mset (filter (new_item L (map deduplicationKey existing) items) [0..<length items]) \<and>
       Duplicates r = length (filter (duplicate_item L (map deduplicationKey existing) items) [0..<length items]) \<and>
       list_all (\<lambda>i. imported_as L (items ! i) (item_envelope L (items ! i))) js \<and>
       add_all V (map (\<lambda>i. item_envelope L (items ! i)) js) v1 = (rs, v') \<and>
       Imported r = count_list rs None \<and> Imported r + Failed r = length js \<and>
       (FirstErr r = None \<longleftrightarrow> set rs \<subseteq> {None}))"
  using run
proof (cases rule: processImport_cases)
  case (none_new existing v1 r0)
  note exact = plan_items_exact [OF none_new(2)]
  with items_partition [of L "map deduplicationKey existing" items] none_new show ?thesis
    by (intro conjI exI [of _ existing] exI [of _ v1] exI [of _ "[]"]) (auto simp: zero_result_def)
next
  case (added existing v1 toImport r0 st)
  note exact = plan_items_exact [OF added(2)]
  let ?new = "filter (new_item L (map deduplicationKey existing) items) [0..<length items]"
  from run_pool_steps [of sched False V "start_pool toImport v1"] uncancelled
  have "(pool_step V False)\<^sup>*\<^sup>* (start_pool toImport v1) st" unfolding added(3) by blast
  from pool_result [OF this added(4)] obtain es rs where es: "mset es = mset toImport"
    and res: "add_all V es v1 = (rs, po_vault st)" "po_imported st = count_list rs None"
      "po_imported st + po_failed st = length toImport" "po_first st = None \<longleftrightarrow> set rs \<subseteq> {None}" .
  from es exact have "mset es = mset (map (\<lambda>i. item_envelope L (items ! i)) ?new)" by simp
  from mset_map_permuted [OF this] obtain js where js: "mset js = mset ?new"
    "es = map (\<lambda>i. item_envelope L (items ! i)) js" by blast
  have len: "length js = length ?new" "length toImport = length ?new"
    using js(1) exact by (metis size_mset, simp)
  have as: "list_all (\<lambda>i. imported_as L (items ! i) (item_envelope L (items ! i))) js"
    by (simp add: list_all_iff item_envelope_imported_as)
  from items_partition [of L "map deduplicationKey existing" items] exact added res js len as show ?thesis
    by (intro conjI exI [of _ existing] exI [of _ v1] exI [of _ "js"] exI [of _ rs]) (auto simp: zero_result_def)
qed

text \<open>A vault that is a list, two workers picked in turn.\<close>

definition demo_importer :: "envelope list importer" where
  "demo_importer = \<lparr>vi_AddEntry = (\<lambda>e es. (None, es @ [e])), vi_ListEntries = (\<lambda>t es. (Inr es, es)),
     vi_DeleteEntry = (\<lambda>i es. (None, filter (\<lambda>e. ID e \<noteq> i) es))\<rparr>"

definition demo_items :: "bitwarden_item list" where
  "demo_items = [
     zero_item\<lparr>bw_Type := 2, bw_Name := ''a'', bw_Notes := ''x''\<rparr>,
     zero_item\<lparr>bw_Type := 2, bw_Name := ''b''\<rparr>,
     zero_item\<lparr>bw_Type := 2, bw_Name := ''a''\<rparr>,
     zero_item\<lparr>bw_Type := 3, bw_Name := ''card''\<rparr>]"

definition demo_sched :: "(nat \<times> bool) list" where
  "demo_sched = concat (replicate 6 [(1, False), (0, False)])"

theorem import_exact_witness:
  "\<exists>r progress v'. processImport demo_importer demo_urls demo_items False demo_sched [] = (Some (Inr r), progress, v') \<and>
     Imported r + Duplicates r + Failed r + Unsupported r + Invalid r = 4 \<and> Unsupported r = 1 \<and> Invalid r = 0"
proof -
  have "case processImport demo_importer demo_urls demo_items False demo_sched [] of
      (Some (Inr r), _, _) \<Rightarrow> True | _ \<Rightarrow> False"
    by code_simp
  then obtain r progress v' where run:
    "processImport demo_importer demo_urls demo_items False demo_sched [] = (Some (Inr r), progress, v')"
    by (auto split: prod.splits option.splits sum.splits)
  have "length (filter other_type_item demo_items) = 1 \<and> length (filter nameless_item demo_items) = 0" by code_simp
  moreover have "length demo_items = 4" "\<forall>i. (i, True) \<notin> set demo_sched"
    by (simp_all add: demo_items_def demo_sched_def)
  ultimately show ?thesis using import_exact [OF run] run by auto
qed

text \<open>
  C32: The import comes to its end: however its workers were scheduled so far, they can be
  scheduled on so that it returns, no schedule keeps them busy for ever (with or without a
  cancellation), and a step is possible exactly as long as some worker has not returned.
\<close>

theorem import_completes:
  "(\<exists>more. fst (processImport V L items skipDedup (sched @ more) v) \<noteq> None) \<and>
   \<not> (\<exists>f. \<forall>n. pool_step V cancel (f n) (f (Suc n))) \<and>
   ((\<forall>st'. \<not> pool_step V cancel st st') \<longleftrightarrow> pool_finished st)"
proof (intro conjI)
  obtain q v1 where q: "(if skipDedup then (Inr [], v) else vi_ListEntries V EntryTypeUnspecified v) = (q, v1)"
    by (rule prod.exhaust)
  obtain toImport r0 where plan: "plan_items L items (map deduplicationKey (case q of Inl e \<Rightarrow> [] | Inr es \<Rightarrow> es)) zero_result = (toImport, r0)"
    by (rule prod.exhaust)
  from run_pool_completes [of V "run_pool V sched (start_pool toImport v1)"]
  obtain more where "pool_finished (run_pool V (sched @ more) (start_pool toImport v1))"
    by (auto simp: run_pool_def)
  with plan have "fst (processImport V L items skipDedup (sched @ more) v) \<noteq> None"
    unfolding processImport_def q by (auto simp: Let_def split: sum.splits)
  then show "\<exists>more. fst (processImport V L items skipDedup (sched @ more) v) \<noteq> None" ..
  show "\<not> (\<exists>f. \<forall>n. pool_step V cancel (f n) (f (Suc n)))" using pool_no_infinite_run by blast
  show "(\<forall>st'. \<not> pool_step V cancel st st') \<longleftrightarrow> pool_finished st" by (rule pool_stuck_iff)
qed

text \<open>The steps of the workers among the events.\<close>

fun works :: "spinner_event list \<Rightarrow> (nat \<times> bool) list" where
  "works [] = []"
| "works (Work s # evs) = s # works evs"
| "works (_ # evs) = works evs"

text \<open>What has been assigned after the events, none of which ends the display.\<close>

fun assigned_by :: "((nat \<times> bool) list \<Rightarrow> 'r option) \<Rightarrow> (nat \<times> bool) list \<Rightarrow> 'r option \<Rightarrow> spinner_event list \<Rightarrow> 'r option" where
  "assigned_by returned sched a [] = a"
| "assigned_by returned sched a (Work s # evs) = assigned_by returned (sched @ [s]) a evs"
| "assigned_by returned sched a (Assign # evs) =
     assigned_by returned sched (if a = None then returned sched else a) evs"
| "assigned_by returned sched a (Message msg # evs) = assigned_by returned sched a evs"

lemma run_display_interrupted:
  assumes "Message (KeyPressMsg ''ctrl+c'') \<notin> set pre" "Message ImportDoneMsg \<notin> set pre"
  shows "run_display ret m sched a (pre @ Message (KeyPressMsg ''ctrl+c'') # post)
    = (sched @ works pre, assigned_by ret sched a pre, True)"
  using assms
proof (induction pre arbitrary: m sched a)
  case Nil
  then show ?case by (simp add: import_Update_def)
next
  case (Cons ev pre)
  then show ?case
    by (cases ev) (auto simp: import_Update_def split: import_msg.splits)
qed

lemma assigned_by_Some [simp]: "assigned_by ret sched (Some r) evs = Some r"
  by (induction evs arbitrary: sched rule: works.induct) simp_all

lemma assigned_by_none:
  "assigned_by ret sched None evs = None \<Longrightarrow> evs = p @ Assign # q \<Longrightarrow> ret (sched @ works p) = None"
proof (induction evs arbitrary: sched p)
  case (Cons ev evs)
  show ?case
  proof (cases p)
    case Nil
    with Cons.prems show ?thesis by (cases "ret sched") auto
  next
    case p: (Cons ev1 p1)
    with Cons.prems(2) have "ev1 = ev" and evs: "evs = p1 @ Assign # q" by auto
    have IH: "ret (sched1 @ works p1) = None" if "assigned_by ret sched1 None evs = None" for sched1
      using Cons.IH [OF that evs] .
    show ?thesis
    proof (cases ev)
      case (Work x)
      with Cons.prems(1) IH [of "sched @ [x]"] show ?thesis by (simp add: p \<open>ev1 = ev\<close>)
    next
      case Assign
      with Cons.prems(1) IH [of sched] show ?thesis by (cases "ret sched") (simp_all add: p \<open>ev1 = ev\<close>)
    next
      case (Message msg)
      with Cons.prems(1) IH [of sched] show ?thesis by (simp add: p \<open>ev1 = ev\<close>)
    qed
  qed
qed simp

lemma assigned_by_some:
  "assigned_by ret sched None evs = Some r \<Longrightarrow> \<exists>p q. evs = p @ Assign # q \<and> ret (sched @ works p) = Some r"
proof (induction evs arbitrary: sched)
  case (Cons ev evs)
  show ?case
  proof (cases "ev = Assign \<and> ret sched \<noteq> None")
    case True
    with Cons.prems have "ret (sched @ works []) = Some r" by auto
    with True show ?thesis by (metis append_Nil)
  next
    case False
    obtain sched1 where rest: "assigned_by ret sched1 None evs = Some r"
      and works: "\<And>p. sched @ works (ev # p) = sched1 @ works p"
      using Cons.prems False by (cases ev) auto
    from Cons.IH [OF rest] works show ?thesis by (metis append_Cons)
  qed
qed simp

text \<open>
  C33: Interrupting the progress display of an import is not an error of the display, and what
  the command does then depends on a race: when the goroutine has assigned what the import
  returned before the display ends, the command reports that result, or its error; when it has
  not, because entries are still being added or the assignment has not been made, there is no
  result, and the command reads the counters through the nil pointer.
\<close>

theorem interrupt_dereferences_nil:
  assumes "ir_stderr_tty R" and "ir_run_err R = None"
    and "ir_events R = pre @ Message (KeyPressMsg ''ctrl+c'') # post"
    and "Message (KeyPressMsg ''ctrl+c'') \<notin> set pre" "Message ImportDoneMsg \<notin> set pre"
  shows "if \<exists>p q. pre = p @ Assign # q \<and> fst (processImport V L items False (works p) v) \<noteq> None
    then \<exists>p q r. pre = p @ Assign # q \<and> fst (processImport V L items False (works p) v) = Some r \<and>
      fst (import_items V L R False items s v) = import_report r s
    else fst (import_items V L R False items s v) = NilDereference"
proof -
  let ?a = "assigned_by (\<lambda>sched. fst (processImport V L items False sched v)) [] None pre"
  have run: "fst (import_items V L R False items s v)
      = (case ?a of None \<Rightarrow> NilDereference | Some r \<Rightarrow> import_report r s)"
    using assms(1,2)
    by (simp add: import_items_def runImportWithSpinner_def assms(3) run_display_interrupted [OF assms(4,5)]
        split: option.split sum.split)
  show ?thesis
  proof (cases ?a)
    case None
    with assigned_by_none [OF None] run show ?thesis by auto
  next
    case (Some r)
    with assigned_by_some [OF Some] run show ?thesis by auto
  qed
qed

definition demo_terminal :: "spinner_event list \<Rightarrow> import_terminal" where
  "demo_terminal evs = \<lparr>ir_stderr_tty = True, ir_sched = [], ir_run_err = None, ir_events = evs\<rparr>"

lemma demo_terminal_simps [simp]:
  "ir_stderr_tty (demo_terminal evs)" "ir_run_err (demo_terminal evs) = None" "ir_events (demo_terminal evs) = evs"
  by (simp_all add: demo_terminal_def)

theorem interrupt_dereferences_nil_witness:
  "fst (import_items demo_importer demo_urls
       (demo_terminal [Work (0, False), Assign, Message (KeyPressMsg ''ctrl+c'')]) False demo_items demo_io [])
     = NilDereference \<and>
   (\<exists>r. fst (import_items demo_importer demo_urls
       (demo_terminal (map Work demo_sched @ [Assign, Message (KeyPressMsg ''ctrl+c'')])) False demo_items demo_io [])
     = import_report r demo_io)"
proof
  have "fst (processImport demo_importer demo_urls demo_items False (works [Work (0, False)]) []) = None" by code_simp
  then have "\<nexists>p q. [Work (0, False), Assign] = p @ Assign # q \<and>
      fst (processImport demo_importer demo_urls demo_items False (works p) []) \<noteq> None"
    by (auto simp: Cons_eq_append_conv simp del: not_None_eq)
  with interrupt_dereferences_nil [of "demo_terminal [Work (0, False), Assign, Message (KeyPressMsg ''ctrl+c'')]"
      "[Work (0, False), Assign]" "[]" demo_importer demo_urls demo_items "[]" demo_io]
  show "fst (import_items demo_importer demo_urls
       (demo_terminal [Work (0, False), Assign, Message (KeyPressMsg ''ctrl+c'')]) False demo_items demo_io [])
     = NilDereference"
    by (simp del: not_None_eq)
next
  let ?evs = "map Work demo_sched @ [Assign]"
  have "fst (processImport demo_importer demo_urls demo_items False (works (map Work demo_sched)) []) \<noteq> None"
    by code_simp
  then have "\<exists>p q. ?evs = p @ Assign # q \<and>
      fst (processImport demo_importer demo_urls demo_items False (works p) []) \<noteq> None"
    by blast
  moreover have "Message (KeyPressMsg ''ctrl+c'') \<notin> set ?evs" "Message ImportDoneMsg \<notin> set ?evs" by auto
  ultimately show "\<exists>r. fst (import_items demo_importer demo_urls
       (demo_terminal (map Work demo_sched @ [Assign, Message (KeyPressMsg ''ctrl+c'')])) False demo_items demo_io [])
     = import_report r demo_io"
    using interrupt_dereferences_nil [of "demo_terminal (?evs @ [Message (KeyPressMsg ''ctrl+c'')])"
      ?evs "[]" demo_importer demo_urls demo_items "[]" demo_io]
    by (simp del: not_None_eq) blast
qed

subsection \<open>Facts behind the remarks on this code\<close>

text \<open>Two logins that differ in site and user can share a key; the second is then skipped.\<close>

lemma deduplicationKey_collision:
  "\<exists>a b. Type a = EntryTypeLogin \<and> Type b = EntryTypeLogin \<and> Meta a \<noteq> Meta b \<and> Payload a \<noteq> Payload b \<and>
     deduplicationKey a = deduplicationKey b"
proof -
  define mk where "mk = (\<lambda>site user. zero_envelope\<lparr>Type := EntryTypeLogin, Meta := [(''username'', user), (''site'', site)],
    Payload := marshal_login (zero_login\<lparr>Site := site, Username := user\<rparr>)\<rparr>)"
  have "Payload (mk ''a:b'' ''c'') \<noteq> Payload (mk ''a'' ''b:c'')"
    unfolding mk_def by (simp, code_simp)
  moreover have "deduplicationKey (mk ''a:b'' ''c'') = deduplicationKey (mk ''a'' ''b:c'')"
    by (simp add: mk_def deduplicationKey_def meta_get_def)
  ultimately show ?thesis
    by (intro exI [of _ "mk ''a:b'' ''c''"] exI [of _ "mk ''a'' ''b:c''"]) (simp add: mk_def)
qed

text \<open>
  The vault of Bitwarden is locked again only after an export that worked: when \<^verbatim>\<open>bw export\<close>
  fails, nothing runs after it.
\<close>

lemma failed_export_not_locked:
  assumes "exportFromBitwardenCLI B s b = (Inl (Errorf ''failed to export Bitwarden vault''), s', b')"
  shows "\<exists>session e out b0. bw_exec B [''export'', ''--raw'', ''--format'', ''json''] [session] b0 = ((Some e, out), b')"
  using assms unfolding exportFromBitwardenCLI_def
  by (auto simp: Let_def split: if_split_asm prod.splits option.splits sum.splits)

end
