(* ===== verification/Config.thy ===== *)
theory Config
  imports Session Go_Strings
begin

text \<open>
  Where the configuration lives and how it is read and written:
  \<^verbatim>\<open>internal/adapters/xdg/xdg.go\<close> over a model of \<^verbatim>\<open>filepath.Clean\<close> and \<^verbatim>\<open>filepath.Join\<close> on
  Unix, and the rest of \<^verbatim>\<open>internal/adapters/config/viper.go\<close>, with the settings library
  viper a parameter whose documented laws are the locale \<open>settings\<close>.
\<close>

subsection \<open>Paths\<close>

abbreviation slash :: char where "slash \<equiv> CHR ''/''"

text \<open>One element of the path: empty and dot elements go, a double dot takes one away.\<close>

definition clean_step :: "bool \<Rightarrow> string \<Rightarrow> string list \<Rightarrow> string list" where
  "clean_step rooted c out =
     (if c = [] \<or> c = ''.'' then out
      else if c = ''..'' then
        (if out \<noteq> [] \<and> last out \<noteq> ''..'' then butlast out else if rooted then out else out @ [''..''])
      else out @ [c])"

definition is_abs :: "string \<Rightarrow> bool" where
  "is_abs path \<longleftrightarrow> (case path of [] \<Rightarrow> False | c # _ \<Rightarrow> c = slash)"

definition filepath_Clean :: "string \<Rightarrow> string" where
  "filepath_Clean path =
     (if path = [] then ''.''
      else let out = join_strings (fold (clean_step (is_abs path)) (split_byte path slash) []) [slash]
           in if is_abs path then slash # out else if out = [] then ''.'' else out)"

definition filepath_Join :: "string list \<Rightarrow> string" where
  "filepath_Join elems =
     (case dropWhile (\<lambda>e. e = []) elems of [] \<Rightarrow> [] | es \<Rightarrow> filepath_Clean (join_strings es [slash]))"

text \<open>A name that is an element of a path by itself.\<close>

definition plain_name :: "string \<Rightarrow> bool" where
  "plain_name c \<longleftrightarrow> c \<noteq> [] \<and> slash \<notin> set c \<and> c \<noteq> ''.'' \<and> c \<noteq> ''..''"

subsection \<open>Directories\<close>

text \<open>The environment gives a directory or \<^verbatim>\<open>""\<close>; the home directory may be unknown.\<close>

record xdg =
  xdg_appName :: string
  xdg_getenv :: "string \<Rightarrow> string"
  xdg_home :: "go_error + string"
  xdg_print :: "nat \<Rightarrow> bool"

definition xdg_resolve :: "xdg \<Rightarrow> string \<Rightarrow> string \<Rightarrow> go_error + string" where
  "xdg_resolve X envVar defaultRel =
     (let dir = xdg_getenv X envVar in
      if dir \<noteq> [] then
        (if \<not> is_abs dir
         then Inl (Errorf (envVar @ '' must be an absolute path, got '' @ strconv_quote (xdg_print X) dir))
         else Inr (filepath_Join [dir, xdg_appName X]))
      else (case xdg_home X of
              Inl e \<Rightarrow> Inl (WrapErr ''cannot determine home directory'' e)
            | Inr home \<Rightarrow> Inr (filepath_Join [home, defaultRel, xdg_appName X])))"

definition ConfigDir :: "xdg \<Rightarrow> go_error + string" where
  "ConfigDir X = xdg_resolve X ''XDG_CONFIG_HOME'' ''.config''"

definition DataDir :: "xdg \<Rightarrow> go_error + string" where
  "DataDir X = xdg_resolve X ''XDG_DATA_HOME'' (filepath_Join [''.local'', ''share''])"

definition CacheDir :: "xdg \<Rightarrow> go_error + string" where
  "CacheDir X = xdg_resolve X ''XDG_CACHE_HOME'' ''.cache''"

definition StateDir :: "xdg \<Rightarrow> go_error + string" where
  "StateDir X = xdg_resolve X ''XDG_STATE_HOME'' (filepath_Join [''.local'', ''state''])"

subsection \<open>Settings\<close>

text \<open>
  The settings library with its files: \<open>st_open dir\<close> is a new instance that looks for
  \<^verbatim>\<open>config.toml\<close> in the directory, with the environment prefix and automatic environment on.
\<close>

datatype read_failure = ConfigFileNotFound | ReadFailed go_error

record ('v, 'f) settings_lib =
  st_open :: "string \<Rightarrow> 'v"
  st_default :: "string \<Rightarrow> string \<Rightarrow> 'v \<Rightarrow> 'v"
  st_read :: "'f \<Rightarrow> 'v \<Rightarrow> read_failure option \<times> 'v"
  st_get :: "string \<Rightarrow> 'v \<Rightarrow> string"
  st_set :: "string \<Rightarrow> string \<Rightarrow> 'v \<Rightarrow> 'v"
  st_file_used :: "'v \<Rightarrow> string"
  st_write_as :: "string \<Rightarrow> 'v \<Rightarrow> 'f \<Rightarrow> go_error option \<times> 'f"
  st_mkdir_all :: "string \<Rightarrow> 'f \<Rightarrow> go_error option \<times> 'f"
  st_chmod :: "string \<Rightarrow> 'f \<Rightarrow> go_error option \<times> 'f"

record 'v viper_config =
  vc_v :: 'v
  vc_cfgDir :: string

definition open_settings :: "('v, 'f) settings_lib \<Rightarrow> string \<Rightarrow> 'v" where
  "open_settings S dir = st_default S ''gpg_key_id'' [] (st_default S ''server_addr'' ''localhost:50051'' (st_open S dir))"

definition NewViperConfig :: "('v, 'f) settings_lib \<Rightarrow> xdg \<Rightarrow> 'f \<Rightarrow> go_error + 'v viper_config" where
  "NewViperConfig S X fs =
     (case ConfigDir X of
        Inl e \<Rightarrow> Inl (WrapErr ''failed to resolve config directory'' e)
      | Inr dir \<Rightarrow>
         (case st_read S fs (open_settings S dir) of
            (Some (ReadFailed e), _) \<Rightarrow> Inl (WrapErr ''failed to read config'' e)
          | (_, v) \<Rightarrow> Inr \<lparr>vc_v = v, vc_cfgDir = dir\<rparr>))"

definition ServerAddr :: "('v, 'f) settings_lib \<Rightarrow> 'v viper_config \<Rightarrow> string" where
  "ServerAddr S c = st_get S ''server_addr'' (vc_v c)"

definition GPGKeyID :: "('v, 'f) settings_lib \<Rightarrow> 'v viper_config \<Rightarrow> string" where
  "GPGKeyID S c = st_get S ''gpg_key_id'' (vc_v c)"

definition SetOverride :: "('v, 'f) settings_lib \<Rightarrow> string \<Rightarrow> string \<Rightarrow> 'v viper_config \<Rightarrow> 'v viper_config" where
  "SetOverride S key val c = c\<lparr>vc_v := st_set S key val (vc_v c)\<rparr>"

definition IsUnconfigured :: "('v, 'f) settings_lib \<Rightarrow> 'v viper_config \<Rightarrow> bool" where
  "IsUnconfigured S c \<longleftrightarrow> st_get S ''gpg_key_id'' (vc_v c) = [] \<and> st_file_used S (vc_v c) = []"

definition ConfigPath :: "'v viper_config \<Rightarrow> string" where
  "ConfigPath c = filepath_Join [vc_cfgDir c, ''config.toml'']"

definition WriteConfig :: "('v, 'f) settings_lib \<Rightarrow> string \<Rightarrow> string \<Rightarrow> 'v viper_config \<Rightarrow> 'f \<Rightarrow>
    go_error option \<times> 'v viper_config \<times> 'f" where
  "WriteConfig S serverAddr gpgKeyID c fs =
     (case st_mkdir_all S (vc_cfgDir c) fs of
        (Some e, fs) \<Rightarrow> (Some (WrapErr ''failed to create config dir'' e), c, fs)
      | (None, fs) \<Rightarrow>
          let c = SetOverride S ''gpg_key_id'' gpgKeyID (SetOverride S ''server_addr'' serverAddr c);
              path = filepath_Join [vc_cfgDir c, ''config.toml'']
          in (case st_write_as S path (vc_v c) fs of
                (Some e, fs) \<Rightarrow> (Some (WrapErr ''failed to write config'' e), c, fs)
              | (None, fs) \<Rightarrow>
                 (case st_chmod S path fs of
                    (Some e, fs) \<Rightarrow> (Some (WrapErr ''failed to set config permissions'' e), c, fs)
                  | (None, fs) \<Rightarrow> (None, c, fs))))"

subsection \<open>Clean paths\<close>

lemma split_join:
  "list_all (\<lambda>c. slash \<notin> set c) cs \<Longrightarrow> cs \<noteq> [] \<Longrightarrow> split_byte (join_strings cs [slash]) slash = cs"
proof (induction cs)
  case (Cons c cs)
  then show ?case by (cases cs) (simp_all add: split_byte_append split_byte_none)
qed simp

lemma plain_step: "plain_name c \<Longrightarrow> clean_step rooted c out = out @ [c]"
  by (simp add: clean_step_def plain_name_def)

lemma plain_fold: "list_all plain_name cs \<Longrightarrow> fold (clean_step rooted) cs out = out @ cs"
  by (induction cs arbitrary: out) (simp_all add: plain_step)

lemma clean_step_plain:
  "list_all plain_name out \<Longrightarrow> slash \<notin> set c \<Longrightarrow> list_all plain_name (clean_step True c out)"
  by (auto simp: clean_step_def plain_name_def list_all_iff dest: in_set_butlastD)

lemma clean_fold_plain:
  "list_all (\<lambda>c. slash \<notin> set c) cs \<Longrightarrow> list_all plain_name out \<Longrightarrow> list_all plain_name (fold (clean_step True) cs out)"
  by (induction cs arbitrary: out) (simp_all add: clean_step_plain)

lemma split_no_slash: "list_all (\<lambda>c. slash \<notin> set c) (split_byte s slash)"
proof (induction s)
  case (Cons d s)
  then show ?case by (cases "split_byte s slash") auto
qed simp

lemma plain_no_slash: "list_all plain_name cs \<Longrightarrow> list_all (\<lambda>c. slash \<notin> set c) cs"
  by (auto simp: list_all_iff plain_name_def)

text \<open>Joining a list of plain names below the root changes nothing.\<close>

lemma Clean_plain:
  assumes "list_all plain_name cs"
  shows "filepath_Clean (slash # join_strings cs [slash]) = slash # join_strings cs [slash]"
proof (cases "cs = []")
  case True
  then show ?thesis by (simp add: filepath_Clean_def is_abs_def clean_step_def)
next
  case False
  with assms have "fold (clean_step True) (split_byte (slash # join_strings cs [slash]) slash) [] = cs"
    using plain_fold [OF assms, of True "[]"] by (simp add: split_join plain_no_slash clean_step_def)
  then show ?thesis by (simp add: filepath_Clean_def is_abs_def)
qed

lemma join_strings_append:
  "cs \<noteq> [] \<Longrightarrow> ds \<noteq> [] \<Longrightarrow> join_strings (cs @ ds) sep = join_strings cs sep @ sep @ join_strings ds sep"
proof (induction cs)
  case (Cons c cs)
  then show ?case by (cases cs; cases ds) simp_all
qed simp

lemma split_byte_append_slash: "split_byte (a @ slash # b) slash = split_byte a slash @ split_byte b slash"
proof (induction a)
  case (Cons d a)
  then show ?case by (cases "split_byte a slash") simp_all
qed simp

lemma clean_fold_snoc:
  "plain_name c \<Longrightarrow> fold (clean_step rooted) (cs @ [c]) out = fold (clean_step rooted) cs out @ [c]"
  by (simp add: plain_step)

text \<open>An absolute path joined with a plain name at the end: below the root, plain names only.\<close>

lemma Clean_abs_name:
  assumes "is_abs path" and "plain_name c"
  obtains cs where "list_all plain_name cs" "filepath_Clean (path @ slash # c) = slash # join_strings (cs @ [c]) [slash]"
proof -
  have abs: "is_abs (path @ slash # c)" using assms(1) by (cases path) (auto simp: is_abs_def)
  have "split_byte c slash = [c]" using assms(2) by (simp add: plain_name_def split_byte_none)
  then have "fold (clean_step True) (split_byte (path @ slash # c) slash) [] =
      fold (clean_step True) (split_byte path slash) [] @ [c]"
    using assms(2) by (simp add: split_byte_append_slash clean_fold_snoc del: fold_append)
  moreover have "list_all plain_name (fold (clean_step True) (split_byte path slash) [])"
    by (rule clean_fold_plain [OF split_no_slash]) simp
  ultimately show thesis using abs that by (simp add: filepath_Clean_def)
qed

text \<open>So every directory is absolute and clean, and a file in it is its path, a slash and the name.\<close>

lemma Join_abs_name:
  assumes "list_all plain_name cs" and "plain_name c" and "plain_name f" and d: "d = slash # join_strings (cs @ [c]) [slash]"
  shows "is_abs d" and "filepath_Clean d = d" and "filepath_Join [d, f] = path_join d f"
proof -
  have plain: "list_all plain_name (cs @ [c])" using assms by simp
  show "is_abs d" using d by (simp add: is_abs_def)
  show "filepath_Clean d = d" using Clean_plain [OF plain] d by simp
  have "filepath_Join [d, f] = filepath_Clean (slash # join_strings (cs @ [c] @ [f]) [slash])"
    using d join_strings_append [of "cs @ [c]" "[f]" "[slash]"] by (simp add: filepath_Join_def)
  also have "\<dots> = slash # join_strings (cs @ [c] @ [f]) [slash]"
    using plain assms(3) by (intro Clean_plain) simp
  also have "\<dots> = path_join d f"
    using d join_strings_append [of "cs @ [c]" "[f]" "[slash]"] by (simp add: path_join_def)
  finally show "filepath_Join [d, f] = path_join d f" .
qed

lemma ConfigDir_clean:
  assumes "ConfigDir X = Inr d" and home: "\<forall>h. xdg_home X = Inr h \<longrightarrow> is_abs h" and app: "plain_name (xdg_appName X)"
  shows "is_abs d \<and> filepath_Clean d = d \<and> (plain_name f \<longrightarrow> filepath_Join [d, f] = path_join d f)"
proof -
  obtain path where path: "is_abs path" "d = filepath_Clean (path @ slash # xdg_appName X)"
  proof (cases "xdg_getenv X ''XDG_CONFIG_HOME'' = []")
    case True
    with assms(1) obtain h where h: "xdg_home X = Inr h" "d = filepath_Join [h, ''.config'', xdg_appName X]"
      by (auto simp: ConfigDir_def xdg_resolve_def split: sum.splits)
    with home have "is_abs h" by simp
    then have "is_abs (h @ slash # ''.config'')" "h \<noteq> []" by (cases h; auto simp: is_abs_def)+
    with h(2) show thesis by (intro that [of "h @ slash # ''.config''"]) (simp_all add: filepath_Join_def)
  next
    case False
    with assms(1) have "is_abs (xdg_getenv X ''XDG_CONFIG_HOME'')"
      "d = filepath_Join [xdg_getenv X ''XDG_CONFIG_HOME'', xdg_appName X]"
      by (auto simp: ConfigDir_def xdg_resolve_def Let_def split: if_split_asm)
    with False show thesis by (intro that [of "xdg_getenv X ''XDG_CONFIG_HOME''"]) (simp_all add: filepath_Join_def)
  qed
  from Clean_abs_name [OF path(1) app] path(2) obtain cs where cs: "list_all plain_name cs"
    "d = slash # join_strings (cs @ [xdg_appName X]) [slash]" by metis
  show ?thesis using Join_abs_name [OF cs(1) app _ cs(2)] app by blast
qed

subsection \<open>Settings survive\<close>

definition setting_keys :: "string list" where "setting_keys = [''server_addr'', ''gpg_key_id'']"

text \<open>
  What viper documents of the calls: a value that is set wins over all others, and a file that
  was written is found and read back by a new instance, where a variable of the environment
  (\<open>env\<close> of the key) still comes first.
  It is so for a directory with no other file named \<^verbatim>\<open>config\<close> that viper would find before this
  one (it looks for \<^verbatim>\<open>config.json\<close> first), and for settings that are valid UTF-8, as TOML asks.
\<close>

locale settings =
  fixes S :: "('v, 'f) settings_lib"
    and env :: "string \<Rightarrow> string"
  assumes get_set: "k \<in> set setting_keys \<Longrightarrow> k' \<in> set setting_keys \<Longrightarrow>
      st_get S k (st_set S k' x v) = (if k = k' then x else st_get S k v)"
    and file_used_set: "st_file_used S (st_set S k x v) = st_file_used S v"
    and read_written: "st_write_as S (path_join dir ''config.toml'') v fs = (None, fs1) \<Longrightarrow>
      st_chmod S (path_join dir ''config.toml'') fs1 = (None, fs2) \<Longrightarrow>
      \<exists>v'. st_read S fs2 (open_settings S dir) = (None, v') \<and> st_file_used S v' = path_join dir ''config.toml'' \<and>
        (\<forall>k\<in>set setting_keys. env k = [] \<longrightarrow> st_get S k v' = st_get S k v)"
begin

lemma get_override [simp]:
  "ServerAddr S (SetOverride S ''server_addr'' x c) = x"
  "GPGKeyID S (SetOverride S ''gpg_key_id'' x c) = x"
  "GPGKeyID S (SetOverride S ''server_addr'' x c) = GPGKeyID S c"
  "ServerAddr S (SetOverride S ''gpg_key_id'' x c) = ServerAddr S c"
  by (simp_all add: ServerAddr_def GPGKeyID_def SetOverride_def get_set setting_keys_def)

lemma override_configures: "x \<noteq> [] \<Longrightarrow> \<not> IsUnconfigured S (SetOverride S ''gpg_key_id'' x c)"
  using get_override(2) [of x c] by (auto simp: IsUnconfigured_def GPGKeyID_def)

lemma written_read_back:
  assumes saving: "WriteConfig S addr key c fs = (None, c', fs')"
    and clean: "filepath_Join [vc_cfgDir c, ''config.toml''] = path_join (vc_cfgDir c) ''config.toml''"
    and unset: "env ''server_addr'' = []" "env ''gpg_key_id'' = []"
  shows "ServerAddr S c' = addr \<and> GPGKeyID S c' = key \<and>
    (\<exists>v. st_read S fs' (open_settings S (vc_cfgDir c)) = (None, v) \<and> st_file_used S v \<noteq> [] \<and>
       st_get S ''server_addr'' v = addr \<and> st_get S ''gpg_key_id'' v = key)"
proof -
  define c1 where "c1 = SetOverride S ''gpg_key_id'' key (SetOverride S ''server_addr'' addr c)"
  have dir: "vc_cfgDir c1 = vc_cfgDir c" by (simp add: c1_def SetOverride_def)
  have vals: "ServerAddr S c1 = addr" "GPGKeyID S c1 = key" by (simp_all add: c1_def)
  from saving clean obtain fs0 fs1 where c': "c' = c1"
    and ops: "st_write_as S (path_join (vc_cfgDir c) ''config.toml'') (vc_v c1) fs0 = (None, fs1)"
      "st_chmod S (path_join (vc_cfgDir c) ''config.toml'') fs1 = (None, fs')"
    by (auto simp: WriteConfig_def Let_def dir c1_def [symmetric] split: prod.splits option.splits)
  from read_written [OF ops] obtain v where v: "st_read S fs' (open_settings S (vc_cfgDir c)) = (None, v)"
    "st_file_used S v = path_join (vc_cfgDir c) ''config.toml''"
    "\<forall>k\<in>set setting_keys. env k = [] \<longrightarrow> st_get S k v = st_get S k (vc_v c1)" by blast
  have "st_file_used S v \<noteq> []" using v(2) by (simp add: path_join_def)
  with c' vals v unset show ?thesis
    by (auto simp: setting_keys_def ServerAddr_def GPGKeyID_def)
qed

end

text \<open>A settings library on association lists, and its laws.\<close>

record demo_settings =
  ds_dir :: string
  ds_set :: "(string \<times> string) list"
  ds_file :: "(string \<times> string) list"
  ds_defaults :: "(string \<times> string) list"
  ds_used :: string

definition ds_get :: "string \<Rightarrow> demo_settings \<Rightarrow> string" where
  "ds_get k v = (case map_of (ds_set v @ ds_file v @ ds_defaults v) k of None \<Rightarrow> [] | Some x \<Rightarrow> x)"

definition demo_settings_lib :: "(demo_settings, (string \<times> (string \<times> string) list) list) settings_lib" where
  "demo_settings_lib = \<lparr>
     st_open = (\<lambda>dir. \<lparr>ds_dir = dir, ds_set = [], ds_file = [], ds_defaults = [], ds_used = []\<rparr>),
     st_default = (\<lambda>k x v. v\<lparr>ds_defaults := (k, x) # ds_defaults v\<rparr>),
     st_read = (\<lambda>fs v. case map_of fs (path_join (ds_dir v) ''config.toml'') of
        None \<Rightarrow> (Some ConfigFileNotFound, v)
      | Some kvs \<Rightarrow> (None, v\<lparr>ds_file := kvs, ds_used := path_join (ds_dir v) ''config.toml''\<rparr>)),
     st_get = ds_get,
     st_set = (\<lambda>k x v. v\<lparr>ds_set := (k, x) # ds_set v\<rparr>),
     st_file_used = ds_used,
     st_write_as = (\<lambda>p v fs. (None, (p, map (\<lambda>k. (k, ds_get k v)) setting_keys) # fs)),
     st_mkdir_all = (\<lambda>d fs. (None, fs)), st_chmod = (\<lambda>p fs. (None, fs))\<rparr>"

interpretation demo_st: settings demo_settings_lib "\<lambda>k. []"
  by unfold_locales
     (auto simp: demo_settings_lib_def ds_get_def setting_keys_def open_settings_def)

text \<open>
  C34: The configuration that \<^verbatim>\<open>WriteConfig\<close> saved is what the next process reads: the same server
  address and key, and it counts as configured. The process that saved it sees the new values
  as well. This needs an absolute home directory and no variable of the environment for
  either setting.
\<close>

theorem config_roundtrip:
  assumes lib: "settings S env" "env ''server_addr'' = []" "env ''gpg_key_id'' = []"
    and place: "\<forall>h. xdg_home X = Inr h \<longrightarrow> is_abs h" "plain_name (xdg_appName X)"
    and load: "NewViperConfig S X fs = Inr c"
    and save: "WriteConfig S addr key c fs = (None, c', fs')"
  shows "ServerAddr S c' = addr \<and> GPGKeyID S c' = key \<and>
    (\<exists>c2. NewViperConfig S X fs' = Inr c2 \<and> ServerAddr S c2 = addr \<and> GPGKeyID S c2 = key \<and> \<not> IsUnconfigured S c2)"
proof -
  from load have dir: "ConfigDir X = Inr (vc_cfgDir c)"
    by (auto simp: NewViperConfig_def split: sum.splits prod.splits option.splits read_failure.splits)
  have "plain_name ''config.toml''" by (simp add: plain_name_def)
  with ConfigDir_clean [OF dir place, of "''config.toml''"]
  have "filepath_Join [vc_cfgDir c, ''config.toml''] = path_join (vc_cfgDir c) ''config.toml''" by blast
  from settings.written_read_back [OF lib(1) save this lib(2,3)] show ?thesis
    by (auto simp: NewViperConfig_def dir ServerAddr_def GPGKeyID_def IsUnconfigured_def)
qed

definition demo_xdg :: xdg where
  "demo_xdg = \<lparr>xdg_appName = ''sekeve'', xdg_getenv = (\<lambda>k. []), xdg_home = Inr ''/home/u'', xdg_print = (\<lambda>r. False)\<rparr>"

theorem config_roundtrip_witness:
  "\<exists>c c' fs'. NewViperConfig demo_settings_lib demo_xdg [] = Inr c \<and>
     WriteConfig demo_settings_lib ''h:1'' ''me'' c [] = (None, c', fs') \<and>
     (\<exists>c2. NewViperConfig demo_settings_lib demo_xdg fs' = Inr c2 \<and> ServerAddr demo_settings_lib c2 = ''h:1'' \<and>
        GPGKeyID demo_settings_lib c2 = ''me'' \<and> \<not> IsUnconfigured demo_settings_lib c2)"
proof -
  obtain c where load: "NewViperConfig demo_settings_lib demo_xdg [] = Inr c"
    by (simp add: NewViperConfig_def ConfigDir_def xdg_resolve_def demo_xdg_def demo_settings_lib_def open_settings_def)
  obtain c' fs' where save: "WriteConfig demo_settings_lib ''h:1'' ''me'' c [] = (None, c', fs')"
    by (simp add: WriteConfig_def demo_settings_lib_def Let_def)
  have place: "\<forall>h. xdg_home demo_xdg = Inr h \<longrightarrow> is_abs h" "plain_name (xdg_appName demo_xdg)"
    by (simp_all add: demo_xdg_def is_abs_def plain_name_def)
  from config_roundtrip [OF demo_st.settings_axioms refl refl place load save] load save show ?thesis by blast
qed

end
