(* ===== verification/Setup.thy ===== *)
theory Setup
  imports Config Cli_Base
begin

text \<open>
  Setting up the client: the onboarding form of
  \<^verbatim>\<open>internal/adapters/cli/cliconfig/onboarding.go\<close> and the command and health check of
  \<^verbatim>\<open>internal/adapters/cli/client/init.go\<close>. A terminal program is its model and the messages
  that reach it; what an input field makes of a message is the argument \<open>edit\<close>, a function of
  the message and the text so far, and the frame of the spinner is text.
\<close>

datatype tea_msg = KeyPress string | SpinnerTick string | HealthCheckMsg "go_error option" | OtherMsg

text \<open>
  \<^verbatim>\<open>Program.Run\<close>: messages are handled until one quits; \<open>None\<close> when it is still running after
  all of them.
\<close>

fun tea_run :: "('m \<Rightarrow> tea_msg \<Rightarrow> 'm \<times> bool) \<Rightarrow> 'm \<Rightarrow> tea_msg list \<Rightarrow> 'm option" where
  "tea_run upd m [] = None"
| "tea_run upd m (msg # msgs) =
     (case upd m msg of (m, quit) \<Rightarrow> if quit then Some m else tea_run upd m msgs)"

lemma tea_run_inv:
  assumes "\<And>m msg m' q. P m \<Longrightarrow> upd m msg = (m', q) \<Longrightarrow> P m'"
  shows "P m \<Longrightarrow> tea_run upd m msgs = Some m' \<Longrightarrow> P m'"
proof (induction msgs arbitrary: m)
  case (Cons msg msgs)
  obtain m1 q where step: "upd m msg = (m1, q)" by (cases "upd m msg")
  with assms Cons.prems have "P m1" by blast
  with Cons step show ?case by (auto split: if_split_asm)
qed simp

subsection \<open>Onboarding\<close>

record onboarding_result =
  or_ServerAddr :: string
  or_GPGKeyID :: string

record onboarding =
  ob_inputs :: "string list"
  ob_labels :: "string list"
  ob_focused :: nat
  ob_result :: "onboarding_result option"
  ob_err :: "go_error option"

definition newOnboardingModel :: onboarding where
  "newOnboardingModel = \<lparr>ob_inputs = [''localhost:50051'', []], ob_labels = [''Server addr'', ''GPG key ID''],
     ob_focused = 0, ob_result = None, ob_err = None\<rparr>"

definition update_focused :: "(tea_msg \<Rightarrow> string \<Rightarrow> string) \<Rightarrow> tea_msg \<Rightarrow> onboarding \<Rightarrow> onboarding" where
  "update_focused edit msg m =
     m\<lparr>ob_inputs := (ob_inputs m)[ob_focused m := edit msg (ob_inputs m ! ob_focused m)]\<rparr>"

definition submit_onboarding :: "onboarding \<Rightarrow> onboarding \<times> bool" where
  "submit_onboarding m =
     (let gpgVal = ob_inputs m ! 1; serverVal = ob_inputs m ! 0 in
      if gpgVal = [] then (m, False)
      else (m\<lparr>ob_result := Some \<lparr>or_ServerAddr = (if serverVal = [] then ''localhost:50051'' else serverVal),
                                or_GPGKeyID = gpgVal\<rparr>\<rparr>, True))"

definition onboarding_Update :: "(tea_msg \<Rightarrow> string \<Rightarrow> string) \<Rightarrow> onboarding \<Rightarrow> tea_msg \<Rightarrow> onboarding \<times> bool" where
  "onboarding_Update edit m msg =
     (case msg of
        KeyPress key \<Rightarrow>
          if key = ''ctrl+c'' \<or> key = ''esc'' then (m\<lparr>ob_err := Some (Errorf ''onboarding cancelled'')\<rparr>, True)
          else if key = ''tab'' \<or> key = ''enter'' then
            (if ob_focused m = length (ob_inputs m) - 1 then submit_onboarding m
             else (m\<lparr>ob_focused := Suc (ob_focused m)\<rparr>, False))
          else if key = ''shift+tab'' \<and> 0 < ob_focused m then (m\<lparr>ob_focused := ob_focused m - 1\<rparr>, False)
          else (update_focused edit msg m, False)
      | _ \<Rightarrow> (update_focused edit msg m, False))"

text \<open>A failure of the terminal program, or the messages until it quits; \<open>None\<close> is still running.\<close>

definition RunOnboarding :: "(tea_msg \<Rightarrow> string \<Rightarrow> string) \<Rightarrow> go_error option \<Rightarrow> tea_msg list \<Rightarrow>
    (go_error + onboarding_result) option" where
  "RunOnboarding edit runErr msgs =
     (case runErr of
        Some e \<Rightarrow> Some (Inl (WrapErr ''onboarding TUI error'' e))
      | None \<Rightarrow>
          map_option (\<lambda>final. case ob_err final of
              Some e \<Rightarrow> Inl e
            | None \<Rightarrow> (case ob_result final of
                         None \<Rightarrow> Inl (Errorf ''onboarding incomplete'')
                       | Some r \<Rightarrow> Inr r))
            (tea_run (onboarding_Update edit) newOnboardingModel msgs))"

subsection \<open>The health check\<close>

record health_model =
  hm_frame :: string
  hm_message :: string
  hm_done :: bool
  hm_err :: "go_error option"

definition newHealthModel :: health_model where
  "newHealthModel = \<lparr>hm_frame = ''|'', hm_message = ''Testing connection...'', hm_done = False, hm_err = None\<rparr>"

definition health_Update :: "health_model \<Rightarrow> tea_msg \<Rightarrow> health_model \<times> bool" where
  "health_Update m msg =
     (case msg of
        HealthCheckMsg r \<Rightarrow> (m\<lparr>hm_done := True, hm_err := r\<rparr>, True)
      | KeyPress key \<Rightarrow>
          if key = ''ctrl+c'' then (m\<lparr>hm_done := True, hm_err := Some (Errorf ''cancelled'')\<rparr>, True) else (m, False)
      | SpinnerTick frame \<Rightarrow> (m\<lparr>hm_frame := frame\<rparr>, False)
      | OtherMsg \<Rightarrow> (m, False))"

definition health_View :: "health_model \<Rightarrow> string" where
  "health_View m = (if hm_done m then [] else ''  '' @ hm_frame m @ '' '' @ hm_message m)"

text \<open>The goroutine: a connection of its own, which is closed again.\<close>

definition check_server :: "('n, 'g, 'f) client_env \<Rightarrow> string \<Rightarrow> ('n, 'g, 'f) client \<Rightarrow>
    go_error option \<times> ('n, 'g, 'f) client" where
  "check_server E serverAddr c =
     (case NewClient E serverAddr c of
        Inl e \<Rightarrow> (Some e, c)
      | Inr c \<Rightarrow> (case CheckHealth E c of (r, c) \<Rightarrow> (r, snd (Client_Close E c))))"

text \<open>\<open>before\<close> are the messages that arrive before that of the goroutine.\<close>

definition runHealthCheck :: "('n, 'g, 'f) client_env \<Rightarrow> string \<Rightarrow> go_error option \<Rightarrow> tea_msg list \<Rightarrow>
    ('n, 'g, 'f) client \<Rightarrow> go_error option \<times> ('n, 'g, 'f) client" where
  "runHealthCheck E serverAddr runErr before c =
     (case check_server E serverAddr c of
        (r, c) \<Rightarrow>
          (case runErr of
             Some e \<Rightarrow> (Some e, c)
           | None \<Rightarrow>
              (case tea_run health_Update newHealthModel (before @ [HealthCheckMsg r]) of
                 Some final \<Rightarrow> (hm_err final, c)
               | None \<Rightarrow> (None, c))))"

subsection \<open>init\<close>

text \<open>What the terminal brings to a run of \<^verbatim>\<open>init\<close>.\<close>

record init_terminal =
  it_edit :: "tea_msg \<Rightarrow> string \<Rightarrow> string"
  it_form_err :: "go_error option"
  it_form :: "tea_msg list"
  it_check_err :: "go_error option"
  it_check :: "tea_msg list"

text \<open>
  The session goes first, before the form is answered. A connection that fails its test is
  shown and no error. \<open>None\<close>: the form still waits.
\<close>

definition init_cmd :: "('n, 'g, 'f) client_env \<Rightarrow> ('v, 'f) settings_lib \<Rightarrow> init_terminal \<Rightarrow> bool \<Rightarrow> 'v viper_config \<Rightarrow>
    io \<Rightarrow> ('n, 'g, 'f) client \<Rightarrow> (go_error option \<times> 'v viper_config \<times> io \<times> ('n, 'g, 'f) client) option" where
  "init_cmd E S T force cfg s c =
     (if \<not> IsUnconfigured S cfg \<and> \<not> force
      then Some (None, cfg, put (SuccessShown ''Client already configured (use --force to reconfigure)'') s, c)
      else
        (let c = snd (ClearSession E (vc_cfgDir cfg) c) in
         case RunOnboarding (it_edit T) (it_form_err T) (it_form T) of
           None \<Rightarrow> None
         | Some (Inl e) \<Rightarrow> Some (Some e, cfg, put (ErrorShown e) s, c)
         | Some (Inr result) \<Rightarrow>
            (case WriteConfig S (or_ServerAddr result) (or_GPGKeyID result) cfg (cl_files c) of
               (Some e, cfg, fs) \<Rightarrow> Some (Some e, cfg, put (ErrorShown e) s, c\<lparr>cl_files := fs\<rparr>)
             | (None, cfg, fs) \<Rightarrow>
                 let c = c\<lparr>cl_files := fs\<rparr>; s = put (SuccessShown (''Config written to '' @ ConfigPath cfg)) s
                 in (case runHealthCheck E (or_ServerAddr result) (it_check_err T) (it_check T) c of
                       (Some e, c) \<Rightarrow>
                         Some (None, cfg, puts [ErrorShown (WrapErr ''connection test failed'' e),
                           ErrText ''  Check that the server is running and the address is correct.''] s, c)
                     | (None, c) \<Rightarrow> Some (None, cfg, put (SuccessShown ''Server connection verified'') s, c)))))"

subsection \<open>What onboarding yields\<close>

definition onboarding_ok :: "onboarding \<Rightarrow> bool" where
  "onboarding_ok m \<longleftrightarrow> length (ob_inputs m) = 2 \<and> length (ob_labels m) = 2 \<and> ob_focused m < 2 \<and>
     (\<forall>r. ob_result m = Some r \<longrightarrow> or_ServerAddr r \<noteq> [] \<and> or_GPGKeyID r \<noteq> [])"

lemma onboarding_ok_new: "onboarding_ok newOnboardingModel"
  by (simp add: onboarding_ok_def newOnboardingModel_def)

lemma onboarding_ok_steps:
  assumes "onboarding_ok m"
  shows "onboarding_ok (update_focused edit msg m)" "onboarding_ok (fst (submit_onboarding m))"
    "onboarding_ok (m\<lparr>ob_err := e\<rparr>)" "onboarding_ok (m\<lparr>ob_focused := ob_focused m - 1\<rparr>)"
    "ob_focused m \<noteq> length (ob_inputs m) - 1 \<Longrightarrow> onboarding_ok (m\<lparr>ob_focused := Suc (ob_focused m)\<rparr>)"
  using assms by (auto simp: onboarding_ok_def update_focused_def submit_onboarding_def Let_def)

lemma onboarding_ok_Update:
  assumes ok: "onboarding_ok m" and step: "onboarding_Update edit m msg = (m', q)"
  shows "onboarding_ok m'"
proof (cases msg)
  case (KeyPress key)
  have choice: "onboarding_ok (fst (if cancel then (m\<lparr>ob_err := Some (Errorf ''onboarding cancelled'')\<rparr>, True)
      else if forw then (if ob_focused m = length (ob_inputs m) - 1 then submit_onboarding m
             else (m\<lparr>ob_focused := Suc (ob_focused m)\<rparr>, False))
      else if prev \<and> 0 < ob_focused m then (m\<lparr>ob_focused := ob_focused m - 1\<rparr>, False)
      else (update_focused edit msg m, False)))" for cancel forw prev
    using onboarding_ok_steps [OF ok] by simp
  from step choice [of "key = ''ctrl+c'' \<or> key = ''esc''" "key = ''tab'' \<or> key = ''enter''" "key = ''shift+tab''"]
  show ?thesis by (simp only: onboarding_Update_def KeyPress tea_msg.case fst_conv)
qed (use step onboarding_ok_steps(1) [OF ok, of edit msg] in \<open>simp_all add: onboarding_Update_def\<close>)

lemma RunOnboarding_complete:
  assumes "RunOnboarding edit runErr msgs = Some (Inr r)"
  shows "or_ServerAddr r \<noteq> [] \<and> or_GPGKeyID r \<noteq> []"
proof -
  from assms obtain final where run: "tea_run (onboarding_Update edit) newOnboardingModel msgs = Some final"
    and r: "ob_result final = Some r"
    by (auto simp: RunOnboarding_def split: option.splits)
  have "onboarding_ok final"
    by (rule tea_run_inv [where P = onboarding_ok, OF onboarding_ok_Update onboarding_ok_new run])
  with r show ?thesis by (simp add: onboarding_ok_def)
qed

text \<open>The check ends, and it is without error exactly when it was not interrupted and the server is well.\<close>

lemma health_Update_simps [simp]:
  "health_Update m (HealthCheckMsg r) = (m\<lparr>hm_done := True, hm_err := r\<rparr>, True)"
  "health_Update m (SpinnerTick f) = (m\<lparr>hm_frame := f\<rparr>, False)"
  "health_Update m OtherMsg = (m, False)"
  "key \<noteq> ''ctrl+c'' \<Longrightarrow> health_Update m (KeyPress key) = (m, False)"
  "health_Update m (KeyPress ''ctrl+c'') = (m\<lparr>hm_done := True, hm_err := Some (Errorf ''cancelled'')\<rparr>, True)"
  by (simp_all add: health_Update_def)

lemma health_run:
  assumes "\<forall>x. HealthCheckMsg x \<notin> set before"
  shows "\<exists>m'. tea_run health_Update m (before @ [HealthCheckMsg r]) = Some m' \<and>
     hm_err m' = (if KeyPress ''ctrl+c'' \<in> set before then Some (Errorf ''cancelled'') else r)"
  using assms
proof (induction before arbitrary: m)
  case Nil
  then show ?case by simp
next
  case (Cons msg before)
  then have rest: "\<forall>x. HealthCheckMsg x \<notin> set before" by simp
  note IH = Cons.IH [OF rest]
  show ?case
  proof (cases msg)
    case (KeyPress key)
    with IH [of m] show ?thesis by (cases "key = ''ctrl+c''") simp_all
  next
    case (HealthCheckMsg x)
    with Cons.prems show ?thesis by (metis list.set_intros(1))
  qed (use IH in simp_all)
qed

lemma health_ok_iff:
  assumes "\<forall>x. HealthCheckMsg x \<notin> set before"
  shows "fst (runHealthCheck E addr None before c) = None \<longleftrightarrow>
    KeyPress ''ctrl+c'' \<notin> set before \<and> fst (check_server E addr c) = None"
proof -
  obtain r c' where check: "check_server E addr c = (r, c')" by (cases "check_server E addr c")
  from health_run [OF assms, of newHealthModel r] show ?thesis
    by (cases "KeyPress ''ctrl+c'' \<in> set before") (auto simp: runHealthCheck_def check)
qed

text \<open>An \<^verbatim>\<open>init\<close> that wrote the configuration leaves a client that counts as configured.\<close>

lemma init_configures:
  assumes lib: "settings S env"
    and run: "init_cmd E S T True cfg s c = Some (None, cfg', s', c')"
  shows "\<not> IsUnconfigured S cfg' \<and> ServerAddr S cfg' \<noteq> []"
proof -
  from run obtain result fs where form: "RunOnboarding (it_edit T) (it_form_err T) (it_form T) = Some (Inr result)"
    and saved: "WriteConfig S (or_ServerAddr result) (or_GPGKeyID result) cfg
        (cl_files (snd (ClearSession E (vc_cfgDir cfg) c))) = (None, cfg', fs)"
    by (auto simp: init_cmd_def Let_def split: option.splits sum.splits prod.splits if_split_asm)
  from RunOnboarding_complete [OF form] have full: "or_ServerAddr result \<noteq> []" "or_GPGKeyID result \<noteq> []" by simp_all
  from saved have "cfg' = SetOverride S ''gpg_key_id'' (or_GPGKeyID result)
      (SetOverride S ''server_addr'' (or_ServerAddr result) cfg)"
    by (auto simp: WriteConfig_def Let_def split: prod.splits option.splits)
  with full settings.override_configures [OF lib full(2)] settings.get_override [OF lib] show ?thesis by simp
qed

end
