(* ===== verification/Server_Setup.thy ===== *)
theory Server_Setup
  imports Setup Server_Safety
begin

text \<open>
  The commands of \<^verbatim>\<open>internal/adapters/cli/server\<close>: registering a public key and starting the
  server. The sources of the key (a file, the environment, the standard input, a form) are a
  record; serving itself is what follows the server that \<open>start_cmd\<close> returns.
\<close>

subsection \<open>The form\<close>

record pubkey_model =
  pm_text :: string
  pm_result :: string
  pm_err :: "go_error option"
  pm_done :: bool

definition newPubkeyModel :: pubkey_model where
  "newPubkeyModel = \<lparr>pm_text = [], pm_result = [], pm_err = None, pm_done = False\<rparr>"

definition pubkey_Update :: "(tea_msg \<Rightarrow> string \<Rightarrow> string) \<Rightarrow> pubkey_model \<Rightarrow> tea_msg \<Rightarrow> pubkey_model \<times> bool" where
  "pubkey_Update edit m msg =
     (case msg of
        KeyPress key \<Rightarrow>
          if key = ''ctrl+c'' then (m\<lparr>pm_err := Some (Errorf ''cancelled''), pm_done := True\<rparr>, True)
          else if key = ''ctrl+s'' then
            (if pm_text m = [] then (m, False) else (m\<lparr>pm_result := pm_text m, pm_done := True\<rparr>, True))
          else (m\<lparr>pm_text := edit msg (pm_text m)\<rparr>, False)
      | _ \<Rightarrow> (m\<lparr>pm_text := edit msg (pm_text m)\<rparr>, False))"

definition runPubkeyTUI :: "(tea_msg \<Rightarrow> string \<Rightarrow> string) \<Rightarrow> go_error option \<Rightarrow> tea_msg list \<Rightarrow> (go_error + bytes) option" where
  "runPubkeyTUI edit runErr msgs =
     (case runErr of
        Some e \<Rightarrow> Some (Inl (WrapErr ''TUI error'' e))
      | None \<Rightarrow>
          map_option (\<lambda>final. case pm_err final of
              Some e \<Rightarrow> Inl e
            | None \<Rightarrow> if pm_result final = [] then Inl (Errorf ''no key provided'') else Inr (pm_result final))
            (tea_run (pubkey_Update edit) newPubkeyModel msgs))"

subsection \<open>Where the key comes from\<close>

record key_sources =
  ks_read_file :: "string \<Rightarrow> go_error + bytes"
  ks_env :: string
  ks_tty :: bool
  ks_stdin :: "go_error + bytes"
  ks_edit :: "tea_msg \<Rightarrow> string \<Rightarrow> string"
  ks_form_err :: "go_error option"
  ks_form :: "tea_msg list"

text \<open>The bytes and a description of the source; \<open>None\<close>: the form still waits.\<close>

definition readPublicKeyInput :: "key_sources \<Rightarrow> string \<Rightarrow> (go_error + bytes \<times> string) option" where
  "readPublicKeyInput K pubKeyFile =
     (if pubKeyFile \<noteq> [] then
        Some (case ks_read_file K pubKeyFile of
                Inl e \<Rightarrow> Inl (WrapErr ''failed to read public key file'' e)
              | Inr data \<Rightarrow> Inr (data, ''file: '' @ pubKeyFile))
      else if ks_env K \<noteq> [] then Some (Inr (ks_env K, ''env: SEKEVE_PUBKEY''))
      else if \<not> ks_tty K then
        Some (case ks_stdin K of
                Inl e \<Rightarrow> Inl (WrapErr ''failed to read public key from stdin'' e)
              | Inr data \<Rightarrow>
                  if data = [] then Inl (Errorf ''no public key provided; set SEKEVE_PUBKEY or use --pubkey-file'')
                  else Inr (data, ''stdin''))
      else map_option (map_sum id (\<lambda>data. (data, ''interactive paste'')))
             (runPubkeyTUI (ks_edit K) (ks_form_err K) (ks_form K)))"

subsection \<open>init and start\<close>

text \<open>
  The database file: whether opening it or creating a bucket fails, and what is in it. The
  deferred closing has no effect on the result.
\<close>

record 'b database =
  db_open_err :: "go_error option"
  db_bucket_err :: "bytes \<Rightarrow> go_error option"
  db_content :: "'b store option"

definition open_store :: "'b bolt \<Rightarrow> 'b database \<Rightarrow> go_error + 'b store" where
  "open_store B db = NewBboltStore B (db_open_err db) (db_bucket_err db) (db_content db)"

definition server_init_cmd :: "'g gpg \<Rightarrow> 'b bolt \<Rightarrow> key_sources \<Rightarrow> string \<Rightarrow> 'b database \<Rightarrow> 'g \<Rightarrow> world \<Rightarrow>
    (go_error option \<times> 'b database \<times> 'g \<times> world) option" where
  "server_init_cmd G B K pubKeyFile db g w =
     (case readPublicKeyInput K pubKeyFile of
        None \<Rightarrow> None
      | Some (Inl e) \<Rightarrow> Some (Some e, db, g, w)
      | Some (Inr (rawKey, _)) \<Rightarrow>
         (case ValidateArmoredPublicKey G rawKey g of
            (Inl e, g) \<Rightarrow> Some (Some e, db, g, w)
          | (Inr pubKey, g) \<Rightarrow>
             (case open_store B db of
                Inl e \<Rightarrow> Some (Some e, db, g, w)
              | Inr st \<Rightarrow>
                 (case StoreAuthKey B pubKey st w of
                    (r, st, w) \<Rightarrow> Some (r, db\<lparr>db_content := Some st\<rparr>, g, w)))))"

definition start_cmd :: "('b, 'g) deps \<Rightarrow> 'b database \<Rightarrow> 'g \<Rightarrow> go_error + ('b, 'g) server" where
  "start_cmd D db g =
     (case open_store (d_bolt D) db of
        Inl e \<Rightarrow> Inl e
      | Inr st \<Rightarrow>
         (case GetAuthKey (d_bolt D) st of
            Inl e \<Rightarrow>
              if errors_is e ErrNotFound
              then Inl (Errorf (''no public key registered; run '' @ [CHR 0x27] @ ''sekeve server init'' @ [CHR 0x27] @ '' first''))
              else Inl e
          | Inr pubKey \<Rightarrow> Inr (NewServer D st (NewAuthManager pubKey) g)))"

subsection \<open>A registered key is the key of the server\<close>

lemma NewBboltStore_reopen:
  "NewBboltStore B openErr bucketErr existing = Inr st0 \<Longrightarrow> NewBboltStore B openErr bucketErr (Some st) = Inr st"
  unfolding NewBboltStore_def
  by (cases openErr; cases "find (\<lambda>b. bucketErr b \<noteq> None) [''entries'', ''index_type'', ''auth'']")
     (simp_all del: find.simps)

lemma StoreAuthKey_read_back:
  assumes "bbolt B" and "StoreAuthKey B pubKey st w = (None, st', w')"
  shows "GetAuthKey B st' = Inr pubKey"
proof -
  from assms(2) obtain b where "b_put B (bucketAuth st) keyGPGPublicKey pubKey = Inr b" "st' = st\<lparr>bucketAuth := b\<rparr>"
    by (cases "b_put B (bucketAuth st) keyGPGPublicKey pubKey")
       (auto simp: StoreAuthKey_def db_update_def bind_err_def split: option.splits)
  with bbolt.put_get [OF assms(1), of "bucketAuth st" keyGPGPublicKey pubKey b keyGPGPublicKey] show ?thesis
    by (simp add: GetAuthKey_def)
qed

lemma NewServer_key: "GPGPublicKey (auth (NewServer D st (NewAuthManager pubKey) g)) = pubKey"
  by (auto simp: NewServer_def Let_def GPGPublicKey_def NewAuthManager_def SetPINConfigured_def SetGPGFingerprint_def
      split: prod.splits sum.splits)

text \<open>
  After \<^verbatim>\<open>server init\<close> succeeded, the server that starts on the same database has the key that
  was validated, whichever source it came from.
\<close>

lemma init_then_start:
  assumes "bbolt (d_bolt D)" and "server_init_cmd G (d_bolt D) K path db g w = Some (None, db', g', w')"
  shows "\<exists>raw src pubKey g1 g2 s. readPublicKeyInput K path = Some (Inr (raw, src)) \<and>
    ValidateArmoredPublicKey G raw g1 = (Inr pubKey, g2) \<and>
    start_cmd D db' g' = Inr s \<and> GPGPublicKey (auth s) = pubKey"
proof -
  from assms(2) obtain raw src pubKey g2 st0 st where key: "readPublicKeyInput K path = Some (Inr (raw, src))"
    "ValidateArmoredPublicKey G raw g = (Inr pubKey, g2)" and st0: "open_store (d_bolt D) db = Inr st0"
    and st: "StoreAuthKey (d_bolt D) pubKey st0 w = (None, st, w')" "db' = db\<lparr>db_content := Some st\<rparr>"
    by (auto simp: server_init_cmd_def split: option.splits sum.splits prod.splits)
  from st0 st(2) have "open_store (d_bolt D) db' = Inr st"
    using NewBboltStore_reopen by (simp add: open_store_def)
  with StoreAuthKey_read_back [OF assms(1) st(1)]
  have "start_cmd D db' g' = Inr (NewServer D st (NewAuthManager pubKey) g')" by (simp add: start_cmd_def)
  with key show ?thesis using NewServer_key [of D st pubKey g'] by (intro exI conjI)
qed

end
