(* ===== verification/Commands.thy ===== *)
theory Commands
  imports Setup
begin

text \<open>
  Around the commands: the tree of \<^verbatim>\<open>internal/adapters/cli/root.go\<close> and what the hooks before a
  command put in its context (\<^verbatim>\<open>WithGUI\<close> of \<^verbatim>\<open>client/setup.go\<close>, the accessors of
  \<^verbatim>\<open>cliconfig.go\<close>), the process that starts itself again for the layer shell, and the
  clipboard of \<^verbatim>\<open>pkg/clipboard\<close>. Which hooks cobra runs for a command is a parameter.
\<close>

subsection \<open>The context of a command\<close>

datatype 'a go = Ok 'a | Panic string

record cmd_context =
  cx_config :: bool
  cx_pinPrompt :: bool
  cx_gui :: bool
  cx_crypto :: bool
  cx_notify :: bool

definition background :: cmd_context where
  "background = \<lparr>cx_config = False, cx_pinPrompt = False, cx_gui = False, cx_crypto = False, cx_notify = False\<rparr>"

text \<open>What the \<^verbatim>\<open>With\<close> functions put in; the value itself is one of the parameters of the client.\<close>

definition WithConfig :: "cmd_context \<Rightarrow> cmd_context" where
  [simp]: "WithConfig ctx = ctx\<lparr>cx_config := True\<rparr>"

definition WithPINPrompt :: "cmd_context \<Rightarrow> cmd_context" where
  [simp]: "WithPINPrompt ctx = ctx\<lparr>cx_pinPrompt := True\<rparr>"

definition WithGUIPort :: "cmd_context \<Rightarrow> cmd_context" where
  [simp]: "WithGUIPort ctx = ctx\<lparr>cx_gui := True\<rparr>"

definition WithCrypto :: "cmd_context \<Rightarrow> cmd_context" where
  [simp]: "WithCrypto ctx = ctx\<lparr>cx_crypto := True\<rparr>"

definition WithNotify :: "cmd_context \<Rightarrow> cmd_context" where
  [simp]: "WithNotify ctx = ctx\<lparr>cx_notify := True\<rparr>"

definition ConfigFromCmd :: "cmd_context \<Rightarrow> unit go" where
  "ConfigFromCmd ctx =
     (if cx_config ctx then Ok ()
      else Panic ''ConfigFromCmd: no config in context; ensure WithConfig was called in PersistentPreRunE'')"

definition PINPromptFromCtx :: "cmd_context \<Rightarrow> unit go" where
  "PINPromptFromCtx ctx =
     (if cx_pinPrompt ctx then Ok ()
      else Panic ''PINPromptFromCtx: no PINPromptPort in context; ensure WithPINPrompt was called before ConnectAndAuth'')"

definition GUIFromCtx :: "cmd_context \<Rightarrow> unit go" where
  "GUIFromCtx ctx =
     (if cx_gui ctx then Ok () else Panic ''GUIFromCtx: no GUIPort in context; ensure WithGUI was called'')"

definition CryptoFromCtx :: "cmd_context \<Rightarrow> unit go" where
  "CryptoFromCtx ctx =
     (if cx_crypto ctx then Ok ()
      else Panic ''CryptoFromCtx: no CryptoPort in context; ensure WithCrypto was called before ConnectAndAuth'')"

text \<open>Notifications are not critical: without a notifier in the context they go nowhere.\<close>

definition noopNotifier :: "'a \<Rightarrow> 'c \<Rightarrow> go_error option \<times> 'c" where
  "noopNotifier x c = (None, c)"

definition NotifyFromCtx :: "cmd_context \<Rightarrow> ('a \<Rightarrow> 'c \<Rightarrow> go_error option \<times> 'c) \<Rightarrow> 'a \<Rightarrow> 'c \<Rightarrow> go_error option \<times> 'c" where
  "NotifyFromCtx ctx n = (if cx_notify ctx then n else noopNotifier)"

lemma notify_never_panics: "\<not> cx_notify ctx \<Longrightarrow> NotifyFromCtx ctx n x c = (None, c)"
  by (simp add: NotifyFromCtx_def noopNotifier_def)

text \<open>
  The connection of a command as far as its context goes: the configuration is asked first,
  then the crypto adapter and, once the client is there, the prompt. It also stands for the
  connection of \<^verbatim>\<open>omnibox\<close> by \<^verbatim>\<open>ConnectAndAuthDeferPIN\<close>, which asks for the configuration and the
  crypto adapter in the same order.
\<close>

definition connect_in :: "cmd_context \<Rightarrow> ('n, 'g, 'f) command \<Rightarrow> ('n, 'g, 'f) client \<Rightarrow>
    (go_error option \<times> string list \<times> ('n, 'g, 'f) client) go" where
  "connect_in ctx K c =
     (case ConfigFromCmd ctx of
        Panic m \<Rightarrow> Panic m
      | Ok _ \<Rightarrow>
          if k_unconfigured K then Ok (connect K c)
          else (case CryptoFromCtx ctx of
                  Panic m \<Rightarrow> Panic m
                | Ok _ \<Rightarrow>
                   (case NewClientApp (k_env K) (k_server K) c of
                      Inl e \<Rightarrow> Ok (connect K c)
                    | Inr _ \<Rightarrow> (case PINPromptFromCtx ctx of Panic m \<Rightarrow> Panic m | Ok _ \<Rightarrow> Ok (connect K c)))))"

subsection \<open>The tree of commands\<close>

text \<open>
  A command: its name, whether it has the persistent hook of the root, whether it has the
  hook of \<^verbatim>\<open>WithGUI\<close>, and its subcommands.
\<close>

datatype cobra = Cobra (cc_use: string) (cc_persistent: bool) (cc_gui: bool) (cc_children: "cobra list")

definition plain_cmd :: "string \<Rightarrow> cobra" where "plain_cmd name = Cobra name False False []"

fun WithGUI :: "cobra \<Rightarrow> cobra" where
  "WithGUI (Cobra name p g cs) = Cobra name p True cs"

definition NewAddCmd :: cobra where
  "NewAddCmd = Cobra ''add'' False False [plain_cmd ''login'', plain_cmd ''secret'', plain_cmd ''note'']"

definition NewImportCmd :: cobra where
  "NewImportCmd = Cobra ''import'' False False [plain_cmd ''bitwarden'']"

definition NewPINCmd :: cobra where
  "NewPINCmd = Cobra ''pin'' False False [plain_cmd ''set'', plain_cmd ''change'']"

definition NewRootCmd :: cobra where
  "NewRootCmd = Cobra ''sekeve'' True False
     [plain_cmd ''version'',
      WithGUI NewAddCmd, WithGUI (plain_cmd ''get''), WithGUI (plain_cmd ''list''),
      WithGUI (plain_cmd ''edit''), WithGUI (plain_cmd ''rm''), WithGUI (plain_cmd ''search''),
      WithGUI (plain_cmd ''dmenu''), WithGUI (plain_cmd ''omnibox''), plain_cmd ''init'',
      WithGUI NewImportCmd, WithGUI (plain_cmd ''inject''), WithGUI NewPINCmd,
      Cobra ''server'' False False [plain_cmd ''start'', plain_cmd ''init'']]"

text \<open>The commands from the root down to the one that the arguments name.\<close>

fun command_path :: "cobra \<Rightarrow> string list \<Rightarrow> cobra list option" where
  "command_path c [] = Some [c]"
| "command_path c (a # as) =
     (case find (\<lambda>d. cc_use d = a) (cc_children c) of
        None \<Rightarrow> None
      | Some d \<Rightarrow> map_option ((#) c) (command_path d as))"

subsection \<open>The hooks\<close>

datatype hook = RootPersistentPreRun | GUIPreRun

fun run_hook :: "hook \<Rightarrow> cmd_context \<Rightarrow> cmd_context" where
  "run_hook RootPersistentPreRun ctx = WithConfig ctx"
| "run_hook GUIPreRun ctx = WithNotify (WithCrypto (WithGUIPort (WithPINPrompt ctx)))"

definition command_context :: "(cobra list \<Rightarrow> hook list) \<Rightarrow> cobra list \<Rightarrow> cmd_context" where
  "command_context pre_run path = fold run_hook (pre_run path) background"

text \<open>
  What cobra documents: a persistent hook is inherited, so the nearest one on the path runs;
  \<^verbatim>\<open>PreRunE\<close> is not, so only that of the command itself runs, after it.
\<close>

definition cobra_hooks :: "(cobra list \<Rightarrow> hook list) \<Rightarrow> bool" where
  "cobra_hooks pre_run \<longleftrightarrow>
     (\<forall>path. path \<noteq> [] \<longrightarrow>
        pre_run path = (if \<exists>c\<in>set path. cc_persistent c then [RootPersistentPreRun] else []) @
                       (if cc_gui (last path) then [GUIPreRun] else []))"

subsection \<open>The layer shell\<close>

definition os_Getenv :: "string list \<Rightarrow> string \<Rightarrow> string" where
  "os_Getenv env key =
     (case find (\<lambda>e. has_prefix e (key @ ''='')) env of None \<Rightarrow> [] | Some e \<Rightarrow> drop (Suc (length key)) e)"

definition layer_shell_paths :: "string list" where
  "layer_shell_paths =
     [''/usr/lib/libgtk4-layer-shell.so.0'', ''/usr/lib64/libgtk4-layer-shell.so.0'',
      ''/usr/lib/x86_64-linux-gnu/libgtk4-layer-shell.so.0'', ''/usr/lib/aarch64-linux-gnu/libgtk4-layer-shell.so.0'',
      ''/usr/local/lib/libgtk4-layer-shell.so.0'', ''/usr/local/lib64/libgtk4-layer-shell.so.0'',
      ''/app/lib/libgtk4-layer-shell.so.0'']"

definition findLayerShellLib :: "(string \<Rightarrow> bool) \<Rightarrow> string" where
  "findLayerShellLib exists_file = (case find exists_file layer_shell_paths of None \<Rightarrow> [] | Some p \<Rightarrow> p)"

fun set_preload :: "string \<Rightarrow> string list \<Rightarrow> string list" where
  "set_preload preload [] = [''LD_PRELOAD='' @ preload]"
| "set_preload preload (e # env) =
     (if has_prefix e ''LD_PRELOAD='' then (''LD_PRELOAD='' @ preload) # env else e # set_preload preload env)"

text \<open>The program and environment to execute in place of the process, if any.\<close>

definition ensureLayerShell :: "(string \<Rightarrow> bool) \<Rightarrow> string option \<Rightarrow> string list \<Rightarrow> (string \<times> string list) option" where
  "ensureLayerShell exists_file self env =
     (if os_Getenv env ''WAYLAND_DISPLAY'' = [] then None
      else if contains (os_Getenv env ''LD_PRELOAD'') ''libgtk4-layer-shell'' then None
      else let libPath = findLayerShellLib exists_file in
        if libPath = [] then None
        else let preload = os_Getenv env ''LD_PRELOAD'';
                 preload = (if preload \<noteq> [] then preload @ '':'' else preload) @ libPath
             in (case self of None \<Rightarrow> None | Some exe \<Rightarrow> Some (exe, set_preload preload env)))"

subsection \<open>The clipboard\<close>

definition clipboard_cmd :: "string list \<Rightarrow> string list \<times> string" where
  "clipboard_cmd env =
     (if os_Getenv env ''WAYLAND_DISPLAY'' \<noteq> [] then ([''wl-copy''], ''wl-copy'')
      else ([''xclip'', ''-selection'', ''clipboard''], ''xclip''))"

definition clipboard_Copy :: "(string list \<Rightarrow> string \<Rightarrow> go_error option) \<Rightarrow> string list \<Rightarrow> string \<Rightarrow> go_error option" where
  "clipboard_Copy run env val =
     (case clipboard_cmd env of (argv, name) \<Rightarrow> map_option (WrapErr (name @ '' failed'')) (run argv val))"

subsection \<open>Which commands can connect\<close>

definition direct_commands :: "string list list" where
  "direct_commands = [[''get''], [''list''], [''edit''], [''rm''], [''search''], [''dmenu''], [''omnibox''], [''inject'']]"

definition nested_commands :: "string list list" where
  "nested_commands = [[''add'', ''login''], [''add'', ''secret''], [''add'', ''note''], [''import'', ''bitwarden''],
     [''pin'', ''set''], [''pin'', ''change'']]"

text \<open>The path of a command, with the hooks that count: the root has the persistent one.\<close>

definition path_facts :: "string list \<Rightarrow> bool \<Rightarrow> bool" where
  "path_facts names gui \<longleftrightarrow>
     (case command_path NewRootCmd names of
        None \<Rightarrow> False
      | Some path \<Rightarrow> path \<noteq> [] \<and> list_ex cc_persistent path \<and> cc_gui (last path) = gui)"

lemma direct_paths: "list_all (\<lambda>names. path_facts names True) direct_commands"
  by code_simp

lemma nested_paths: "list_all (\<lambda>names. path_facts names False) nested_commands"
  by code_simp

lemma context_of_path:
  assumes "cobra_hooks pre_run" and "path_facts names gui"
  obtains path where "command_path NewRootCmd names = Some path"
    "command_context pre_run path = \<lparr>cx_config = True, cx_pinPrompt = gui, cx_gui = gui, cx_crypto = gui, cx_notify = gui\<rparr>"
proof -
  from assms(2) obtain path where path: "command_path NewRootCmd names = Some path" "path \<noteq> []"
    "list_ex cc_persistent path" "cc_gui (last path) = gui"
    by (auto simp: path_facts_def split: option.splits)
  with assms(1) have "pre_run path = [RootPersistentPreRun] @ (if gui then [GUIPreRun] else [])"
    unfolding cobra_hooks_def by (auto simp: list_ex_iff)
  with path(1) that show thesis by (cases gui) (simp_all add: command_context_def background_def)
qed

text \<open>
  C40: \<^verbatim>\<open>WithGUI\<close> hangs its hook on the commands it wraps, and cobra does not run the hook of a
  parent for its subcommand. So every wrapped command that runs itself connects, and every
  subcommand of a wrapped parent (\<^verbatim>\<open>add login\<close>, \<^verbatim>\<open>add secret\<close>, \<^verbatim>\<open>add note\<close>, \<^verbatim>\<open>import bitwarden\<close>,
  \<^verbatim>\<open>pin set\<close>, \<^verbatim>\<open>pin change\<close>) panics for want of a crypto adapter once the client is configured.
\<close>

theorem nested_commands_panic:
  assumes hooks: "cobra_hooks pre_run" and configured: "\<not> k_unconfigured K"
    and nested: "nested \<in> set nested_commands" and direct: "direct \<in> set direct_commands"
  shows "(\<exists>path m. command_path NewRootCmd nested = Some path \<and>
       connect_in (command_context pre_run path) K c = Panic m) \<and>
     (\<exists>path. command_path NewRootCmd direct = Some path \<and>
       connect_in (command_context pre_run path) K c = Ok (connect K c))"
proof -
  from nested nested_paths have "path_facts nested False" by (auto simp: list_all_iff)
  from context_of_path [OF hooks this] obtain p1 where p1: "command_path NewRootCmd nested = Some p1"
    "command_context pre_run p1 = \<lparr>cx_config = True, cx_pinPrompt = False, cx_gui = False, cx_crypto = False, cx_notify = False\<rparr>" .
  from direct direct_paths have "path_facts direct True" by (auto simp: list_all_iff)
  from context_of_path [OF hooks this] obtain p2 where p2: "command_path NewRootCmd direct = Some p2"
    "command_context pre_run p2 = \<lparr>cx_config = True, cx_pinPrompt = True, cx_gui = True, cx_crypto = True, cx_notify = True\<rparr>" .
  from p1 p2 configured show ?thesis
    by (auto simp: connect_in_def ConfigFromCmd_def CryptoFromCtx_def PINPromptFromCtx_def split: sum.splits)
qed

definition cobra_pre_run :: "cobra list \<Rightarrow> hook list" where
  "cobra_pre_run path =
     (if list_ex cc_persistent path then [RootPersistentPreRun] else []) @
     (if path \<noteq> [] \<and> cc_gui (last path) then [GUIPreRun] else [])"

theorem nested_commands_panic_witness:
  "\<exists>path m. command_path NewRootCmd [''pin'', ''set''] = Some path \<and>
     connect_in (command_context cobra_pre_run path) demo_command demo_client = Panic m"
proof -
  have hooks: "cobra_hooks cobra_pre_run" by (auto simp: cobra_hooks_def cobra_pre_run_def list_ex_iff)
  have configured: "\<not> k_unconfigured demo_command" by (simp add: demo_command_def)
  have nested: "[''pin'', ''set''] \<in> set nested_commands" by (simp add: nested_commands_def)
  have direct: "[''get''] \<in> set direct_commands" by (simp add: direct_commands_def)
  from nested_commands_panic [OF hooks configured nested direct] show ?thesis by blast
qed

subsection \<open>One restart\<close>

lemma getenv_set_preload: "os_Getenv (set_preload p env) ''LD_PRELOAD'' = p"
  by (induction env) (simp_all add: os_Getenv_def has_prefix_def)

lemma layer_shell_lib: "findLayerShellLib f = [] \<or> contains (findLayerShellLib f) ''libgtk4-layer-shell''"
proof -
  have "list_all (\<lambda>p. contains p ''libgtk4-layer-shell'') layer_shell_paths" by code_simp
  then show ?thesis
    by (auto simp: findLayerShellLib_def list_all_iff find_Some_iff split: option.splits)
qed

text \<open>The process that was started again does not start itself another time.\<close>

lemma layer_shell_restarts_once:
  assumes "ensureLayerShell f self env = Some (exe, env')"
  shows "ensureLayerShell f' self' env' = None"
proof -
  define pre where "pre = (if os_Getenv env ''LD_PRELOAD'' \<noteq> [] then os_Getenv env ''LD_PRELOAD'' @ '':'' else [])"
  from assms have "env' = set_preload (pre @ findLayerShellLib f) env" "findLayerShellLib f \<noteq> []"
    by (auto simp: ensureLayerShell_def Let_def pre_def split: if_split_asm option.splits)
  with layer_shell_lib [of f] have "contains (os_Getenv env' ''LD_PRELOAD'') ''libgtk4-layer-shell''"
    by (auto simp: getenv_set_preload contains_iff) (metis append.assoc)
  then show ?thesis by (simp add: ensureLayerShell_def)
qed

end
