(* ===== verification/Storage_Spec.thy ===== *)
theory Storage_Spec
  imports Storage
begin

text \<open>
  The port of the storage as an abstract machine, and the refinement: the three buckets of
  \<open>Storage\<close>, with their JSON, their index of types and their transactions, do what a finite map
  of entries, a PIN and a key would do. The abstract machine is nondeterministic where the code
  asks the world: for the identifier, the time, and whether a transaction goes through.
\<close>

subsection \<open>Refinement by an abstraction function\<close>

text \<open>
  A step of the implementation that keeps the invariant is a step of the specification with the
  same label; then a run is a run. Labels carry the operation and what it answered.
\<close>

inductive labelled_run :: "('l \<Rightarrow> 's \<Rightarrow> 's \<Rightarrow> bool) \<Rightarrow> 'l list \<Rightarrow> 's \<Rightarrow> 's \<Rightarrow> bool" for st :: "'l \<Rightarrow> 's \<Rightarrow> 's \<Rightarrow> bool" where
  run_nil: "labelled_run st [] s s"
| run_cons: "st l s s1 \<Longrightarrow> labelled_run st ls s1 s' \<Longrightarrow> labelled_run st (l # ls) s s'"

inductive_cases labelled_run_ConsE: "labelled_run st (l # ls) s s'"

locale functional_refinement =
  fixes impl :: "'l \<Rightarrow> 's \<Rightarrow> 's \<Rightarrow> bool"
    and spec :: "'l \<Rightarrow> 'm \<Rightarrow> 'm \<Rightarrow> bool"
    and inv :: "'s \<Rightarrow> bool"
    and abst :: "'s \<Rightarrow> 'm"
  assumes step_refines: "inv s \<Longrightarrow> impl l s s' \<Longrightarrow> spec l (abst s) (abst s')"
    and step_inv: "inv s \<Longrightarrow> impl l s s' \<Longrightarrow> inv s'"
begin

lemma run_refines: "labelled_run impl ls s s' \<Longrightarrow> inv s \<Longrightarrow> labelled_run spec ls (abst s) (abst s') \<and> inv s'"
  by (induction rule: labelled_run.induct) (auto intro: labelled_run.intros step_refines step_inv)

end

subsection \<open>The implementation with its answers\<close>

fun store_answer :: "'b bolt \<Rightarrow> store_op \<Rightarrow> 'b store \<Rightarrow> world \<Rightarrow> go_error option" where
  "store_answer B (SCreate e) st w = fst (Create B e st w)"
| "store_answer B (SUpdate e) st w = fst (Update B e st w)"
| "store_answer B (SDelete k) st w = fst (DeleteByID B k st w)"
| "store_answer B (SStorePIN h salt) st w = fst (StorePINHash B h salt st w)"
| "store_answer B SDeletePIN st w = fst (DeletePINHash B st w)"
| "store_answer B (SStoreKey k) st w = fst (StoreAuthKey B k st w)"

definition store_impl :: "'b bolt \<Rightarrow> store_op \<times> go_error option \<Rightarrow> 'b store \<times> world \<Rightarrow> 'b store \<times> world \<Rightarrow> bool" where
  "store_impl B l s s' \<longleftrightarrow>
     store_op_ok B (fst l) (fst s) (snd s) \<and> snd l = store_answer B (fst l) (fst s) (snd s) \<and>
     s' = store_exec B (fst l) (fst s) (snd s)"

subsection \<open>The specification\<close>

record entry_map =
  em_entries :: "string \<Rightarrow> envelope option"
  em_pin :: "(bytes \<times> bytes) option"
  em_key :: "bytes option"

definition empty_map :: entry_map where
  "empty_map = \<lparr>em_entries = Map.empty, em_pin = None, em_key = None\<rparr>"

text \<open>The operations that work on an entry name it.\<close>

fun names_entry :: "store_op \<Rightarrow> string option" where
  "names_entry (SUpdate e) = Some (ID e)"
| "names_entry (SDelete k) = Some k"
| "names_entry _ = None"

definition missing :: "store_op \<Rightarrow> entry_map \<Rightarrow> bool" where
  "missing oper m \<longleftrightarrow> (case names_entry oper of None \<Rightarrow> False | Some k \<Rightarrow> em_entries m k = None)"

inductive spec_op :: "store_op \<times> go_error option \<Rightarrow> entry_map \<Rightarrow> entry_map \<Rightarrow> bool" where
  spec_create: "em_entries m i = None \<Longrightarrow>
    spec_op (SCreate e, None) m
      (m\<lparr>em_entries := (em_entries m)(i \<mapsto> json_envelope (e\<lparr>ID := i, CreatedAt := now, UpdatedAt := now\<rparr>))\<rparr>)"
| spec_update: "em_entries m (ID e) = Some old \<Longrightarrow>
    spec_op (SUpdate e, None) m
      (m\<lparr>em_entries := (em_entries m)(ID e \<mapsto> json_envelope (e\<lparr>CreatedAt := CreatedAt old, UpdatedAt := now\<rparr>))\<rparr>)"
| spec_delete: "em_entries m k = Some old \<Longrightarrow>
    spec_op (SDelete k, None) m (m\<lparr>em_entries := (em_entries m)(k := None)\<rparr>)"
| spec_pin: "spec_op (SStorePIN h salt, None) m (m\<lparr>em_pin := Some (h, salt)\<rparr>)"
| spec_unpin: "spec_op (SDeletePIN, None) m (m\<lparr>em_pin := None\<rparr>)"
| spec_key: "spec_op (SStoreKey k, None) m (m\<lparr>em_key := Some k\<rparr>)"
| spec_fail: "(missing oper m \<longrightarrow> e = ErrNotFound) \<Longrightarrow> spec_op (oper, Some e) m m"

definition spec_get :: "string \<Rightarrow> entry_map \<Rightarrow> go_error + envelope" where
  "spec_get k m = (case em_entries m k of None \<Rightarrow> Inl ErrNotFound | Some e \<Rightarrow> Inr e)"

definition spec_list :: "entry_type \<Rightarrow> entry_map \<Rightarrow> envelope list" where
  "spec_list t m =
     filter (\<lambda>e. t = EntryTypeUnspecified \<or> Type e = t)
       (map (\<lambda>k. the (em_entries m k)) (sorted_list_of_set (dom (em_entries m))))"

subsection \<open>Abstraction\<close>

definition store_abs :: "'b bolt \<Rightarrow> 'b store \<Rightarrow> entry_map" where
  "store_abs B s =
     \<lparr>em_entries = stored B s,
      em_pin = (case GetPINHash B s of Inl _ \<Rightarrow> None | Inr p \<Rightarrow> Some p),
      em_key = (case GetAuthKey B s of Inl _ \<Rightarrow> None | Inr k \<Rightarrow> Some k)\<rparr>"

lemma store_abs_eq:
  "em_entries (store_abs B s) = stored B s"
  "em_pin (store_abs B s) = (case GetPINHash B s of Inl _ \<Rightarrow> None | Inr p \<Rightarrow> Some p)"
  "em_key (store_abs B s) = (case GetAuthKey B s of Inl _ \<Rightarrow> None | Inr k \<Rightarrow> Some k)"
  by (simp_all add: store_abs_def)

lemma auth_same:
  "bucketAuth st' = bucketAuth st \<Longrightarrow> GetPINHash B st' = GetPINHash B st \<and> GetAuthKey B st' = GetAuthKey B st"
  by (simp add: GetPINHash_def GetAuthKey_def)

lemma store_abs_entries:
  "bucketAuth st' = bucketAuth st \<Longrightarrow> store_abs B st' = store_abs B st\<lparr>em_entries := stored B st'\<rparr>"
  by (drule auth_same [where B = B]) (simp add: store_abs_def)

context bbolt begin

lemma DeletePINHash_failed:
  assumes "DeletePINHash B st w = (Some e, st', w')"
  shows "st' = st"
proof -
  obtain r y st1 w1 where up: "db_update B (\<lambda>st w.
      (bind_err (b_delete B (bucketAuth st) keyPINHash) (\<lambda>b.
         bind_err (b_delete B b keyPINSalt) (\<lambda>b. Inr (st\<lparr>bucketAuth := b\<rparr>))), (), w)) st w
      = (r, y, st1, w1)"
    by (rule prod_cases4)
  with assms have eqs: "r = Some e" "st1 = st'" by (simp_all add: DeletePINHash_def)
  from up [unfolded eqs] show ?thesis by (rule db_update_rollback)
qed

lemma StoreAuthKey_failed: "StoreAuthKey B k st w = (Some e, st', w') \<Longrightarrow> st' = st"
  by (auto simp: StoreAuthKey_def dest: db_update_rollback split: prod.splits option.splits)

lemma DeletePINHash_key:
  assumes "DeletePINHash B st w = (None, st', w')"
  shows "GetAuthKey B st' = GetAuthKey B st"
proof -
  obtain r y st1 w1 where up: "db_update B (\<lambda>st w.
      (bind_err (b_delete B (bucketAuth st) keyPINHash) (\<lambda>b.
         bind_err (b_delete B b keyPINSalt) (\<lambda>b. Inr (st\<lparr>bucketAuth := b\<rparr>))), (), w)) st w
      = (r, y, st1, w1)"
    by (rule prod_cases4)
  with assms have eqs: "r = None" "st1 = st'" by (simp_all add: DeletePINHash_def)
  from up obtain b1 b2 where "b_delete B (bucketAuth st) keyPINHash = Inr b1"
    "b_delete B b1 keyPINSalt = Inr b2" "st' = st\<lparr>bucketAuth := b2\<rparr>"
    unfolding eqs by (cases rule: db_update_cases) (auto simp: bind_err_Inr)
  then show ?thesis
    by (simp add: GetAuthKey_def del_fun keyPINHash_def keyPINSalt_def keyGPGPublicKey_def)
qed

lemma create_refines:
  assumes inv: "store_inv B st" and ok: "fresh_uuid B st w" "int64_type e" and run: "Create B e st w = (r, e', st', w')"
  shows "spec_op (SCreate e, r) (store_abs B st) (store_abs B st')"
proof (cases r)
  case None
  note c = Create_stored [OF inv ok run [unfolded None]]
  from c(3) have "em_entries (store_abs B st) (ID e') = None" by (simp add: store_abs_eq)
  from spec_create [OF this, of e "w_clock w'"] None c show ?thesis
    by (simp add: store_abs_entries [of st' st] store_abs_eq flip: c(5))
next
  case (Some x)
  with run Create_failed have "st' = st" by blast
  with Some show ?thesis by (auto intro!: spec_fail simp: missing_def)
qed

lemma update_refines:
  assumes inv: "store_inv B st" and ok: "int64_type e" and run: "Update B e st w = (r, e', st', w')"
  shows "spec_op (SUpdate e, r) (store_abs B st) (store_abs B st')"
proof (cases r)
  case None
  note u = Update_stored [OF inv ok run [unfolded None]]
  from u(1) obtain old where old: "stored B st (ID e) = Some old"
    "e' = e\<lparr>CreatedAt := CreatedAt old, UpdatedAt := w_clock w'\<rparr>" by blast
  then have "em_entries (store_abs B st) (ID e) = Some old" by (simp add: store_abs_eq)
  from spec_update [OF this, of "w_clock w'"] None u(2) old(2) show ?thesis
    by (simp add: store_abs_entries [OF u(3)] store_abs_eq)
next
  case (Some x)
  with run Update_failed have "st' = st" by blast
  moreover have "stored B st (ID e) = None \<Longrightarrow> x = ErrNotFound"
    using Update_missing [OF inv, of e w] run Some by auto
  ultimately show ?thesis using Some
    by (auto intro!: spec_fail simp: missing_def store_abs_eq)
qed

lemma delete_refines:
  assumes inv: "store_inv B st" and run: "DeleteByID B k st w = (r, st', w')"
  shows "spec_op (SDelete k, r) (store_abs B st) (store_abs B st')"
proof (cases r)
  case None
  note d = DeleteByID_stored [OF inv run [unfolded None]]
  from d(1) obtain old where "em_entries (store_abs B st) k = Some old" by (auto simp: store_abs_eq)
  from spec_delete [OF this] None d(2) show ?thesis
    by (simp add: store_abs_entries [OF d(3)] store_abs_eq)
next
  case (Some x)
  with run DeleteByID_failed have "st' = st" by blast
  moreover have "stored B st k = None \<Longrightarrow> x = ErrNotFound"
    using DeleteByID_missing [OF inv, of k w] run Some by auto
  ultimately show ?thesis using Some
    by (auto intro!: spec_fail simp: missing_def store_abs_eq)
qed

lemma auth_refines:
  "StorePINHash B h salt st w = (r, st', w') \<Longrightarrow>
    spec_op (SStorePIN h salt, r) (store_abs B st) (store_abs B st')"
  "DeletePINHash B st w = (r, st', w') \<Longrightarrow> spec_op (SDeletePIN, r) (store_abs B st) (store_abs B st')"
  "StoreAuthKey B k st w = (r, st', w') \<Longrightarrow> spec_op (SStoreKey k, r) (store_abs B st) (store_abs B st')"
proof -
  let ?m = "store_abs B st"
  have fail: "spec_op (oper, Some e) ?m (store_abs B st')" if "st' = st" "names_entry oper = None" for oper e
    using that by (auto intro!: spec_fail simp: missing_def)
  show "spec_op (SStorePIN h salt, r) ?m (store_abs B st')" if run: "StorePINHash B h salt st w = (r, st', w')"
  proof (cases r)
    case None
    from StorePINHash_get [OF run [unfolded None]] have "store_abs B st' = ?m\<lparr>em_pin := Some (h, salt)\<rparr>"
      by (simp add: store_abs_def)
    with None spec_pin show ?thesis by simp
  next
    case (Some e)
    with run have "st' = st" by (simp add: StorePINHash_failed)
    with fail Some show ?thesis by simp
  qed
  show "spec_op (SDeletePIN, r) ?m (store_abs B st')" if run: "DeletePINHash B st w = (r, st', w')"
  proof (cases r)
    case None
    from DeletePINHash_get [OF run [unfolded None]] DeletePINHash_key [OF run [unfolded None]]
    have "store_abs B st' = ?m\<lparr>em_pin := None\<rparr>" by (simp add: store_abs_def)
    with None spec_unpin show ?thesis by simp
  next
    case (Some e)
    with run have "st' = st" by (simp add: DeletePINHash_failed)
    with fail Some show ?thesis by simp
  qed
  show "spec_op (SStoreKey k, r) ?m (store_abs B st')" if run: "StoreAuthKey B k st w = (r, st', w')"
  proof (cases r)
    case None
    from StoreAuthKey_get [OF run [unfolded None]] have "store_abs B st' = ?m\<lparr>em_key := Some k\<rparr>"
      by (simp add: store_abs_def)
    with None spec_key show ?thesis by simp
  next
    case (Some e)
    with run have "st' = st" by (simp add: StoreAuthKey_failed)
    with fail Some show ?thesis by simp
  qed
qed

end

sublocale bbolt \<subseteq> refined: functional_refinement "store_impl B" spec_op "\<lambda>s. store_inv B (fst s)" "\<lambda>s. store_abs B (fst s)"
proof unfold_locales
  fix s s' and l :: "store_op \<times> go_error option"
  assume inv: "store_inv B (fst s)" and step: "store_impl B l s s'"
  obtain st w st' w' oper r where eqs: "s = (st, w)" "s' = (st', w')" "l = (oper, r)" by force
  from step have run: "store_op_ok B oper st w" "r = store_answer B oper st w" "store_exec B oper st w = (st', w')"
    by (auto simp: eqs store_impl_def)
  from inv show "store_inv B (fst s')" by (simp add: eqs store_exec_inv [OF _ run(1,3)])
  from run inv show "spec_op l (store_abs B (fst s)) (store_abs B (fst s'))"
    by (cases oper)
      (auto simp: eqs split: prod.splits intro: create_refines update_refines delete_refines auth_refines)
qed

context bbolt begin

lemma abs_new: "NewBboltStore B None (\<lambda>_. None) None = Inr st \<Longrightarrow> store_abs B st = empty_map"
  using NewBboltStore_inv [of None "\<lambda>_. None" st]
  by (auto simp: store_abs_def empty_map_def NewBboltStore_def GetAuthKey_def get_empty)

lemma abs_queries:
  assumes inv: "store_inv B st"
  shows "GetByID B k st = spec_get k (store_abs B st)"
    and "StoreList B t st = Inr (spec_list t (store_abs B st))"
proof -
  show "GetByID B k st = spec_get k (store_abs B st)"
    by (simp add: GetByID_stored [OF inv] spec_get_def store_abs_eq)
  have "sorted_list_of_set (set (store_ids st)) = store_ids st"
    using store_ids_sorted [of st] by (intro sorted_list_of_set.idem_if_sorted_distinct) (auto simp: strict_sorted_iff)
  then have ids: "sorted_list_of_set (dom (stored B st)) = store_ids st"
    by (simp add: store_ids_set [OF inv])
  show "StoreList B t st = Inr (spec_list t (store_abs B st))"
  proof (cases "t = EntryTypeUnspecified")
    case True
    then show ?thesis by (simp add: StoreList_all [OF inv] spec_list_def store_abs_eq ids)
  next
    case False
    from StoreList_filter [OF inv False StoreList_all [OF inv]] False show ?thesis
      by (simp add: spec_list_def store_abs_eq ids)
  qed
qed

lemmas refined_run = refined.run_refines

end

subsection \<open>Property\<close>

text \<open>
  C5: The storage implements its port: any sequence of operations on a new database, whatever
  they answer, is a run of the abstract map with the same answers. Creating takes an identifier
  that is not in use, updating keeps the time of creation, an operation on an entry that is not
  there answers \<^verbatim>\<open>ErrNotFound\<close>, a failure changes nothing; and afterwards reading, listing by type
  and the data of the authentication give what the map gives, lists in the order of the identifiers.
\<close>

theorem store_implements_map:
  assumes "bbolt B" "store_start B (st0, w0)" "labelled_run (store_impl B) calls (st0, w0) (st, w)"
  shows "\<exists>m. labelled_run spec_op calls empty_map m \<and>
    (\<forall>k. GetByID B k st = spec_get k m) \<and> (\<forall>t. StoreList B t st = Inr (spec_list t m)) \<and>
    (\<forall>p. GetPINHash B st = Inr p \<longleftrightarrow> em_pin m = Some p) \<and> (\<forall>k. GetAuthKey B st = Inr k \<longleftrightarrow> em_key m = Some k)"
proof -
  from assms(2) have new: "NewBboltStore B None (\<lambda>_. None) None = Inr st0" by (simp add: store_start_def)
  have inv0: "store_inv B (fst (st0, w0))" using bbolt.NewBboltStore_inv [OF assms(1) new] by simp
  from bbolt.refined_run [OF assms(1,3) inv0] bbolt.abs_new [OF assms(1) new]
  have run: "labelled_run spec_op calls empty_map (store_abs B st)" and inv: "store_inv B st" by simp_all
  from run bbolt.abs_queries [OF assms(1) inv] show ?thesis
    by (intro exI [of _ "store_abs B st"]) (auto simp: store_abs_eq split: sum.splits)
qed

fun store_calls :: "'b bolt \<Rightarrow> store_op list \<Rightarrow> 'b store \<times> world \<Rightarrow> (store_op \<times> go_error option) list \<times> 'b store \<times> world" where
  "store_calls B [] s = ([], s)"
| "store_calls B (oper # opers) s =
     (case store_calls B opers (store_exec B oper (fst s) (snd s)) of
        (ls, s') \<Rightarrow> ((oper, store_answer B oper (fst s) (snd s)) # ls, s'))"

lemma store_calls_opers: "map fst (fst (store_calls B opers s)) = opers"
  by (induction opers arbitrary: s) (simp_all add: split_beta)

definition demo_opers :: "store_op list" where
  "demo_opers = [SCreate (demo_envelope 1), SUpdate ((demo_envelope 2)\<lparr>ID := demo_uuid 1\<rparr>), SStorePIN ''h'' ''s'',
     SDelete (demo_uuid 2)]"

theorem store_implements_map_witness:
  "\<exists>calls st w m. labelled_run (store_impl rbt_bolt) calls (demo_store, demo_store_world) (st, w) \<and>
     map fst calls = demo_opers \<and> map snd calls = [None, None, None, Some ErrNotFound] \<and>
     labelled_run spec_op calls empty_map m \<and> StoreList rbt_bolt 2 st = Inr (spec_list 2 m)"
proof -
  let ?s0 = "(demo_store, demo_store_world)"
  let ?r = "store_calls rbt_bolt demo_opers ?s0"
  obtain calls st w where r: "?r = (calls, st, w)" by (rule prod_cases3)
  have "labelled_run (store_impl rbt_bolt) (fst ?r) ?s0 (snd ?r)"
    by (auto simp: demo_opers_def store_impl_def demo_fresh demo_envelope_type int64_type_def
        demo_envelope_def zero_envelope_def split: prod.split intro!: labelled_run.intros)
  with r have run: "labelled_run (store_impl rbt_bolt) calls ?s0 (st, w)" by simp
  have "map fst (fst ?r) = demo_opers" by (rule store_calls_opers)
  moreover have "map snd (fst ?r) = [None, None, None, Some ErrNotFound]" by code_simp
  ultimately have calls: "map fst calls = demo_opers" "map snd calls = [None, None, None, Some ErrNotFound]"
    using r by simp_all
  have "store_start rbt_bolt ?s0" by (simp add: store_start_def demo_store_new)
  from store_implements_map [OF rb.bbolt_axioms this run] obtain m where
    "labelled_run spec_op calls empty_map m" "StoreList rbt_bolt 2 st = Inr (spec_list 2 m)" by blast
  with run calls show ?thesis
    by (intro exI [of _ calls] exI [of _ st] exI [of _ w] exI [of _ m]) simp
qed

end
