(* ===== verification/Focus_Ring.thy ===== *)
theory Focus_Ring
  imports Prelude
begin

text \<open>
  The focus ring of \<^verbatim>\<open>pkg/focusring/focusring.go\<close> and the strip of tabs of
  \<^verbatim>\<open>internal/adapters/gui/widget/tabbar.go\<close>. A widget is a value of the type \<open>'w\<close>; where the
  code lets a widget grab the focus, the operation gives that widget back. Buttons of a tab bar
  are always created: the constructors of the toolkit do not return nil.
\<close>

subsection \<open>The ring\<close>

record 'w ring =
  r_widgets :: "'w list"
  r_current :: int

definition Ring_New :: "'w list \<Rightarrow> 'w ring" where
  "Ring_New ws = \<lparr>r_widgets = ws, r_current = - 1\<rparr>"

definition Ring_Next :: "'w ring \<Rightarrow> 'w option \<times> 'w ring" where
  "Ring_Next r =
     (if r_widgets r = [] then (None, r)
      else let i = (r_current r + 1) mod int (length (r_widgets r))
           in (Some (r_widgets r ! nat i), r\<lparr>r_current := i\<rparr>))"

definition Ring_Prev :: "'w ring \<Rightarrow> 'w option \<times> 'w ring" where
  "Ring_Prev r =
     (if r_widgets r = [] then (None, r)
      else let i = r_current r - 1;
               i = (if i < 0 then int (length (r_widgets r)) - 1 else i)
           in (Some (r_widgets r ! nat i), r\<lparr>r_current := i\<rparr>))"

fun ring_index :: "'w list \<Rightarrow> 'w \<Rightarrow> int \<Rightarrow> int option" where
  "ring_index [] w i = None"
| "ring_index (x # xs) w i = (if x = w then Some i else ring_index xs w (i + 1))"

definition Ring_Focus :: "'w \<Rightarrow> 'w ring \<Rightarrow> 'w option \<times> 'w ring" where
  "Ring_Focus w r =
     (case ring_index (r_widgets r) w 0 of
        None \<Rightarrow> (None, r)
      | Some i \<Rightarrow> (Some w, r\<lparr>r_current := i\<rparr>))"

definition Ring_Reset :: "'w ring \<Rightarrow> 'w ring" where
  "Ring_Reset r = r\<lparr>r_current := - 1\<rparr>"

definition Ring_SetWidgets :: "'w list \<Rightarrow> 'w ring \<Rightarrow> 'w ring" where
  "Ring_SetWidgets ws r = r\<lparr>r_widgets := ws, r_current := - 1\<rparr>"

definition Ring_Current :: "'w ring \<Rightarrow> 'w option" where
  "Ring_Current r =
     (if r_current r < 0 \<or> r_current r \<ge> int (length (r_widgets r)) then None
      else Some (r_widgets r ! nat (r_current r)))"

text \<open>The position is before the first widget or at a widget, whatever is called.\<close>

definition ring_ok :: "'w ring \<Rightarrow> bool" where
  "ring_ok r \<longleftrightarrow> - 1 \<le> r_current r \<and> (r_widgets r = [] \<or> r_current r < int (length (r_widgets r)))"

lemma ring_index_bounds:
  "ring_index ws w i = Some j \<Longrightarrow> i \<le> j \<and> j < i + int (length ws) \<and> ws ! nat (j - i) = w"
proof (induction ws arbitrary: i)
  case (Cons x xs)
  show ?case
  proof (cases "x = w")
    case True
    with Cons.prems show ?thesis by simp
  next
    case False
    with Cons.prems have "ring_index xs w (i + 1) = Some j" by simp
    from Cons.IH [OF this] have "i + 1 \<le> j" "j < i + 1 + int (length xs)" "xs ! nat (j - (i + 1)) = w"
      by auto
    moreover from this(1) have "nat (j - i) = Suc (nat (j - (i + 1)))" by simp
    ultimately show ?thesis by simp
  qed
qed simp

lemma ring_ok_ops [simp]:
  "ring_ok (Ring_New ws)" "ring_ok (Ring_Reset r)" "ring_ok (Ring_SetWidgets ws r)"
  "ring_ok r \<Longrightarrow> ring_ok (snd (Ring_Next r))" "ring_ok r \<Longrightarrow> ring_ok (snd (Ring_Prev r))"
  "ring_ok r \<Longrightarrow> ring_ok (snd (Ring_Focus w r))"
  by (auto simp: ring_ok_def Ring_New_def Ring_Reset_def Ring_SetWidgets_def Ring_Next_def Ring_Prev_def
      Ring_Focus_def Let_def not_less split: option.splits dest: ring_index_bounds)
    (smt (verit) pos_mod_sign length_greater_0_conv of_nat_0_less_iff)+

lemma ring_widgets_ops [simp]:
  "r_widgets (Ring_New ws) = ws" "r_widgets (Ring_SetWidgets ws r) = ws"
  "r_widgets (snd (Ring_Next r)) = r_widgets r" "r_widgets (snd (Ring_Prev r)) = r_widgets r"
  by (simp_all add: Ring_New_def Ring_SetWidgets_def Ring_Next_def Ring_Prev_def Let_def)

text \<open>
  Going forward from a fresh ring visits its widgets in order, round and round; going back
  undoes going forward.
\<close>

fun ring_nexts :: "nat \<Rightarrow> 'w ring \<Rightarrow> 'w ring" where
  "ring_nexts 0 r = r"
| "ring_nexts (Suc n) r = snd (Ring_Next (ring_nexts n r))"

lemma ring_nexts_position:
  assumes "ws \<noteq> []"
  shows "ring_nexts n (Ring_New ws) = \<lparr>r_widgets = ws,
    r_current = (if n = 0 then - 1 else int ((n - 1) mod length ws))\<rparr>"
proof (induction n)
  case (Suc n)
  have "(if n = 0 then 0 else int ((n - 1) mod length ws) + 1) mod int (length ws) = int (n mod length ws)"
    by (cases n) (simp_all add: zmod_int mod_simps add.commute)
  with Suc assms show ?case by (auto simp: Ring_Next_def Let_def split: if_splits)
qed (simp add: Ring_New_def)

lemma ring_cycles:
  "ws \<noteq> [] \<Longrightarrow> fst (Ring_Next (ring_nexts n (Ring_New ws))) = Some (ws ! (n mod length ws))"
  using ring_nexts_position [of ws "Suc n"]
  by (auto simp: Ring_Next_def Let_def ring_nexts_position)

lemma ring_next_prev:
  assumes "ring_ok r" "r_widgets r \<noteq> []" "0 \<le> r_current r"
  shows "Ring_Prev (snd (Ring_Next r)) = (Ring_Current r, r)"
proof (cases "r_current r + 1 = int (length (r_widgets r))")
  case True
  then have "r_current r = int (length (r_widgets r)) - 1" by simp
  with assms show ?thesis
    by (cases r) (auto simp: Ring_Next_def Ring_Prev_def Ring_Current_def Let_def ring_ok_def)
next
  case False
  with assms have "(r_current r + 1) mod int (length (r_widgets r)) = r_current r + 1"
    by (auto simp: ring_ok_def intro!: mod_pos_pos_trivial)
  with assms False show ?thesis
    by (auto simp: Ring_Next_def Ring_Prev_def Ring_Current_def Let_def ring_ok_def)
qed

subsection \<open>Tabs\<close>

text \<open>Which buttons are visible and which carry the class of the active tab, per label.\<close>

record tab_bar =
  tb_labels :: "string list"
  tb_active :: nat
  tb_buttons :: "bool list"
  tb_marked :: "bool list"
  tb_visible :: bool

definition NewTabBar :: "string list \<Rightarrow> tab_bar" where
  "NewTabBar labels = \<lparr>tb_labels = labels, tb_active = 0, tb_buttons = map (\<lambda>_. True) labels,
     tb_marked = map (\<lambda>i. i = 0) [0..<length labels], tb_visible = True\<rparr>"

text \<open>\<open>None\<close>: the index is out of range, nothing happens and the callback is not called.\<close>

definition TabBar_SetActive :: "int \<Rightarrow> tab_bar \<Rightarrow> tab_bar option" where
  "TabBar_SetActive index t =
     (if index < 0 \<or> index \<ge> int (length (tb_buttons t)) then None
      else Some (t\<lparr>tb_marked := (tb_marked t)[tb_active t := False, nat index := True],
                   tb_active := nat index\<rparr>))"

definition TabBar_Len :: "tab_bar \<Rightarrow> nat" where
  "TabBar_Len t = length (tb_buttons t)"

definition TabBar_ButtonAt :: "tab_bar \<Rightarrow> int \<Rightarrow> nat option" where
  "TabBar_ButtonAt t i = (if i < 0 \<or> i \<ge> int (length (tb_buttons t)) then None else Some (nat i))"

definition TabBar_SetButtonVisible :: "int \<Rightarrow> bool \<Rightarrow> tab_bar \<Rightarrow> tab_bar" where
  "TabBar_SetButtonVisible i v t =
     (if i \<ge> 0 \<and> i < int (length (tb_buttons t)) then t\<lparr>tb_buttons := (tb_buttons t)[nat i := v]\<rparr> else t)"

text \<open>The active tab exists and it alone is marked.\<close>

definition tabs_ok :: "tab_bar \<Rightarrow> bool" where
  "tabs_ok t \<longleftrightarrow> length (tb_buttons t) = length (tb_labels t) \<and> tb_active t < length (tb_labels t) \<and>
     tb_marked t = map (\<lambda>i. i = tb_active t) [0..<length (tb_labels t)]"

lemma tabs_ok_New: "labels \<noteq> [] \<Longrightarrow> tabs_ok (NewTabBar labels)"
  by (simp add: tabs_ok_def NewTabBar_def)

lemma tabs_ok_SetActive: "tabs_ok t \<Longrightarrow> TabBar_SetActive i t = Some t' \<Longrightarrow> tabs_ok t'"
  by (auto simp: tabs_ok_def TabBar_SetActive_def nth_list_update intro!: nth_equalityI split: if_splits)

lemma tabs_ok_SetButtonVisible [simp]: "tabs_ok (TabBar_SetButtonVisible i v t) = tabs_ok t"
  by (simp add: tabs_ok_def TabBar_SetButtonVisible_def)

lemma tabs_ok_visible [simp]: "tabs_ok (t\<lparr>tb_visible := v\<rparr>) = tabs_ok t"
  by (simp add: tabs_ok_def)

end
