(* ===== verification/Gui_Base.thy ===== *)
theory Gui_Base
  imports Focus_Ring Search Login_Name
begin

text \<open>
  What the views of the overlay (\<^verbatim>\<open>internal/adapters/gui/omnibox\<close>) share: the callbacks of
  \<^verbatim>\<open>internal/port/gui.go\<close> they are configured with, the goroutines and the functions queued for the
  GTK thread, and the notifications. The vault behind the callbacks is a state \<open>'v\<close>; a callback
  that is nil is \<open>None\<close>. Decryption hands its callback at most one plaintext. Constructors of
  the toolkit do not return nil, so the branches for nil widgets are not modelled; a widget of
  a form that has not been built is absent.
\<close>

datatype urgency = UrgencyLow | UrgencyNormal | UrgencyCritical

record notice =
  nt_body :: string
  nt_urgency :: urgency
  nt_icon :: string

datatype omnibox_mode = OmniboxModeSearch | OmniboxModeAdd

record 'v omni_config =
  oc_Mode :: omnibox_mode
  oc_Category :: entry_type
  oc_ListEntries :: "(entry_type \<Rightarrow> 'v \<Rightarrow> (go_error + envelope list) \<times> 'v) option"
  oc_GetEntry :: "(string \<Rightarrow> 'v \<Rightarrow> (go_error + envelope) \<times> 'v) option"
  oc_DecryptAndUse :: "(bytes \<Rightarrow> 'v \<Rightarrow> go_error option \<times> bytes option \<times> 'v) option"
  oc_AddEntry :: "(envelope \<Rightarrow> 'v \<Rightarrow> go_error option \<times> envelope \<times> 'v) option"
  oc_UpdateEntry :: "(envelope \<Rightarrow> 'v \<Rightarrow> go_error option \<times> envelope \<times> 'v) option"
  oc_Notify :: bool

text \<open>
  The desktop outside: the tables of the runes, the order that sorting gives equal elements, URL
  parsing, copying to the clipboard, and what a text widget holds once a text was set.
\<close>

record desktop =
  dt_unicode :: unicode
  dt_sorter :: "fuzzy_match sorter"
  dt_urls :: url_lib
  dt_copy :: "string \<Rightarrow> go_error option"
  dt_text :: "string \<Rightarrow> string"

text \<open>
  Goroutines, each cut at its calls of the vault, since other goroutines and the GTK thread may
  run in between.
\<close>

datatype job =
    LoadList
  | LoadStore "envelope list"
  | DebounceElapsed int
  | CopyFetch envelope
  | CopyDecrypt envelope
  | CopyField string
  | OpenFetch envelope
  | OpenDecrypt envelope
  | AddSave envelope
  | UpdateSave envelope

text \<open>Functions queued with \<^verbatim>\<open>IdleAddOnce\<close>, which run in this order on the GTK thread.\<close>

datatype idle =
    LoadFailed
  | Refresh
  | Debounced int
  | QuitOverlay
  | ShowDetail envelope bytes
  | AddDone
  | UpdateDone

record 'v desk =
  dk_vault :: 'v
  dk_jobs :: "job list"
  dk_idle :: "idle list"
  dk_notices :: "notice list"
  dk_copied :: "string list"

definition go_job :: "job \<Rightarrow> 'v desk \<Rightarrow> 'v desk" where
  "go_job j d = d\<lparr>dk_jobs := dk_jobs d @ [j]\<rparr>"

definition IdleAddOnce :: "idle \<Rightarrow> 'v desk \<Rightarrow> 'v desk" where
  "IdleAddOnce f d = d\<lparr>dk_idle := dk_idle d @ [f]\<rparr>"

definition sendNotify :: "'v omni_config \<Rightarrow> string \<Rightarrow> urgency \<Rightarrow> string \<Rightarrow> 'v desk \<Rightarrow> 'v desk" where
  "sendNotify cfg body urgency icon d =
     (if oc_Notify cfg then d\<lparr>dk_notices := dk_notices d @ [\<lparr>nt_body = body, nt_urgency = urgency, nt_icon = icon\<rparr>]\<rparr>
      else d)"

text \<open>\<^verbatim>\<open>pkg/clipboard\<close> as a goroutine uses it.\<close>

definition copy_text :: "desktop \<Rightarrow> string \<Rightarrow> 'v desk \<Rightarrow> go_error option \<times> 'v desk" where
  "copy_text G s d =
     (case dt_copy G s of
        Some e \<Rightarrow> (Some e, d)
      | None \<Rightarrow> (None, d\<lparr>dk_copied := dk_copied d @ [s]\<rparr>))"

definition copy_failed :: "go_error \<Rightarrow> string" where
  "copy_failed e = ''Clipboard copy failed: '' @ error_string e"

subsection \<open>Frames\<close>

lemma desk_simps [simp]:
  "dk_jobs (go_job j d) = dk_jobs d @ [j]" "dk_idle (go_job j d) = dk_idle d"
  "dk_jobs (IdleAddOnce f d) = dk_jobs d" "dk_idle (IdleAddOnce f d) = dk_idle d @ [f]"
  "dk_vault (go_job j d) = dk_vault d" "dk_vault (IdleAddOnce f d) = dk_vault d"
  "dk_copied (go_job j d) = dk_copied d" "dk_copied (IdleAddOnce f d) = dk_copied d"
  "dk_notices (go_job j d) = dk_notices d" "dk_notices (IdleAddOnce f d) = dk_notices d"
  by (simp_all add: go_job_def IdleAddOnce_def)

lemma sendNotify_simps [simp]:
  "dk_jobs (sendNotify cfg b u i d) = dk_jobs d" "dk_idle (sendNotify cfg b u i d) = dk_idle d"
  "dk_vault (sendNotify cfg b u i d) = dk_vault d" "dk_copied (sendNotify cfg b u i d) = dk_copied d"
  by (simp_all add: sendNotify_def)

lemma copy_text_simps [simp]:
  "dk_jobs (snd (copy_text G s d)) = dk_jobs d" "dk_idle (snd (copy_text G s d)) = dk_idle d"
  "dk_vault (snd (copy_text G s d)) = dk_vault d"
  by (simp_all add: copy_text_def split: option.split)

subsection \<open>Widgets\<close>

datatype form_field = LoginSite | LoginUsername | LoginPassword | LoginNotes
  | NoteName | NoteContent | SecretName | SecretValue

datatype widget =
    SearchEntry
  | ModeTab nat
  | CategoryTab nat
  | AddField form_field
  | AddCancel
  | AddSaveButton
  | DetailField form_field
  | DetailCopy form_field
  | DetailBack
  | DetailSaveButton

end
