(* ===== verification/Surfaces.thy ===== *)
theory Surfaces
  imports Gui_Base Server_Setup Cli_Base
begin

text \<open>
  Where the program meets its surroundings: the notifications of
  \<^verbatim>\<open>internal/adapters/notification\<close>, what the commands write through
  \<^verbatim>\<open>internal/adapters/cli/styles\<close>, how \<^verbatim>\<open>Serve\<close> of \<^verbatim>\<open>internal/adapters/grpc/server.go\<close> ends, and
  the layer shell of \<^verbatim>\<open>pkg/layershell\<close>.
  The D-Bus library, the renderer of styles and tables and the writer are parameters.
\<close>

subsection \<open>Notifications\<close>

record notification =
  nf_AppName :: string
  nf_AppIcon :: string
  nf_Summary :: string
  nf_Body :: string
  nf_ExpireTimeout :: int
  nf_urgency :: nat
  nf_desktop_entry :: string

record 'c bus =
  bus_connect :: "'c \<Rightarrow> go_error option \<times> 'c"
  bus_notifier :: "'c \<Rightarrow> go_error option \<times> 'c"
  bus_send :: "notification \<Rightarrow> 'c \<Rightarrow> go_error option \<times> 'c"
  bus_close_notifier :: "'c \<Rightarrow> go_error option \<times> 'c"
  bus_close :: "'c \<Rightarrow> go_error option \<times> 'c"

datatype notifier = DBusNotifier | Noop

text \<open>\<^verbatim>\<open>errors.Join\<close>: nil if all are, otherwise their messages on lines of their own.\<close>

definition errors_Join :: "go_error option list \<Rightarrow> go_error option" where
  "errors_Join es =
     (let es = List.map_filter id es
      in if es = [] then None else Some (Errorf (join_strings (map error_string es) [newline])))"

definition appName :: string where "appName = ''sekeve''"
definition defaultTimeoutMs :: int where "defaultTimeoutMs = 5000"

definition NewDBus :: "'c bus \<Rightarrow> 'c \<Rightarrow> (go_error + notifier) \<times> 'c" where
  "NewDBus B c =
     (case bus_connect B c of
        (Some e, c) \<Rightarrow> (Inl (WrapErr ''session bus'' e), c)
      | (None, c) \<Rightarrow>
         (case bus_notifier B c of
            (Some e, c) \<Rightarrow>
              (case bus_close B c of
                 (r, c) \<Rightarrow> (Inl (the (errors_Join [Some (WrapErr ''notifier'' e), r])), c))
          | (None, c) \<Rightarrow> (Inr DBusNotifier, c)))"

fun urgency_byte :: "urgency \<Rightarrow> nat" where
  "urgency_byte UrgencyLow = 0"
| "urgency_byte UrgencyNormal = 1"
| "urgency_byte UrgencyCritical = 2"

definition new_notification :: "string \<Rightarrow> string \<Rightarrow> urgency \<Rightarrow> string \<Rightarrow> notification" where
  "new_notification summary body u icon =
     \<lparr>nf_AppName = appName, nf_AppIcon = if icon = [] then ''dialog-password'' else icon,
      nf_Summary = summary, nf_Body = body, nf_ExpireTimeout = defaultTimeoutMs,
      nf_urgency = urgency_byte u, nf_desktop_entry = ''dev.bnema.sekeve''\<rparr>"

fun Notify :: "'c bus \<Rightarrow> string \<Rightarrow> string \<Rightarrow> urgency \<Rightarrow> string \<Rightarrow> notifier \<Rightarrow> 'c \<Rightarrow> go_error option \<times> 'c" where
  "Notify B summary body u icon DBusNotifier c =
     (case bus_send B (new_notification summary body u icon) c of
        (r, c) \<Rightarrow> (map_option (WrapErr ''notification send'') r, c))"
| "Notify B summary body u icon Noop c = (None, c)"

fun Notifier_Close :: "'c bus \<Rightarrow> notifier \<Rightarrow> 'c \<Rightarrow> go_error option \<times> 'c" where
  "Notifier_Close B DBusNotifier c =
     (case bus_close_notifier B c of
        (r1, c) \<Rightarrow> (case bus_close B c of (r2, c) \<Rightarrow> (errors_Join [r1, r2], c)))"
| "Notifier_Close B Noop c = (None, c)"

text \<open>What the hook of the commands chooses, and how the overlay sends a notice: errors are dropped.\<close>

definition choose_notifier :: "'c bus \<Rightarrow> 'c \<Rightarrow> notifier \<times> 'c" where
  "choose_notifier B c = (case NewDBus B c of (Inl _, c) \<Rightarrow> (Noop, c) | (Inr n, c) \<Rightarrow> (n, c))"

definition deliver :: "'c bus \<Rightarrow> notifier \<Rightarrow> notice \<Rightarrow> 'c \<Rightarrow> 'c" where
  "deliver B n x c = snd (Notify B ''Sekeve'' (nt_body x) (nt_urgency x) (nt_icon x) n c)"

lemma errors_Join_None: "errors_Join es = None \<longleftrightarrow> set es \<subseteq> {None}"
proof -
  have "List.map_filter id es = [] \<longleftrightarrow> set es \<subseteq> {None}"
    by (induction es) (auto simp: List.map_filter_simps split: option.splits)
  then show ?thesis by (simp add: errors_Join_def Let_def)
qed

lemma notifier_fallback:
  "fst (choose_notifier B c) = DBusNotifier \<longleftrightarrow> (\<exists>n. fst (NewDBus B c) = Inr n)"
  by (auto simp: choose_notifier_def NewDBus_def split: prod.splits option.splits sum.splits)

lemma notified_icon: "nf_AppIcon (new_notification s b u i) \<noteq> []"
  by (simp add: new_notification_def)

subsection \<open>Styles\<close>

datatype style = TitleStyle | ErrorStyle | SuccessStyle | MutedStyle | LabelStyle | ValueStyle

type_synonym 'w writer = "bytes \<Rightarrow> 'w \<Rightarrow> go_error option \<times> 'w"

definition IconSuccess :: string where "IconSuccess = encode_rune 0xF00C"
definition IconError :: string where "IconError = encode_rune 0xF00D"

definition then_write :: "'w writer \<Rightarrow> bytes \<Rightarrow> go_error option \<times> 'w \<Rightarrow> go_error option \<times> 'w" where
  "then_write wr b s = (case s of (Some e, w) \<Rightarrow> (Some e, w) | (None, w) \<Rightarrow> wr b w)"

definition RenderError :: "(style \<Rightarrow> string \<Rightarrow> string) \<Rightarrow> 'w writer \<Rightarrow> go_error \<Rightarrow> 'w \<Rightarrow> go_error option \<times> 'w" where
  "RenderError styled wr e w =
     then_write wr [newline] (wr (styled ErrorStyle (IconError @ '' '' @ error_string e)) w)"

definition RenderSuccess :: "(style \<Rightarrow> string \<Rightarrow> string) \<Rightarrow> 'w writer \<Rightarrow> string \<Rightarrow> 'w \<Rightarrow> go_error option \<times> 'w" where
  "RenderSuccess styled wr msg w =
     then_write wr [newline] (wr (styled SuccessStyle (IconSuccess @ '' '' @ msg)) w)"

fun render_fields :: "(style \<Rightarrow> string \<Rightarrow> string) \<Rightarrow> 'w writer \<Rightarrow> (string \<times> string) list \<Rightarrow>
    go_error option \<times> 'w \<Rightarrow> go_error option \<times> 'w" where
  "render_fields styled wr [] s = s"
| "render_fields styled wr ((label, val) # fs) s =
     render_fields styled wr fs (then_write wr (styled LabelStyle label @ styled ValueStyle val @ [newline]) s)"

definition RenderEntry :: "(style \<Rightarrow> string \<Rightarrow> string) \<Rightarrow> 'w writer \<Rightarrow> envelope \<Rightarrow> (string \<times> string) list \<Rightarrow> 'w \<Rightarrow>
    go_error option \<times> 'w" where
  "RenderEntry styled wr env fs w =
     render_fields styled wr fs
       (wr (styled TitleStyle (Name env) @ '' '' @ styled MutedStyle (''('' @ EntryType_String (Type env) @ '')'') @ [newline]) w)"

text \<open>\<^verbatim>\<open>Format(time.RFC3339)\<close> of a time in UTC.\<close>

definition format_seconds :: "time \<Rightarrow> string" where
  "format_seconds t = format_rfc3339 (t div second * second)"

definition shortID :: "envelope \<Rightarrow> string" where
  "shortID e = (if length (ID e) > 8 then take 8 (ID e) else ID e)"

definition table_row :: "envelope \<Rightarrow> string list" where
  "table_row e = [shortID e, Name e, EntryType_String (Type e), format_seconds (CreatedAt e)]"

definition RenderTable :: "(string list \<Rightarrow> string list list \<Rightarrow> string) \<Rightarrow> 'w writer \<Rightarrow> envelope list \<Rightarrow> 'w \<Rightarrow>
    go_error option \<times> 'w" where
  "RenderTable draw wr entries w =
     wr (draw [''ID'', ''NAME'', ''TYPE'', ''CREATED''] (map table_row entries) @ [newline]) w"

text \<open>What a table shows as the identifier of a stored entry is never one that finds an entry.\<close>

lemma short_id_finds_nothing:
  assumes "bbolt B" "store_inv B st" "stored B st k = Some e" "ID e = k"
  shows "GetByID B (shortID e) st = Inl ErrNotFound"
proof -
  from store_inv_stored [OF assms(2,3)] assms(4) have "length (ID e) = 36" by (simp add: key_ok_def)
  then have "length (shortID e) = 8" by (simp add: shortID_def)
  then have "\<not> key_ok (shortID e)" by (simp add: key_ok_def)
  with store_inv_stored [OF assms(2)] have "stored B st (shortID e) = None"
    by (cases "stored B st (shortID e)") auto
  with bbolt.port_get_law [OF assms(1,2)] show ?thesis by simp
qed

lemma short_id_not_resolved:
  assumes "\<forall>e\<in>set entries. length (ID e) = 36" "e \<in> set entries"
  shows "resolveEntry U P tty keys entries \<lparr>ro_ID = shortID e, ro_Domain = d, ro_Email = m, ro_Query = q\<rparr> =
    Inl (Errorf (''no entry found with id '' @ strconv_quote P (shortID e)))"
proof -
  from assms have "length (ID e) = 36" by blast
  then have "length (shortID e) = 8" by (simp add: shortID_def)
  moreover from this have "find (\<lambda>x. ID x = shortID e) entries = None"
    using assms(1) by (fastforce simp: find_None_iff)
  ultimately show ?thesis by (auto simp: resolveEntry_def)
qed

text \<open>
  \<^verbatim>\<open>--json\<close>: the value a command hands over, or the error of its encoding. The
  commands build their lists by appending to a nil slice, which is written as \<^verbatim>\<open>null\<close> when
  nothing was appended.
\<close>

definition envelope_value :: "envelope \<Rightarrow> go_error + json" where
  "envelope_value e = map_sum id (\<lambda>_. envelope_json e) (marshal_envelope e)"

fun entries_value :: "envelope list \<Rightarrow> go_error + json list" where
  "entries_value [] = Inr []"
| "entries_value (e # es) =
     (case envelope_value e of Inl x \<Rightarrow> Inl x | Inr v \<Rightarrow> map_sum id ((#) v) (entries_value es))"

fun shown_json :: "shown \<Rightarrow> (go_error + json) option" where
  "shown_json (JsonEntry e) = Some (envelope_value e)"
| "shown_json (JsonEntries []) = Some (Inr JNull)"
| "shown_json (JsonEntries (e # es)) = Some (map_sum id JArr (entries_value (e # es)))"
| "shown_json (JsonDeleted k) = Some (Inr (JObj [field ''deleted'' (jstring k)]))"
| "shown_json _ = None"

definition RenderJSON :: "'w writer \<Rightarrow> go_error + json \<Rightarrow> 'w \<Rightarrow> go_error option \<times> 'w" where
  "RenderJSON wr v w = (case v of Inl e \<Rightarrow> (Some e, w) | Inr j \<Rightarrow> wr (indent_json j @ [newline]) w)"

lemma envelope_value_json:
  assumes "envelope_value e = Inr j"
  shows "j = envelope_json e \<and> json_ok j \<and> json_depth j \<le> 2"
proof -
  have "j = envelope_json e"
    using assms by (cases "marshal_envelope e") (auto simp: envelope_value_def)
  moreover have "json_ok (envelope_json e)" "json_depth (envelope_json e) \<le> 2"
    by (auto simp: envelope_json_def field_def)
  ultimately show ?thesis by simp
qed

text \<open>What a command writes for one entry is read back as the envelope that JSON keeps of it.\<close>

lemma json_entry_read_back:
  assumes "envelope_value e = Inr j" "int64_type e"
  shows "unmarshal_envelope (indent_json j @ [newline]) = Inr (json_envelope e)"
proof -
  from envelope_value_json [OF assms(1)] have j: "j = envelope_json e" "json_ok j" "json_depth j \<le> maxNestingDepth"
    by (auto simp: maxNestingDepth_def)
  obtain d where d: "marshal_envelope e = Inr d"
    using assms(1) by (cases "marshal_envelope e") (auto simp: envelope_value_def)
  then have "d = print_json j" by (auto simp: j(1) marshal_envelope_def split: if_splits)
  then have "parse_json (indent_json j @ [newline]) = parse_json d"
    using parse_indent_json [OF j(2,3), of "[newline]"] parse_print_json [OF j(2,3)] by (simp add: newline_def)
  then have "unmarshal_envelope (indent_json j @ [newline]) = unmarshal_envelope d"
    by (simp add: unmarshal_envelope_def json_unmarshal_def)
  with unmarshal_marshal_envelope [OF d assms(2)] show ?thesis by simp
qed

lemma entries_value_json:
  "entries_value es = Inr js \<Longrightarrow> js = map envelope_json es \<and> (\<forall>j \<in> set js. json_ok j \<and> json_depth j \<le> 2)"
proof (induction es arbitrary: js)
  case (Cons e es)
  then obtain j js' where "envelope_value e = Inr j" "entries_value es = Inr js'" "js = j # js'"
    by (cases "entries_value es") (auto split: sum.splits)
  with envelope_value_json [of e j] Cons.IH [of js'] show ?case by auto
qed simp

text \<open>And for a list: the array of what the entries are, except that no entries are \<^verbatim>\<open>null\<close>.\<close>

lemma json_entries_read_back:
  assumes "shown_json (JsonEntries es) = Some (Inr j)"
  shows "parse_json (indent_json j @ [newline]) = Some (if es = [] then JNull else JArr (map envelope_json es))"
proof (cases es)
  case Nil
  with assms parse_indent_json [of JNull "[newline]"] show ?thesis by (simp add: newline_def)
next
  case (Cons e es')
  with assms obtain js where js: "entries_value es = Inr js" "j = JArr js"
    by (cases "entries_value es") auto
  have "fold max (map json_depth js) (a::nat) \<le> 2" if "a \<le> 2" "\<forall>j \<in> set js. json_depth j \<le> 2" for js a
    using that by (induction js arbitrary: a) auto
  with entries_value_json [OF js(1)] have "fold max (map json_depth js) 0 \<le> 2" by blast
  then have depth: "json_depth j \<le> maxNestingDepth" by (simp add: js(2) maxNestingDepth_def)
  have "json_ok j" using entries_value_json [OF js(1)] by (simp add: js(2))
  with depth parse_indent_json [of j "[newline]"] entries_value_json [OF js(1)] Cons js(2) show ?thesis
    by (simp add: newline_def)
qed

lemma render_fields_failed: "render_fields styled wr fs (Some e, w) = (Some e, w)"
  by (induction fs) (auto simp: then_write_def)

subsection \<open>Serving\<close>

text \<open>What comes first: the end of the context, or the return of the gRPC server.\<close>

datatype serve_end = ServeContextDone | ServeReturned "go_error option"

text \<open>The result, and whether the server was told to finish the calls under way and stop.\<close>

fun ServeListener :: "serve_end \<Rightarrow> go_error option \<times> bool" where
  "ServeListener ServeContextDone = (None, True)"
| "ServeListener (ServeReturned r) = (map_option (WrapErr ''grpc server error'') r, False)"

definition Serve :: "string \<Rightarrow> go_error option \<Rightarrow> serve_end \<Rightarrow> go_error option \<times> bool" where
  "Serve addr listenErr ending =
     (case listenErr of
        Some e \<Rightarrow> (Some (WrapErr (''failed to listen on '' @ addr) e), False)
      | None \<Rightarrow> ServeListener ending)"

text \<open>The whole command \<^verbatim>\<open>server start\<close>, which closes its store in the end.\<close>

definition serve_cmd :: "('b, 'g) deps \<Rightarrow> 'b database \<Rightarrow> 'g \<Rightarrow> string \<Rightarrow> go_error option \<Rightarrow> serve_end \<Rightarrow> go_error option" where
  "serve_cmd D db g addr listenErr ending =
     (case start_cmd D db g of Inl e \<Rightarrow> Some e | Inr s \<Rightarrow> fst (Serve addr listenErr ending))"

lemma serve_cmd_ok:
  "serve_cmd D db g addr listenErr ending = None \<longleftrightarrow>
    (\<exists>s. start_cmd D db g = Inr s) \<and> listenErr = None \<and> ending \<in> {ServeContextDone, ServeReturned None}"
  by (cases ending) (auto simp: serve_cmd_def Serve_def split: sum.splits option.splits)

subsection \<open>The layer shell\<close>

text \<open>
  \<^verbatim>\<open>pkg/layershell\<close>: a window becomes a surface of the overlay layer where the compositor offers
  that. The two questions asked of the library of the layer shell are parameters; the window has
  what that library keeps of it.
\<close>

record layer_window =
  lw_surface :: bool
  lw_overlay :: bool
  lw_zone :: "int option"
  lw_exclusive :: bool
  lw_namespace :: "string option"

definition plain_window :: layer_window where
  "plain_window = \<lparr>lw_surface = False, lw_overlay = False, lw_zone = None, lw_exclusive = False, lw_namespace = None\<rparr>"

record overlay_config =
  lc_Namespace :: string
  lc_Exclusive :: bool

definition InitOverlay :: "bool \<Rightarrow> bool \<Rightarrow> overlay_config \<Rightarrow> layer_window \<Rightarrow> bool \<times> layer_window" where
  "InitOverlay available supported cfg w =
     (if \<not> available \<or> \<not> supported then (False, w)
      else
        let w = w\<lparr>lw_surface := True, lw_overlay := True, lw_zone := Some 0\<rparr>;
            w = (if lc_Exclusive cfg then w\<lparr>lw_exclusive := True\<rparr> else w);
            w = (if lc_Namespace cfg \<noteq> [] then w\<lparr>lw_namespace := Some (lc_Namespace cfg)\<rparr> else w)
        in (True, w))"

definition SetKeyboardModeExclusive :: "bool \<Rightarrow> bool \<Rightarrow> layer_window \<Rightarrow> layer_window" where
  "SetKeyboardModeExclusive available supported w =
     (if \<not> available \<or> \<not> supported then w
      else if \<not> lw_surface w then w
      else w\<lparr>lw_exclusive := True\<rparr>)"

definition setupLayerShell :: "bool \<Rightarrow> bool \<Rightarrow> string \<Rightarrow> layer_window \<Rightarrow> bool \<times> layer_window" where
  "setupLayerShell available supported namespace w =
     InitOverlay available supported \<lparr>lc_Namespace = namespace, lc_Exclusive = True\<rparr> w"

text \<open>The overlay has the keyboard to itself exactly when it is on the overlay layer.\<close>

lemma setupLayerShell_exclusive:
  assumes "setupLayerShell a b n plain_window = (ok, w)"
  shows "lw_exclusive w = ok" "lw_overlay w = ok" "SetKeyboardModeExclusive a b w = w"
  using assms
  by (auto simp: setupLayerShell_def InitOverlay_def SetKeyboardModeExclusive_def plain_window_def Let_def
      split: if_splits)

end
