(* ===== verification/Search_View.thy ===== *)
theory Search_View
  imports Gui_Base Codec
begin

text \<open>
  The search view of the overlay, \<^verbatim>\<open>internal/adapters/gui/omnibox/search.go\<close>: its state, the
  list of rows with the selection, the debounced search, and the goroutines that load the
  entries and copy a value. The list box selects at most one row, and none once it is emptied.
\<close>

subsection \<open>Rows\<close>

datatype icon = IconKey | IconFileText | IconLock | IconSearch

definition ColorLogin :: string where "ColorLogin = ''#34d399''"
definition ColorNote :: string where "ColorNote = ''#6ee7b7''"
definition ColorSecret :: string where "ColorSecret = ''#a7f3d0''"
definition ColorSearch :: string where "ColorSearch = ''#3a6a56''"

definition typeIconSVG :: "entry_type \<Rightarrow> icon \<times> string" where
  "typeIconSVG t =
     (if t = EntryTypeLogin then (IconKey, ColorLogin)
      else if t = EntryTypeNote then (IconFileText, ColorNote)
      else if t = EntryTypeSecret then (IconLock, ColorSecret)
      else (IconSearch, ColorSearch))"

definition typeMeta :: "envelope \<Rightarrow> string" where
  "typeMeta env =
     (if Type env = EntryTypeLogin then
        (case map_of (Meta env) ''username'' of
           Some u \<Rightarrow> if u \<noteq> [] then u else Name env
         | None \<Rightarrow> Name env)
      else if Type env = EntryTypeNote then ''note''
      else if Type env = EntryTypeSecret then ''secret''
      else [])"

record row =
  row_icon :: "icon \<times> string"
  row_name :: string
  row_meta :: string

text \<open>\<^verbatim>\<open>strings.Index\<close>.\<close>

fun string_index :: "string \<Rightarrow> string \<Rightarrow> nat option" where
  "string_index [] sub = (if sub = [] then Some 0 else None)"
| "string_index (c # s) sub =
     (if has_prefix (c # s) sub then Some 0 else map_option Suc (string_index s sub))"

definition display_name :: "envelope \<Rightarrow> string" where
  "display_name env =
     (if Type env = EntryTypeLogin then
        (case string_index (Name env) '' ('' of
           Some i \<Rightarrow> if i > 0 then take i (Name env) else Name env
         | None \<Rightarrow> Name env)
      else Name env)"

definition buildRow :: "envelope \<Rightarrow> row" where
  "buildRow env = \<lparr>row_icon = typeIconSVG (Type env), row_name = display_name env, row_meta = typeMeta env\<rparr>"

subsection \<open>State\<close>

definition maxResults :: nat where "maxResults = 20"

text \<open>
  \<open>sv_matches\<close> is \<open>None\<close> for the nil slice. \<open>sv_signal\<close>: the text has changed and the
  entry has not emitted its signal yet; \<open>sv_timer\<close>: the version that the running debounce
  timer was started for.
\<close>

record search_view =
  sv_visible :: bool
  sv_text :: string
  sv_signal :: bool
  sv_rows :: "row list"
  sv_selected :: "nat option"
  sv_category :: entry_type
  sv_allEntries :: "envelope list"
  sv_allNames :: "string list"
  sv_entries :: "envelope list"
  sv_names :: "string list"
  sv_matches :: "fuzzy_match list option"
  sv_timer :: "int option"
  sv_debounceVersion :: int

text \<open>The constructor also starts loading the entries.\<close>

definition NewSearchView :: "'v omni_config \<Rightarrow> 'v desk \<Rightarrow> search_view \<times> 'v desk" where
  "NewSearchView cfg d =
     (\<lparr>sv_visible = True, sv_text = [], sv_signal = False, sv_rows = [], sv_selected = None,
       sv_category = oc_Category cfg, sv_allEntries = [], sv_allNames = [], sv_entries = [], sv_names = [],
       sv_matches = None, sv_timer = None, sv_debounceVersion = 0\<rparr>, go_job LoadList d)"

definition HasQuery :: "search_view \<Rightarrow> bool" where
  "HasQuery sv \<longleftrightarrow> sv_text sv \<noteq> []"

text \<open>Setting another text makes the entry emit its signal later.\<close>

definition set_query :: "string \<Rightarrow> search_view \<Rightarrow> search_view" where
  "set_query t sv = (if t = sv_text sv then sv else sv\<lparr>sv_text := t, sv_signal := True\<rparr>)"

definition ClearQuery :: "search_view \<Rightarrow> search_view" where
  "ClearQuery sv = set_query [] sv"

subsection \<open>Filtering and searching\<close>

text \<open>The loop keeps the names beside their entries.\<close>

fun filter_named :: "entry_type \<Rightarrow> envelope list \<Rightarrow> string list \<Rightarrow> envelope list \<times> string list" where
  "filter_named cat (e # es) (n # ns) =
     (case filter_named cat es ns of (fs, ms) \<Rightarrow> if Type e = cat then (e # fs, n # ms) else (fs, ms))"
| "filter_named cat _ _ = ([], [])"

definition filterByCategory :: "search_view \<Rightarrow> search_view" where
  "filterByCategory sv =
     (if sv_category sv = EntryTypeUnspecified then sv\<lparr>sv_entries := sv_allEntries sv, sv_names := sv_allNames sv\<rparr>
      else case filter_named (sv_category sv) (sv_allEntries sv) (sv_allNames sv) of
        (fs, ns) \<Rightarrow> sv\<lparr>sv_entries := fs, sv_names := ns\<rparr>)"

definition onSearchChanged :: "desktop \<Rightarrow> search_view \<Rightarrow> search_view" where
  "onSearchChanged G sv =
     (let (matches, rows) =
        (if sv_text sv = [] then (None, map buildRow (take maxResults (sv_entries sv)))
         else let ms = Fuzzy_Search (dt_unicode G) (dt_sorter G) (sv_text sv) (sv_names sv) (int maxResults)
              in (if ms = [] then None else Some ms,
                  map (\<lambda>m. buildRow (sv_entries sv ! m_Index m))
                    (filter (\<lambda>m. m_Index m < length (sv_entries sv)) ms)))
      in sv\<lparr>sv_matches := matches, sv_rows := rows, sv_selected := if rows = [] then None else Some 0\<rparr>)"

definition SearchView_SetCategory :: "desktop \<Rightarrow> entry_type \<Rightarrow> search_view \<Rightarrow> search_view" where
  "SearchView_SetCategory G cat sv = onSearchChanged G (filterByCategory (sv\<lparr>sv_category := cat\<rparr>))"

text \<open>
  The signal of the entry restarts the timer; when the timer fires, its function is queued for
  the GTK thread and does nothing there if the version has moved on.
\<close>

definition search_changed :: "search_view \<Rightarrow> search_view" where
  "search_changed sv =
     (let ver = sv_debounceVersion sv + 1
      in sv\<lparr>sv_signal := False, sv_debounceVersion := ver, sv_timer := Some ver\<rparr>)"

definition debounced :: "desktop \<Rightarrow> int \<Rightarrow> search_view \<Rightarrow> search_view" where
  "debounced G ver sv = (if sv_debounceVersion sv \<noteq> ver then sv else onSearchChanged G sv)"

subsection \<open>Selection\<close>

definition SelectNext :: "search_view \<Rightarrow> search_view" where
  "SelectNext sv =
     (case sv_selected sv of
        None \<Rightarrow> if sv_rows sv \<noteq> [] then sv\<lparr>sv_selected := Some 0\<rparr> else sv
      | Some i \<Rightarrow> if i + 1 < length (sv_rows sv) then sv\<lparr>sv_selected := Some (i + 1)\<rparr> else sv)"

definition SelectPrev :: "search_view \<Rightarrow> search_view" where
  "SelectPrev sv =
     (case sv_selected sv of
        None \<Rightarrow> sv
      | Some i \<Rightarrow> if i = 0 then sv else if i - 1 < length (sv_rows sv) then sv\<lparr>sv_selected := Some (i - 1)\<rparr> else sv)"

text \<open>The index in the list is mapped back to the entry by the matches of the search.\<close>

definition entry_at :: "nat \<Rightarrow> search_view \<Rightarrow> envelope option" where
  "entry_at listIndex sv =
     (case sv_matches sv of
        Some ms \<Rightarrow>
          if listIndex \<ge> length ms then None
          else (let i = m_Index (ms ! listIndex)
                in if i \<ge> length (sv_entries sv) then None else Some (sv_entries sv ! i))
      | None \<Rightarrow> if listIndex \<ge> length (sv_entries sv) then None else Some (sv_entries sv ! listIndex))"

definition SelectedEntry :: "search_view \<Rightarrow> envelope option" where
  "SelectedEntry sv = (case sv_selected sv of None \<Rightarrow> None | Some i \<Rightarrow> entry_at i sv)"

definition copyEntryAtIndex :: "'v omni_config \<Rightarrow> nat \<Rightarrow> search_view \<Rightarrow> 'v desk \<Rightarrow> 'v desk" where
  "copyEntryAtIndex cfg listIndex sv d =
     (case entry_at listIndex sv of
        None \<Rightarrow> d
      | Some env \<Rightarrow>
          if oc_GetEntry cfg = None \<or> oc_DecryptAndUse cfg = None then d else go_job (CopyFetch env) d)"

definition CopySelected :: "'v omni_config \<Rightarrow> search_view \<Rightarrow> 'v desk \<Rightarrow> 'v desk" where
  "CopySelected cfg sv d =
     (case sv_selected sv of None \<Rightarrow> d | Some i \<Rightarrow> copyEntryAtIndex cfg i sv d)"

subsection \<open>Goroutines\<close>

definition extractMainValue :: "entry_type \<Rightarrow> bytes \<Rightarrow> string" where
  "extractMainValue t plaintext =
     (if t = EntryTypeLogin then
        (case unmarshal_login plaintext of (Some _, _) \<Rightarrow> [] | (None, l) \<Rightarrow> Password l)
      else if t = EntryTypeSecret then
        (case unmarshal_secret plaintext of (Some _, _) \<Rightarrow> [] | (None, x) \<Rightarrow> secret_Value x)
      else if t = EntryTypeNote then
        (case unmarshal_note plaintext of (Some _, _) \<Rightarrow> [] | (None, x) \<Rightarrow> note_Content x)
      else plaintext)"

text \<open>\<^verbatim>\<open>loadEntries\<close>: the call, and the store under the lock with the queued refresh.\<close>

definition load_fetch :: "'v omni_config \<Rightarrow> 'v desk \<Rightarrow> 'v desk" where
  "load_fetch cfg d =
     (case oc_ListEntries cfg of
        None \<Rightarrow> d
      | Some list_entries \<Rightarrow>
         (case list_entries EntryTypeUnspecified (dk_vault d) of
            (Inl _, v) \<Rightarrow> IdleAddOnce LoadFailed (d\<lparr>dk_vault := v\<rparr>)
          | (Inr es, v) \<Rightarrow> go_job (LoadStore es) (d\<lparr>dk_vault := v\<rparr>)))"

definition load_store :: "envelope list \<Rightarrow> search_view \<Rightarrow> 'v desk \<Rightarrow> search_view \<times> 'v desk" where
  "load_store es sv d =
     (sv\<lparr>sv_allEntries := es, sv_allNames := map Name es\<rparr>, IdleAddOnce Refresh d)"

definition refresh :: "desktop \<Rightarrow> search_view \<Rightarrow> search_view" where
  "refresh G sv = onSearchChanged G (filterByCategory sv)"

text \<open>Fetching an entry for its fresh payload; \<open>continue\<close> is what the goroutine goes on with.\<close>

definition fetch_entry_for :: "(envelope \<Rightarrow> job) \<Rightarrow> 'v omni_config \<Rightarrow> envelope \<Rightarrow> 'v desk \<Rightarrow> 'v desk" where
  "fetch_entry_for continue cfg env d =
     (case oc_GetEntry cfg of
        None \<Rightarrow> d
      | Some get \<Rightarrow>
         (case get (ID env) (dk_vault d) of
            (Inl _, v) \<Rightarrow>
              sendNotify cfg ''Failed to fetch entry'' UrgencyCritical ''dialog-error'' (d\<lparr>dk_vault := v\<rparr>)
          | (Inr full, v) \<Rightarrow> go_job (continue full) (d\<lparr>dk_vault := v\<rparr>)))"

text \<open>The callback of the decryption: whether the value was copied.\<close>

definition copy_plaintext :: "desktop \<Rightarrow> 'v omni_config \<Rightarrow> envelope \<Rightarrow> bytes \<Rightarrow> 'v desk \<Rightarrow> bool \<times> 'v desk" where
  "copy_plaintext G cfg full plaintext d =
     (let val = extractMainValue (Type full) plaintext in
      if val = [] then
        (False, sendNotify cfg ''Entry has no copyable value'' UrgencyNormal ''dialog-warning'' d)
      else case copy_text G val d of
        (Some e, d) \<Rightarrow> (False, sendNotify cfg (copy_failed e) UrgencyCritical ''dialog-error'' d)
      | (None, d) \<Rightarrow>
          (True, sendNotify cfg (''Copied '' @ Name full @ '' to clipboard'') UrgencyLow [] d))"

definition copy_decrypt :: "desktop \<Rightarrow> 'v omni_config \<Rightarrow> envelope \<Rightarrow> 'v desk \<Rightarrow> 'v desk" where
  "copy_decrypt G cfg full d =
     (case oc_DecryptAndUse cfg of
        None \<Rightarrow> d
      | Some decrypt \<Rightarrow>
         (case decrypt (Payload full) (dk_vault d) of
            (err, pt, v) \<Rightarrow>
              let (copyOK, d) = (case pt of
                     None \<Rightarrow> (False, d\<lparr>dk_vault := v\<rparr>)
                   | Some plaintext \<Rightarrow> copy_plaintext G cfg full plaintext (d\<lparr>dk_vault := v\<rparr>))
              in if err \<noteq> None
                 then sendNotify cfg ''Failed to decrypt entry'' UrgencyCritical ''dialog-error'' d
                 else if copyOK then IdleAddOnce QuitOverlay d else d))"

subsection \<open>What the rows stand for\<close>

text \<open>Names go with entries, and each row is the row of the entry its index is mapped to.\<close>

definition names_ok :: "search_view \<Rightarrow> bool" where
  "names_ok sv \<longleftrightarrow> sv_allNames sv = map Name (sv_allEntries sv) \<and> sv_names sv = map Name (sv_entries sv) \<and>
     (\<forall>e \<in> set (sv_entries sv). sv_category sv = EntryTypeUnspecified \<or> Type e = sv_category sv)"

definition rows_ok :: "search_view \<Rightarrow> bool" where
  "rows_ok sv \<longleftrightarrow> length (sv_rows sv) \<le> maxResults \<and>
     (\<forall>i < length (sv_rows sv). map_option buildRow (entry_at i sv) = Some (sv_rows sv ! i)) \<and>
     (case sv_selected sv of None \<Rightarrow> sv_rows sv = [] | Some i \<Rightarrow> i < length (sv_rows sv))"

text \<open>The entries that a search shows, in their order: the abstract meaning of the view.\<close>

definition search_result :: "desktop \<Rightarrow> entry_type \<Rightarrow> string \<Rightarrow> envelope list \<Rightarrow> envelope list" where
  "search_result G cat query all =
     (let es = (if cat = EntryTypeUnspecified then all else filter (\<lambda>e. Type e = cat) all) in
      if query = [] then take maxResults es
      else map (\<lambda>m. es ! m_Index m)
        (Fuzzy_Search (dt_unicode G) (dt_sorter G) query (map Name es) (int maxResults)))"

lemma filter_named_eq:
  "filter_named cat es (map Name es) =
    (filter (\<lambda>e. Type e = cat) es, map Name (filter (\<lambda>e. Type e = cat) es))"
  by (induction es) auto

lemma filterByCategory_eq:
  assumes "sv_allNames sv = map Name (sv_allEntries sv)"
  defines "es \<equiv> if sv_category sv = EntryTypeUnspecified then sv_allEntries sv
    else filter (\<lambda>e. Type e = sv_category sv) (sv_allEntries sv)"
  shows "filterByCategory sv = sv\<lparr>sv_entries := es, sv_names := map Name es\<rparr>"
  using assms by (simp add: filterByCategory_def filter_named_eq)

lemma Fuzzy_Search_index:
  assumes "slice_sort sorter" "m \<in> set (Fuzzy_Search U sorter query items limit)"
  shows "m_Index m < length items"
proof -
  have "m \<in> set (sorter (\<lambda>a b. m_Score a > m_Score b) (collect_matches U (string_fields query) 0 items))"
    using assms(2) by (auto simp: Fuzzy_Search_def Let_def split: if_splits dest: in_set_takeD)
  then show ?thesis
    by (auto simp: slice_sort.sorter_set [OF assms(1)] collect_matches_set)
qed

lemma Fuzzy_Search_length: "0 < limit \<Longrightarrow> int (length (Fuzzy_Search U sorter query items limit)) \<le> limit"
  by (auto simp: Fuzzy_Search_def Let_def)

lemma onSearchChanged_frame [simp]:
  "sv_visible (onSearchChanged G sv) = sv_visible sv" "sv_text (onSearchChanged G sv) = sv_text sv"
  "sv_signal (onSearchChanged G sv) = sv_signal sv" "sv_category (onSearchChanged G sv) = sv_category sv"
  "sv_allEntries (onSearchChanged G sv) = sv_allEntries sv" "sv_allNames (onSearchChanged G sv) = sv_allNames sv"
  "sv_entries (onSearchChanged G sv) = sv_entries sv" "sv_names (onSearchChanged G sv) = sv_names sv"
  "sv_timer (onSearchChanged G sv) = sv_timer sv"
  "sv_debounceVersion (onSearchChanged G sv) = sv_debounceVersion sv"
  by (simp_all add: onSearchChanged_def Let_def split: prod.split)

lemma onSearchChanged_names [simp]: "names_ok (onSearchChanged G sv) = names_ok sv"
  by (simp add: names_ok_def)

lemma onSearchChanged_rows:
  assumes sorter: "slice_sort (dt_sorter G)" and names: "sv_names sv = map Name (sv_entries sv)"
  shows "rows_ok (onSearchChanged G sv)"
    and "sv_rows (onSearchChanged G sv) = map buildRow
      (if sv_text sv = [] then take maxResults (sv_entries sv)
       else map (\<lambda>m. sv_entries sv ! m_Index m)
         (Fuzzy_Search (dt_unicode G) (dt_sorter G) (sv_text sv) (sv_names sv) (int maxResults)))"
proof -
  let ?ms = "Fuzzy_Search (dt_unicode G) (dt_sorter G) (sv_text sv) (sv_names sv) (int maxResults)"
  have index: "m_Index m < length (sv_entries sv)" if "m \<in> set ?ms" for m
    using Fuzzy_Search_index [OF sorter that] names by simp
  then have all: "filter (\<lambda>m. m_Index m < length (sv_entries sv)) ?ms = ?ms" by simp
  have len: "length ?ms \<le> maxResults"
    using Fuzzy_Search_length [of "int maxResults" "dt_unicode G" "dt_sorter G" "sv_text sv" "sv_names sv"]
    by (simp add: maxResults_def)
  show "sv_rows (onSearchChanged G sv) = map buildRow
      (if sv_text sv = [] then take maxResults (sv_entries sv)
       else map (\<lambda>m. sv_entries sv ! m_Index m) ?ms)"
    by (simp add: onSearchChanged_def Let_def all)
  show "rows_ok (onSearchChanged G sv)"
  proof (cases "sv_text sv = []")
    case True
    then show ?thesis by (auto simp: rows_ok_def onSearchChanged_def Let_def entry_at_def maxResults_def)
  next
    case False
    obtain ms where ms: "ms = ?ms" by simp
    have "i < length ms \<Longrightarrow> m_Index (ms ! i) < length (sv_entries sv)" for i
      by (rule index) (simp add: ms [symmetric])
    then show ?thesis
      using False len all unfolding rows_ok_def onSearchChanged_def Let_def ms [symmetric]
      by (auto simp: entry_at_def Let_def dest: leD)
  qed
qed

lemma search_view_shows:
  assumes sorter: "slice_sort (dt_sorter G)" and names: "sv_allNames sv = map Name (sv_allEntries sv)"
  shows "sv_rows (refresh G sv) = map buildRow (search_result G (sv_category sv) (sv_text sv) (sv_allEntries sv))"
    and "rows_ok (refresh G sv)" and "names_ok (refresh G sv)"
  unfolding refresh_def filterByCategory_eq [OF names]
  by (simp_all add: onSearchChanged_rows [OF sorter] search_result_def names_ok_def names Let_def)

end
