(* ===== verification/Entry_Forms.thy ===== *)
theory Entry_Forms
  imports Search_View
begin

text \<open>
  The forms of the overlay: adding an entry (\<^verbatim>\<open>internal/adapters/gui/omnibox/add.go\<close>) and
  showing and editing one (\<^verbatim>\<open>detail.go\<close>). A form maps the fields it has been built with to
  their texts; a field pointer that is nil is a field outside the domain.
\<close>

type_synonym form_texts = "form_field \<Rightarrow> string option"

definition field_text :: "form_texts \<Rightarrow> form_field \<Rightarrow> string" where
  "field_text m f = (case m f of None \<Rightarrow> [] | Some t \<Rightarrow> t)"

definition field_widgets :: "(form_field \<Rightarrow> widget list) \<Rightarrow> form_texts \<Rightarrow> form_field list \<Rightarrow> widget list" where
  "field_widgets w m fs = concat (map (\<lambda>f. if m f \<noteq> None then w f else []) fs)"

subsection \<open>Adding an entry\<close>

datatype add_kind = AddFormLogin | AddFormNote | AddFormSecret

record add_view =
  av_visible :: bool
  av_kind :: add_kind
  av_texts :: form_texts
  av_cancelBtn :: bool
  av_saveBtn :: bool

definition NewAddView :: add_view where
  "NewAddView = \<lparr>av_visible = True, av_kind = AddFormLogin, av_texts = Map.empty,
     av_cancelBtn = False, av_saveBtn = False\<rparr>"

fun add_fields :: "add_kind \<Rightarrow> form_field list" where
  "add_fields AddFormLogin = [LoginSite, LoginUsername, LoginPassword]"
| "add_fields AddFormNote = [NoteName, NoteContent]"
| "add_fields AddFormSecret = [SecretName, SecretValue]"

definition buildLoginForm :: "form_texts \<Rightarrow> form_texts" where
  "buildLoginForm m = m(LoginSite \<mapsto> [], LoginUsername \<mapsto> [], LoginPassword \<mapsto> [])"

definition buildNoteForm :: "form_texts \<Rightarrow> form_texts" where
  "buildNoteForm m = m(NoteName \<mapsto> [], NoteContent \<mapsto> [])"

definition buildSecretForm :: "form_texts \<Rightarrow> form_texts" where
  "buildSecretForm m = m(SecretName \<mapsto> [], SecretValue \<mapsto> [])"

definition add_buildForm :: "add_view \<Rightarrow> add_view" where
  "add_buildForm av =
     av\<lparr>av_texts :=
          (case av_kind av of
             AddFormLogin \<Rightarrow> buildLoginForm Map.empty
           | AddFormNote \<Rightarrow> buildNoteForm Map.empty
           | AddFormSecret \<Rightarrow> buildSecretForm Map.empty),
        av_cancelBtn := True, av_saveBtn := True\<rparr>"

definition AddView_SetCategory :: "entry_type \<Rightarrow> add_view \<Rightarrow> add_view" where
  "AddView_SetCategory cat av =
     add_buildForm (av\<lparr>av_kind :=
       (if cat = EntryTypeNote then AddFormNote
        else if cat = EntryTypeSecret then AddFormSecret else AddFormLogin)\<rparr>)"

definition AddView_Focusables :: "add_view \<Rightarrow> widget list" where
  "AddView_Focusables av =
     field_widgets (\<lambda>f. [AddField f]) (av_texts av) (add_fields (av_kind av)) @
     (if av_cancelBtn av then [AddCancel] else []) @ (if av_saveBtn av then [AddSaveButton] else [])"

definition collectLogin :: "desktop \<Rightarrow> form_texts \<Rightarrow> envelope option" where
  "collectLogin G m =
     (case (m LoginSite, m LoginUsername, m LoginPassword) of
        (Some site, Some username, Some password) \<Rightarrow>
          if site = [] \<and> username = [] then None
          else Some (zero_envelope\<lparr>Name := DeriveLoginName (dt_urls G) site username, Type := EntryTypeLogin,
                 Meta := [(''username'', username), (''site'', site)],
                 Payload := marshal_login \<lparr>Site = site, Username = username, Password = password, Notes = []\<rparr>\<rparr>)
      | _ \<Rightarrow> None)"

definition collectNote :: "form_texts \<Rightarrow> envelope option" where
  "collectNote m =
     (case (m NoteName, m NoteContent) of
        (Some name, Some content) \<Rightarrow>
          if name = [] then None
          else Some (zero_envelope\<lparr>Name := name, Type := EntryTypeNote,
                 Payload := marshal_note \<lparr>note_Name = name, note_Content = content\<rparr>\<rparr>)
      | _ \<Rightarrow> None)"

definition collectSecret :: "form_texts \<Rightarrow> envelope option" where
  "collectSecret m =
     (case (m SecretName, m SecretValue) of
        (Some name, Some val) \<Rightarrow>
          if name = [] then None
          else Some (zero_envelope\<lparr>Name := name, Type := EntryTypeSecret,
                 Payload := marshal_secret \<lparr>secret_Name = name, secret_Value = val\<rparr>\<rparr>)
      | _ \<Rightarrow> None)"

definition add_collectEnvelope :: "desktop \<Rightarrow> add_view \<Rightarrow> envelope option" where
  "add_collectEnvelope G av =
     (case av_kind av of
        AddFormLogin \<Rightarrow> collectLogin G (av_texts av)
      | AddFormNote \<Rightarrow> collectNote (av_texts av)
      | AddFormSecret \<Rightarrow> collectSecret (av_texts av))"

definition add_doSave :: "desktop \<Rightarrow> 'v omni_config \<Rightarrow> add_view \<Rightarrow> 'v desk \<Rightarrow> 'v desk" where
  "add_doSave G cfg av d =
     (case add_collectEnvelope G av of
        None \<Rightarrow> d
      | Some env \<Rightarrow> if oc_AddEntry cfg = None then d else go_job (AddSave env) d)"

text \<open>The goroutines that \<^verbatim>\<open>doSave\<close> of either form starts.\<close>

definition save_entry :: "'v omni_config \<Rightarrow> (envelope \<Rightarrow> 'v \<Rightarrow> go_error option \<times> envelope \<times> 'v) option \<Rightarrow>
    string \<Rightarrow> string \<Rightarrow> idle \<Rightarrow> envelope \<Rightarrow> 'v desk \<Rightarrow> 'v desk" where
  "save_entry cfg save failed saved finished env d =
     (case save of
        None \<Rightarrow> d
      | Some save_to \<Rightarrow>
         (case save_to env (dk_vault d) of
            (Some e, _, v) \<Rightarrow>
              sendNotify cfg (failed @ '': '' @ error_string e) UrgencyCritical ''dialog-error'' (d\<lparr>dk_vault := v\<rparr>)
          | (None, env, v) \<Rightarrow>
              IdleAddOnce finished (sendNotify cfg (saved @ Name env) UrgencyLow [] (d\<lparr>dk_vault := v\<rparr>))))"

definition add_save :: "'v omni_config \<Rightarrow> envelope \<Rightarrow> 'v desk \<Rightarrow> 'v desk" where
  "add_save cfg = save_entry cfg (oc_AddEntry cfg) ''Failed to save entry'' ''Saved '' AddDone"

definition detail_save :: "'v omni_config \<Rightarrow> envelope \<Rightarrow> 'v desk \<Rightarrow> 'v desk" where
  "detail_save cfg = save_entry cfg (oc_UpdateEntry cfg) ''Failed to update entry'' ''Updated '' UpdateDone"

subsection \<open>Showing and editing an entry\<close>

datatype detail_kind = DetailFormLogin | DetailFormNote | DetailFormSecret

text \<open>The button that copies a field is there when its field is.\<close>

record detail_view =
  dv_visible :: bool
  dv_kind :: detail_kind
  dv_env :: "envelope option"
  dv_texts :: form_texts
  dv_backBtn :: bool
  dv_saveBtn :: bool

definition NewDetailView :: detail_view where
  "NewDetailView = \<lparr>dv_visible = False, dv_kind = DetailFormLogin, dv_env = None, dv_texts = Map.empty,
     dv_backBtn = False, dv_saveBtn = False\<rparr>"

definition parse_warning :: "'v omni_config \<Rightarrow> go_error option \<Rightarrow> 'v desk \<Rightarrow> 'v desk" where
  "parse_warning cfg err d =
     (if err \<noteq> None then sendNotify cfg ''Failed to parse entry data'' UrgencyNormal ''dialog-warning'' d else d)"

definition buildLoginDetail :: "desktop \<Rightarrow> 'v omni_config \<Rightarrow> bytes \<Rightarrow> form_texts \<Rightarrow> 'v desk \<Rightarrow> form_texts \<times> 'v desk" where
  "buildLoginDetail G cfg plaintext m d =
     (case unmarshal_login plaintext of
        (err, login) \<Rightarrow>
          (m(LoginSite \<mapsto> dt_text G (Site login), LoginUsername \<mapsto> dt_text G (Username login),
             LoginPassword \<mapsto> dt_text G (Password login), LoginNotes \<mapsto> dt_text G (Notes login)),
           parse_warning cfg err d))"

definition buildNoteDetail :: "desktop \<Rightarrow> 'v omni_config \<Rightarrow> bytes \<Rightarrow> form_texts \<Rightarrow> 'v desk \<Rightarrow> form_texts \<times> 'v desk" where
  "buildNoteDetail G cfg plaintext m d =
     (case unmarshal_note plaintext of
        (err, note) \<Rightarrow>
          (m(NoteName \<mapsto> dt_text G (note_Name note), NoteContent \<mapsto> dt_text G (note_Content note)),
           parse_warning cfg err d))"

definition buildSecretDetail :: "desktop \<Rightarrow> 'v omni_config \<Rightarrow> bytes \<Rightarrow> form_texts \<Rightarrow> 'v desk \<Rightarrow> form_texts \<times> 'v desk" where
  "buildSecretDetail G cfg plaintext m d =
     (case unmarshal_secret plaintext of
        (err, secret) \<Rightarrow>
          (m(SecretName \<mapsto> dt_text G (secret_Name secret), SecretValue \<mapsto> dt_text G (secret_Value secret)),
           parse_warning cfg err d))"

definition resetFields :: "detail_view \<Rightarrow> detail_view" where
  "resetFields dv = dv\<lparr>dv_texts := Map.empty, dv_backBtn := False, dv_saveBtn := False\<rparr>"

definition detail_buildForm :: "desktop \<Rightarrow> 'v omni_config \<Rightarrow> bytes \<Rightarrow> detail_view \<Rightarrow> 'v desk \<Rightarrow> detail_view \<times> 'v desk" where
  "detail_buildForm G cfg plaintext dv d =
     (let dv = resetFields dv in
      case (case dv_kind dv of
              DetailFormLogin \<Rightarrow> buildLoginDetail G cfg plaintext (dv_texts dv) d
            | DetailFormNote \<Rightarrow> buildNoteDetail G cfg plaintext (dv_texts dv) d
            | DetailFormSecret \<Rightarrow> buildSecretDetail G cfg plaintext (dv_texts dv) d) of
        (m, d) \<Rightarrow> (dv\<lparr>dv_texts := m, dv_backBtn := True, dv_saveBtn := True\<rparr>, d))"

definition detail_kind_of :: "entry_type \<Rightarrow> detail_kind" where
  "detail_kind_of t =
     (if t = EntryTypeNote then DetailFormNote
      else if t = EntryTypeSecret then DetailFormSecret else DetailFormLogin)"

definition DetailView_Show :: "desktop \<Rightarrow> 'v omni_config \<Rightarrow> envelope \<Rightarrow> bytes \<Rightarrow> detail_view \<Rightarrow> 'v desk \<Rightarrow>
    detail_view \<times> 'v desk" where
  "DetailView_Show G cfg env plaintext dv d =
     (case detail_buildForm G cfg plaintext (dv\<lparr>dv_env := Some env, dv_kind := detail_kind_of (Type env)\<rparr>) d of
        (dv, d) \<Rightarrow> (dv\<lparr>dv_visible := True\<rparr>, d))"

fun detail_fields :: "detail_kind \<Rightarrow> form_field list" where
  "detail_fields DetailFormLogin = [LoginSite, LoginUsername, LoginPassword, LoginNotes]"
| "detail_fields DetailFormNote = [NoteName, NoteContent]"
| "detail_fields DetailFormSecret = [SecretName, SecretValue]"

definition DetailView_Focusables :: "detail_view \<Rightarrow> widget list" where
  "DetailView_Focusables dv =
     field_widgets (\<lambda>f. [DetailField f, DetailCopy f]) (dv_texts dv) (detail_fields (dv_kind dv)) @
     (if dv_backBtn dv then [DetailBack] else []) @ (if dv_saveBtn dv then [DetailSaveButton] else [])"

definition click_copy :: "form_field \<Rightarrow> detail_view \<Rightarrow> 'v desk \<Rightarrow> 'v desk" where
  "click_copy f dv d =
     (let val = field_text (dv_texts dv) f in if val = [] then d else go_job (CopyField val) d)"

definition copy_field :: "desktop \<Rightarrow> 'v omni_config \<Rightarrow> string \<Rightarrow> 'v desk \<Rightarrow> 'v desk" where
  "copy_field G cfg val d =
     (case copy_text G val d of
        (Some e, d) \<Rightarrow> sendNotify cfg (copy_failed e) UrgencyCritical ''dialog-error'' d
      | (None, d) \<Rightarrow> sendNotify cfg ''Copied to clipboard'' UrgencyLow [] d)"

definition collectLoginDetail :: "desktop \<Rightarrow> envelope \<Rightarrow> form_texts \<Rightarrow> envelope option" where
  "collectLoginDetail G env m =
     (case (m LoginSite, m LoginUsername, m LoginPassword) of
        (Some site, Some username, Some password) \<Rightarrow>
          Some (zero_envelope\<lparr>ID := ID env, Name := DeriveLoginName (dt_urls G) site username,
            Type := EntryTypeLogin, Meta := [(''username'', username), (''site'', site)],
            Payload := marshal_login \<lparr>Site = site, Username = username, Password = password,
              Notes = field_text m LoginNotes\<rparr>,
            CreatedAt := CreatedAt env\<rparr>)
      | _ \<Rightarrow> None)"

definition collectNoteDetail :: "envelope \<Rightarrow> form_texts \<Rightarrow> envelope option" where
  "collectNoteDetail env m =
     (case (m NoteName, m NoteContent) of
        (Some name, Some content) \<Rightarrow>
          if name = [] then None
          else Some (zero_envelope\<lparr>ID := ID env, Name := name, Type := EntryTypeNote,
            Payload := marshal_note \<lparr>note_Name = name, note_Content = content\<rparr>, CreatedAt := CreatedAt env\<rparr>)
      | _ \<Rightarrow> None)"

definition collectSecretDetail :: "envelope \<Rightarrow> form_texts \<Rightarrow> envelope option" where
  "collectSecretDetail env m =
     (case (m SecretName, m SecretValue) of
        (Some name, Some val) \<Rightarrow>
          if name = [] then None
          else Some (zero_envelope\<lparr>ID := ID env, Name := name, Type := EntryTypeSecret,
            Payload := marshal_secret \<lparr>secret_Name = name, secret_Value = val\<rparr>, CreatedAt := CreatedAt env\<rparr>)
      | _ \<Rightarrow> None)"

definition detail_collectEnvelope :: "desktop \<Rightarrow> detail_view \<Rightarrow> envelope option" where
  "detail_collectEnvelope G dv =
     (case dv_env dv of
        None \<Rightarrow> None
      | Some env \<Rightarrow>
         (case dv_kind dv of
            DetailFormLogin \<Rightarrow> collectLoginDetail G env (dv_texts dv)
          | DetailFormNote \<Rightarrow> collectNoteDetail env (dv_texts dv)
          | DetailFormSecret \<Rightarrow> collectSecretDetail env (dv_texts dv)))"

definition detail_doSave :: "desktop \<Rightarrow> 'v omni_config \<Rightarrow> detail_view \<Rightarrow> 'v desk \<Rightarrow> 'v desk" where
  "detail_doSave G cfg dv d =
     (case detail_collectEnvelope G dv of
        None \<Rightarrow> d
      | Some env \<Rightarrow> if oc_UpdateEntry cfg = None then d else go_job (UpdateSave env) d)"

subsection \<open>What the forms keep\<close>

lemma parse_warning_simps [simp]:
  "dk_jobs (parse_warning cfg err d) = dk_jobs d" "dk_idle (parse_warning cfg err d) = dk_idle d"
  "dk_vault (parse_warning cfg err d) = dk_vault d" "dk_copied (parse_warning cfg err d) = dk_copied d"
  "parse_warning cfg None d = d"
  by (simp_all add: parse_warning_def)

lemma build_detail_desk [simp]:
  "dk_jobs (snd (DetailView_Show G cfg env pt dv d)) = dk_jobs d"
  "dk_idle (snd (DetailView_Show G cfg env pt dv d)) = dk_idle d"
  "dk_vault (snd (DetailView_Show G cfg env pt dv d)) = dk_vault d"
  "dk_copied (snd (DetailView_Show G cfg env pt dv d)) = dk_copied d"
  by (simp_all add: DetailView_Show_def detail_buildForm_def buildLoginDetail_def buildNoteDetail_def
      buildSecretDetail_def Let_def split: prod.split detail_kind.split)

lemma DetailView_Show_visible [simp]: "dv_visible (fst (DetailView_Show G cfg env pt dv d))"
  by (simp add: DetailView_Show_def split: prod.split)

text \<open>
  An entry whose payload reads back, shown and saved as it is, is updated under its identifier
  with the fields it had. Its name is derived anew, and a note or secret loses its metadata.
\<close>

lemma detail_keeps_login:
  assumes keeps: "\<And>s. s \<in> {Site l, Username l, Password l, Notes l} \<Longrightarrow> dt_text G s = s"
    and body: "Type env = EntryTypeLogin" "unmarshal_login pt = (None, l)"
  shows "detail_collectEnvelope G (fst (DetailView_Show G cfg env pt dv d)) =
    Some (zero_envelope\<lparr>ID := ID env, Name := DeriveLoginName (dt_urls G) (Site l) (Username l),
      Type := EntryTypeLogin, Meta := [(''username'', Username l), (''site'', Site l)],
      Payload := marshal_login l, CreatedAt := CreatedAt env\<rparr>)"
  using assms
  by (cases l) (simp add: detail_collectEnvelope_def DetailView_Show_def detail_buildForm_def resetFields_def
      buildLoginDetail_def collectLoginDetail_def detail_kind_of_def entry_type_defs field_text_def)

lemma detail_keeps_note:
  assumes keeps: "dt_text G (note_Name n) = note_Name n" "dt_text G (note_Content n) = note_Content n"
    and body: "Type env = EntryTypeNote" "unmarshal_note pt = (None, n)" "note_Name n \<noteq> []"
  shows "detail_collectEnvelope G (fst (DetailView_Show G cfg env pt dv d)) =
    Some (zero_envelope\<lparr>ID := ID env, Name := note_Name n, Type := EntryTypeNote,
      Payload := marshal_note n, CreatedAt := CreatedAt env\<rparr>)"
  using assms
  by (cases n) (simp add: detail_collectEnvelope_def DetailView_Show_def detail_buildForm_def resetFields_def
      buildNoteDetail_def collectNoteDetail_def detail_kind_of_def)

lemma detail_keeps_secret:
  assumes keeps: "dt_text G (secret_Name x) = secret_Name x" "dt_text G (secret_Value x) = secret_Value x"
    and body: "Type env = EntryTypeSecret" "unmarshal_secret pt = (None, x)" "secret_Name x \<noteq> []"
  shows "detail_collectEnvelope G (fst (DetailView_Show G cfg env pt dv d)) =
    Some (zero_envelope\<lparr>ID := ID env, Name := secret_Name x, Type := EntryTypeSecret,
      Payload := marshal_secret x, CreatedAt := CreatedAt env\<rparr>)"
  using assms
  by (cases x) (simp add: detail_collectEnvelope_def DetailView_Show_def detail_buildForm_def resetFields_def
      buildSecretDetail_def collectSecretDetail_def detail_kind_of_def entry_type_defs)

text \<open>
  An entry of an unspecified type, or a login that does not parse, comes up as a login form with
  what could be read, and saving replaces the entry by that.
\<close>

lemma detail_overwrites_unparsed:
  assumes "Type env = EntryTypeUnspecified" "parse_json pt = None" "dt_text G [] = []"
  shows "detail_collectEnvelope G (fst (DetailView_Show G cfg env pt dv d)) =
    Some (zero_envelope\<lparr>ID := ID env, Name := DeriveLoginName (dt_urls G) [] [], Type := EntryTypeLogin,
      Meta := [(''username'', []), (''site'', [])], Payload := marshal_login zero_login,
      CreatedAt := CreatedAt env\<rparr>)"
  using assms
  by (simp add: detail_collectEnvelope_def DetailView_Show_def detail_buildForm_def resetFields_def
      buildLoginDetail_def collectLoginDetail_def detail_kind_of_def entry_type_defs field_text_def
      unmarshal_login_def json_unmarshal_def zero_login_def)

end
