(* ===== verification/Omnibox.thy ===== *)
theory Omnibox
  imports Entry_Forms Commands
begin

text \<open>
  The overlay of \<^verbatim>\<open>internal/adapters/gui/omnibox/omnibox.go\<close>: the two tab bars, the three views,
  the focus ring and the keys. What happens to it is an event: a key, a click, an edit, a signal
  of the search entry, the debounce timer, a goroutine that goes on, a function of the idle queue.
  Between any two of them any other may come. A hidden widget cannot be clicked or edited and
  does not take the focus.
\<close>

subsection \<open>State\<close>

record 'v omnibox =
  ob_modeBar :: tab_bar
  ob_categoryBar :: tab_bar
  ob_search :: search_view
  ob_add :: add_view
  ob_detail :: detail_view
  ob_mode :: nat
  ob_ring :: "widget ring"
  ob_focus :: "widget option"
  ob_desk :: "'v desk"
  ob_quit :: bool

definition categoryToIndex :: "entry_type \<Rightarrow> int" where
  "categoryToIndex t =
     (if t = EntryTypeLogin then 1 else if t = EntryTypeNote then 2 else if t = EntryTypeSecret then 3 else 0)"

definition indexToCategory :: "int \<Rightarrow> entry_type" where
  "indexToCategory i =
     (if i = 1 then EntryTypeLogin else if i = 2 then EntryTypeNote
      else if i = 3 then EntryTypeSecret else EntryTypeUnspecified)"

text \<open>A tab is seen when its bar and its button are, a widget of a view when the view is.\<close>

definition tab_shown :: "nat \<Rightarrow> tab_bar \<Rightarrow> bool" where
  "tab_shown i t \<longleftrightarrow> tb_visible t \<and> i < length (tb_buttons t) \<and> tb_buttons t ! i"

fun shown :: "'v omnibox \<Rightarrow> widget \<Rightarrow> bool" where
  "shown ob SearchEntry \<longleftrightarrow> sv_visible (ob_search ob)"
| "shown ob (ModeTab i) \<longleftrightarrow> tab_shown i (ob_modeBar ob)"
| "shown ob (CategoryTab i) \<longleftrightarrow> tab_shown i (ob_categoryBar ob)"
| "shown ob (AddField f) \<longleftrightarrow> av_visible (ob_add ob) \<and> av_texts (ob_add ob) f \<noteq> None"
| "shown ob AddCancel \<longleftrightarrow> av_visible (ob_add ob) \<and> av_cancelBtn (ob_add ob)"
| "shown ob AddSaveButton \<longleftrightarrow> av_visible (ob_add ob) \<and> av_saveBtn (ob_add ob)"
| "shown ob (DetailField f) \<longleftrightarrow> dv_visible (ob_detail ob) \<and> dv_texts (ob_detail ob) f \<noteq> None"
| "shown ob (DetailCopy f) \<longleftrightarrow> dv_visible (ob_detail ob) \<and> dv_texts (ob_detail ob) f \<noteq> None"
| "shown ob DetailBack \<longleftrightarrow> dv_visible (ob_detail ob) \<and> dv_backBtn (ob_detail ob)"
| "shown ob DetailSaveButton \<longleftrightarrow> dv_visible (ob_detail ob) \<and> dv_saveBtn (ob_detail ob)"

definition GrabFocus :: "widget option \<Rightarrow> 'v omnibox \<Rightarrow> 'v omnibox" where
  "GrabFocus w ob =
     (case w of None \<Rightarrow> ob | Some x \<Rightarrow> if shown ob x then ob\<lparr>ob_focus := w\<rparr> else ob)"

definition HasFocus :: "'v omnibox \<Rightarrow> widget \<Rightarrow> bool" where
  "HasFocus ob w \<longleftrightarrow> ob_focus ob = Some w \<and> shown ob w"

definition isTabButtonFocused :: "'v omnibox \<Rightarrow> bool" where
  "isTabButtonFocused ob \<longleftrightarrow> list_ex (\<lambda>i. HasFocus ob (ModeTab i)) [0..<TabBar_Len (ob_modeBar ob)]"

definition on_desk :: "('v desk \<Rightarrow> 'v desk) \<Rightarrow> 'v omnibox \<Rightarrow> 'v omnibox" where
  "on_desk f ob = ob\<lparr>ob_desk := f (ob_desk ob)\<rparr>"

subsection \<open>Modes\<close>

definition ring_widgets :: "'v omnibox \<Rightarrow> widget list" where
  "ring_widgets ob =
     (let tabs = map ModeTab [0..<TabBar_Len (ob_modeBar ob)] in
      if ob_mode ob = 1 then AddView_Focusables (ob_add ob) @ tabs
      else if ob_mode ob = 2 then DetailView_Focusables (ob_detail ob)
      else SearchEntry # tabs)"

definition rebuildFocusRing :: "'v omnibox \<Rightarrow> 'v omnibox" where
  "rebuildFocusRing ob = ob\<lparr>ob_ring := Ring_SetWidgets (ring_widgets ob) (ob_ring ob)\<rparr>"

definition onCategoryChange :: "desktop \<Rightarrow> int \<Rightarrow> 'v omnibox \<Rightarrow> 'v omnibox" where
  "onCategoryChange G index ob =
     (let cat = indexToCategory index;
          ob = ob\<lparr>ob_search := SearchView_SetCategory G cat (ob_search ob)\<rparr>
      in if ob_mode ob = 1 then rebuildFocusRing (ob\<lparr>ob_add := AddView_SetCategory cat (ob_add ob)\<rparr>) else ob)"

definition categoryBar_SetActive :: "desktop \<Rightarrow> int \<Rightarrow> 'v omnibox \<Rightarrow> 'v omnibox" where
  "categoryBar_SetActive G index ob =
     (case TabBar_SetActive index (ob_categoryBar ob) of
        None \<Rightarrow> ob
      | Some t \<Rightarrow> onCategoryChange G index (ob\<lparr>ob_categoryBar := t\<rparr>))"

text \<open>The end of the change to the add mode, when the tab All is already hidden.\<close>

definition enter_add_mode :: "desktop \<Rightarrow> 'v omnibox \<Rightarrow> 'v omnibox" where
  "enter_add_mode G ob =
     (let ob = (if tb_active (ob_categoryBar ob) = 0 then categoryBar_SetActive G 1 ob else ob);
          cat = indexToCategory (int (tb_active (ob_categoryBar ob)))
      in rebuildFocusRing
           (ob\<lparr>ob_search := (ob_search ob)\<lparr>sv_visible := False\<rparr>,
               ob_add := (AddView_SetCategory cat (ob_add ob))\<lparr>av_visible := True\<rparr>\<rparr>))"

definition setMode :: "desktop \<Rightarrow> nat \<Rightarrow> 'v omnibox \<Rightarrow> 'v omnibox" where
  "setMode G index ob =
     (let ob = ob\<lparr>ob_mode := index, ob_detail := (ob_detail ob)\<lparr>dv_visible := False\<rparr>,
                  ob_modeBar := (ob_modeBar ob)\<lparr>tb_visible := True\<rparr>\<rparr>
      in if index = 0 then
           GrabFocus (Some SearchEntry) (rebuildFocusRing
             (ob\<lparr>ob_categoryBar := TabBar_SetButtonVisible 0 True (ob_categoryBar ob),
                 ob_add := (ob_add ob)\<lparr>av_visible := False\<rparr>,
                 ob_search := (ob_search ob)\<lparr>sv_visible := True\<rparr>\<rparr>))
         else
           enter_add_mode G (ob\<lparr>ob_categoryBar := TabBar_SetButtonVisible 0 False (ob_categoryBar ob)\<rparr>))"

definition modeBar_SetActive :: "desktop \<Rightarrow> int \<Rightarrow> 'v omnibox \<Rightarrow> 'v omnibox" where
  "modeBar_SetActive G index ob =
     (case TabBar_SetActive index (ob_modeBar ob) of
        None \<Rightarrow> ob
      | Some t \<Rightarrow> setMode G (nat index) (ob\<lparr>ob_modeBar := t\<rparr>))"

definition switchToSearch :: "desktop \<Rightarrow> 'v omnibox \<Rightarrow> 'v omnibox" where
  "switchToSearch G ob = on_desk (go_job LoadList) (setMode G 0 (modeBar_SetActive G 0 ob))"

definition switchToDetailView :: "desktop \<Rightarrow> 'v omni_config \<Rightarrow> envelope \<Rightarrow> bytes \<Rightarrow> 'v omnibox \<Rightarrow> 'v omnibox" where
  "switchToDetailView G cfg env plaintext ob =
     (let ob = ob\<lparr>ob_mode := 2, ob_search := (ob_search ob)\<lparr>sv_visible := False\<rparr>,
                  ob_add := (ob_add ob)\<lparr>av_visible := False\<rparr>,
                  ob_modeBar := (ob_modeBar ob)\<lparr>tb_visible := False\<rparr>,
                  ob_categoryBar := (ob_categoryBar ob)\<lparr>tb_visible := False\<rparr>\<rparr>;
          (dv, d) = DetailView_Show G cfg env plaintext (ob_detail ob) (ob_desk ob)
      in rebuildFocusRing (ob\<lparr>ob_detail := dv, ob_desk := d\<rparr>))"

definition openDetail :: "'v omni_config \<Rightarrow> 'v omnibox \<Rightarrow> 'v omnibox" where
  "openDetail cfg ob =
     (case SelectedEntry (ob_search ob) of
        None \<Rightarrow> ob
      | Some env \<Rightarrow>
          if oc_GetEntry cfg = None \<or> oc_DecryptAndUse cfg = None then ob
          else on_desk (go_job (OpenFetch env)) ob)"

definition open_decrypt :: "'v omni_config \<Rightarrow> envelope \<Rightarrow> 'v desk \<Rightarrow> 'v desk" where
  "open_decrypt cfg full d =
     (case oc_DecryptAndUse cfg of
        None \<Rightarrow> d
      | Some decrypt \<Rightarrow>
         (case decrypt (Payload full) (dk_vault d) of
            (err, pt, v) \<Rightarrow>
              let d = d\<lparr>dk_vault := v\<rparr>;
                  d = (case pt of None \<Rightarrow> d | Some plaintext \<Rightarrow> IdleAddOnce (ShowDetail full plaintext) d)
              in if err \<noteq> None
                 then sendNotify cfg ''Failed to decrypt entry'' UrgencyCritical ''dialog-error'' d else d))"

subsection \<open>Construction\<close>

text \<open>
  A category in the configuration makes the category bar call back before there is a search
  view, which dereferences a nil pointer.
\<close>

definition New :: "desktop \<Rightarrow> 'v omni_config \<Rightarrow> 'v desk \<Rightarrow> 'v omnibox go" where
  "New G cfg d =
     (if oc_Category cfg \<noteq> EntryTypeUnspecified
      then Panic ''invalid memory address or nil pointer dereference''
      else
        (let (sv, d) = NewSearchView cfg d;
             ob = rebuildFocusRing
               \<lparr>ob_modeBar = NewTabBar [''Search'', ''Add''],
                ob_categoryBar = NewTabBar [''All'', ''Login'', ''Note'', ''Secret''],
                ob_search = sv, ob_add = NewAddView\<lparr>av_visible := False\<rparr>, ob_detail = NewDetailView,
                ob_mode = 0, ob_ring = Ring_New [], ob_focus = None, ob_desk = d, ob_quit = False\<rparr>
         in Ok (if oc_Mode cfg = OmniboxModeAdd then modeBar_SetActive G 1 ob else ob)))"

definition State :: "'v omnibox \<Rightarrow> nat \<times> nat \<times> string" where
  "State ob = (ob_mode ob, tb_active (ob_categoryBar ob), sv_text (ob_search ob))"

definition RestoreState :: "desktop \<Rightarrow> nat \<times> nat \<times> string \<Rightarrow> 'v omnibox \<Rightarrow> 'v omnibox" where
  "RestoreState G st ob =
     (case st of
        (mode, category, query) \<Rightarrow>
          let ob = (if category > 0 then categoryBar_SetActive G (int category) ob else ob);
              ob = (if query \<noteq> [] then ob\<lparr>ob_search := set_query query (ob_search ob)\<rparr> else ob)
          in if mode = 1 then modeBar_SetActive G 1 ob else ob)"

subsection \<open>Keys\<close>

datatype key = KEY_Escape | KEY_Tab | KEY_ISO_Left_Tab | KEY_1 | KEY_2 | KEY_3 | KEY_4
  | KEY_Up | KEY_Down | KEY_Return | KEY_other

definition handleEscape :: "desktop \<Rightarrow> 'v omnibox \<Rightarrow> 'v omnibox" where
  "handleEscape G ob =
     (if ob_mode ob \<noteq> 0 then switchToSearch G ob
      else if HasQuery (ob_search ob) then ob\<lparr>ob_search := ClearQuery (ob_search ob)\<rparr>
      else ob\<lparr>ob_quit := True\<rparr>)"

definition ctrl_digit :: "desktop \<Rightarrow> nat \<Rightarrow> 'v omnibox \<Rightarrow> 'v omnibox" where
  "ctrl_digit G n ob =
     (if ob_mode ob = 1
      then if n + 1 > 3 then ob else categoryBar_SetActive G (int (n + 1)) ob
      else categoryBar_SetActive G (int n) ob)"

definition move_focus :: "widget option \<times> widget ring \<Rightarrow> 'v omnibox \<Rightarrow> 'v omnibox" where
  "move_focus m ob = GrabFocus (fst m) (ob\<lparr>ob_ring := snd m\<rparr>)"

text \<open>The first component: the key is handled and does not reach the widget with the focus.\<close>

definition keyPressed :: "desktop \<Rightarrow> 'v omni_config \<Rightarrow> key \<Rightarrow> bool \<Rightarrow> 'v omnibox \<Rightarrow> bool \<times> 'v omnibox" where
  "keyPressed G cfg k ctrl ob =
     (case k of
        KEY_Escape \<Rightarrow> (True, handleEscape G ob)
      | KEY_Tab \<Rightarrow> (True, move_focus (Ring_Next (ob_ring ob)) ob)
      | KEY_ISO_Left_Tab \<Rightarrow> (True, move_focus (Ring_Prev (ob_ring ob)) ob)
      | KEY_1 \<Rightarrow> if ctrl then (True, ctrl_digit G 0 ob) else (False, ob)
      | KEY_2 \<Rightarrow> if ctrl then (True, ctrl_digit G 1 ob) else (False, ob)
      | KEY_3 \<Rightarrow> if ctrl then (True, ctrl_digit G 2 ob) else (False, ob)
      | KEY_4 \<Rightarrow> if ctrl then (True, ctrl_digit G 3 ob) else (False, ob)
      | KEY_Up \<Rightarrow>
          if ob_mode ob = 0 then (True, ob\<lparr>ob_search := SelectPrev (ob_search ob)\<rparr>) else (False, ob)
      | KEY_Down \<Rightarrow>
          if ob_mode ob = 0 then (True, ob\<lparr>ob_search := SelectNext (ob_search ob)\<rparr>) else (False, ob)
      | KEY_Return \<Rightarrow>
          if isTabButtonFocused ob then (False, ob)
          else if ob_mode ob = 0 then
            (True, if ctrl then openDetail cfg ob else on_desk (CopySelected cfg (ob_search ob)) ob)
          else (False, ob)
      | KEY_other \<Rightarrow> (False, ob))"

subsection \<open>Events\<close>

datatype ui_event =
    KeyPressed key bool
  | TypeQuery string
  | SearchChanged
  | TimerFires
  | Click widget
  | ClickRow nat
  | ClickQuit
  | EditAdd form_field string
  | EditDetail form_field string
  | FocusMoves "widget option"
  | RunJob nat
  | RunIdle

fun run_job :: "desktop \<Rightarrow> 'v omni_config \<Rightarrow> job \<Rightarrow> 'v omnibox \<Rightarrow> 'v omnibox" where
  "run_job G cfg LoadList ob = on_desk (load_fetch cfg) ob"
| "run_job G cfg (LoadStore es) ob =
     (case load_store es (ob_search ob) (ob_desk ob) of (sv, d) \<Rightarrow> ob\<lparr>ob_search := sv, ob_desk := d\<rparr>)"
| "run_job G cfg (DebounceElapsed ver) ob = on_desk (IdleAddOnce (Debounced ver)) ob"
| "run_job G cfg (CopyFetch env) ob = on_desk (fetch_entry_for CopyDecrypt cfg env) ob"
| "run_job G cfg (CopyDecrypt full) ob = on_desk (copy_decrypt G cfg full) ob"
| "run_job G cfg (CopyField val) ob = on_desk (copy_field G cfg val) ob"
| "run_job G cfg (OpenFetch env) ob = on_desk (fetch_entry_for OpenDecrypt cfg env) ob"
| "run_job G cfg (OpenDecrypt full) ob = on_desk (open_decrypt cfg full) ob"
| "run_job G cfg (AddSave env) ob = on_desk (add_save cfg env) ob"
| "run_job G cfg (UpdateSave env) ob = on_desk (detail_save cfg env) ob"

definition hide_detail :: "'v omnibox \<Rightarrow> 'v omnibox" where
  "hide_detail ob = ob\<lparr>ob_detail := (ob_detail ob)\<lparr>dv_visible := False\<rparr>\<rparr>"

fun run_idle :: "desktop \<Rightarrow> 'v omni_config \<Rightarrow> idle \<Rightarrow> 'v omnibox \<Rightarrow> 'v omnibox" where
  "run_idle G cfg LoadFailed ob =
     on_desk (sendNotify cfg ''Failed to load entries'' UrgencyNormal ''dialog-warning'') ob"
| "run_idle G cfg Refresh ob = ob\<lparr>ob_search := refresh G (ob_search ob)\<rparr>"
| "run_idle G cfg (Debounced ver) ob = ob\<lparr>ob_search := debounced G ver (ob_search ob)\<rparr>"
| "run_idle G cfg QuitOverlay ob = ob\<lparr>ob_quit := True\<rparr>"
| "run_idle G cfg (ShowDetail env plaintext) ob = switchToDetailView G cfg env plaintext ob"
| "run_idle G cfg AddDone ob = switchToSearch G ob"
| "run_idle G cfg UpdateDone ob = switchToSearch G (hide_detail ob)"

text \<open>The handlers of the buttons; clicking a field only moves the focus.\<close>

fun click :: "desktop \<Rightarrow> 'v omni_config \<Rightarrow> widget \<Rightarrow> 'v omnibox \<Rightarrow> 'v omnibox" where
  "click G cfg (ModeTab i) ob = modeBar_SetActive G (int i) ob"
| "click G cfg (CategoryTab i) ob = categoryBar_SetActive G (int i) ob"
| "click G cfg AddCancel ob = switchToSearch G ob"
| "click G cfg AddSaveButton ob = on_desk (add_doSave G cfg (ob_add ob)) ob"
| "click G cfg (DetailCopy f) ob = on_desk (click_copy f (ob_detail ob)) ob"
| "click G cfg DetailBack ob = switchToSearch G (hide_detail ob)"
| "click G cfg DetailSaveButton ob = on_desk (detail_doSave G cfg (ob_detail ob)) ob"
| "click G cfg w ob = GrabFocus (Some w) ob"

text \<open>An event that cannot come changes nothing.\<close>

fun ui_step :: "desktop \<Rightarrow> 'v omni_config \<Rightarrow> ui_event \<Rightarrow> 'v omnibox \<Rightarrow> 'v omnibox" where
  "ui_step G cfg (KeyPressed k ctrl) ob = snd (keyPressed G cfg k ctrl ob)"
| "ui_step G cfg (TypeQuery t) ob =
     (if shown ob SearchEntry then ob\<lparr>ob_search := set_query t (ob_search ob)\<rparr> else ob)"
| "ui_step G cfg SearchChanged ob =
     (if sv_signal (ob_search ob) then ob\<lparr>ob_search := search_changed (ob_search ob)\<rparr> else ob)"
| "ui_step G cfg TimerFires ob =
     (case sv_timer (ob_search ob) of
        None \<Rightarrow> ob
      | Some ver \<Rightarrow> on_desk (go_job (DebounceElapsed ver)) (ob\<lparr>ob_search := (ob_search ob)\<lparr>sv_timer := None\<rparr>\<rparr>))"
| "ui_step G cfg (Click w) ob = (if shown ob w then click G cfg w ob else ob)"
| "ui_step G cfg (ClickRow i) ob =
     (if sv_visible (ob_search ob) \<and> i < length (sv_rows (ob_search ob))
      then on_desk (copyEntryAtIndex cfg i (ob_search ob)) (ob\<lparr>ob_search := (ob_search ob)\<lparr>sv_selected := Some i\<rparr>\<rparr>)
      else ob)"
| "ui_step G cfg ClickQuit ob = ob\<lparr>ob_quit := True\<rparr>"
| "ui_step G cfg (EditAdd f t) ob =
     (if shown ob (AddField f)
      then ob\<lparr>ob_add := (ob_add ob)\<lparr>av_texts := (av_texts (ob_add ob))(f \<mapsto> t)\<rparr>\<rparr> else ob)"
| "ui_step G cfg (EditDetail f t) ob =
     (if shown ob (DetailField f)
      then ob\<lparr>ob_detail := (ob_detail ob)\<lparr>dv_texts := (dv_texts (ob_detail ob))(f \<mapsto> t)\<rparr>\<rparr> else ob)"
| "ui_step G cfg (FocusMoves w) ob = ob\<lparr>ob_focus := w\<rparr>"
| "ui_step G cfg (RunJob n) ob =
     (let js = dk_jobs (ob_desk ob) in
      if n < length js
      then run_job G cfg (js ! n) (on_desk (\<lambda>d. d\<lparr>dk_jobs := take n js @ drop (Suc n) js\<rparr>) ob)
      else ob)"
| "ui_step G cfg RunIdle ob =
     (case dk_idle (ob_desk ob) of
        [] \<Rightarrow> ob
      | f # fs \<Rightarrow> run_idle G cfg f (on_desk (\<lambda>d. d\<lparr>dk_idle := fs\<rparr>) ob))"

fun ui_run :: "desktop \<Rightarrow> 'v omni_config \<Rightarrow> ui_event list \<Rightarrow> 'v omnibox \<Rightarrow> 'v omnibox" where
  "ui_run G cfg [] ob = ob"
| "ui_run G cfg (e # es) ob = ui_run G cfg es (ui_step G cfg e ob)"

text \<open>
  The overlay as it is opened: a new one, to which a cached state may be restored, with the
  focus put on the search entry.
\<close>

definition opened :: "desktop \<Rightarrow> 'v omni_config \<Rightarrow> 'v omnibox \<Rightarrow> bool" where
  "opened G cfg ob \<longleftrightarrow> (\<exists>d ob0 cached. dk_jobs d = [] \<and> dk_idle d = [] \<and> New G cfg d = Ok ob0 \<and>
     ob = GrabFocus (Some SearchEntry) (case cached of None \<Rightarrow> ob0 | Some st \<Rightarrow> RestoreState G st ob0))"

definition omnibox_step :: "desktop \<Rightarrow> 'v omni_config \<Rightarrow> 'v omnibox \<Rightarrow> 'v omnibox \<Rightarrow> bool" where
  "omnibox_step G cfg ob ob' \<longleftrightarrow> (\<exists>e. ob' = ui_step G cfg e ob)"

abbreviation omnibox_reach :: "desktop \<Rightarrow> 'v omni_config \<Rightarrow> 'v omnibox \<Rightarrow> bool" where
  "omnibox_reach G cfg \<equiv> reach_from (opened G cfg) (omnibox_step G cfg)"

end
