(* ===== verification/Omnibox_Views.thy ===== *)
theory Omnibox_Views
  imports Omnibox
begin

text \<open>
  What holds of the overlay in every state it reaches: one view is visible, the one of the mode,
  with its tabs, its form and its widgets in the focus ring, and every row of the list is the row
  of the entry that Enter acts on.
\<close>

subsection \<open>Frames of the operations\<close>

lemma search_frames [simp]:
  "sv_visible (filterByCategory sv) = sv_visible sv" "sv_category (filterByCategory sv) = sv_category sv"
  "sv_text (filterByCategory sv) = sv_text sv" "sv_signal (filterByCategory sv) = sv_signal sv"
  "sv_timer (filterByCategory sv) = sv_timer sv" "sv_allEntries (filterByCategory sv) = sv_allEntries sv"
  "sv_allNames (filterByCategory sv) = sv_allNames sv"
  "sv_debounceVersion (filterByCategory sv) = sv_debounceVersion sv"
  by (simp_all add: filterByCategory_def split: prod.split)

lemma set_category_frames [simp]:
  "sv_visible (SearchView_SetCategory G c sv) = sv_visible sv" "sv_category (SearchView_SetCategory G c sv) = c"
  "sv_text (SearchView_SetCategory G c sv) = sv_text sv" "sv_signal (SearchView_SetCategory G c sv) = sv_signal sv"
  "sv_timer (SearchView_SetCategory G c sv) = sv_timer sv"
  "sv_allEntries (SearchView_SetCategory G c sv) = sv_allEntries sv"
  "sv_allNames (SearchView_SetCategory G c sv) = sv_allNames sv"
  "sv_debounceVersion (SearchView_SetCategory G c sv) = sv_debounceVersion sv"
  by (simp_all add: SearchView_SetCategory_def)

lemma small_frames [simp]:
  "sv_visible (set_query t sv) = sv_visible sv" "sv_category (set_query t sv) = sv_category sv"
  "sv_visible (ClearQuery sv) = sv_visible sv" "sv_category (ClearQuery sv) = sv_category sv"
  "sv_visible (search_changed sv) = sv_visible sv" "sv_category (search_changed sv) = sv_category sv"
  "sv_visible (debounced G v sv) = sv_visible sv" "sv_category (debounced G v sv) = sv_category sv"
  "sv_visible (refresh G sv) = sv_visible sv" "sv_category (refresh G sv) = sv_category sv"
  "sv_visible (SelectNext sv) = sv_visible sv" "sv_category (SelectNext sv) = sv_category sv"
  "sv_visible (SelectPrev sv) = sv_visible sv" "sv_category (SelectPrev sv) = sv_category sv"
  by (simp_all add: set_query_def ClearQuery_def search_changed_def debounced_def refresh_def
      SelectNext_def SelectPrev_def Let_def split: option.split)

lemma on_desk_simps [simp]:
  "ob_modeBar (on_desk f ob) = ob_modeBar ob" "ob_categoryBar (on_desk f ob) = ob_categoryBar ob"
  "ob_search (on_desk f ob) = ob_search ob" "ob_add (on_desk f ob) = ob_add ob"
  "ob_detail (on_desk f ob) = ob_detail ob" "ob_mode (on_desk f ob) = ob_mode ob"
  "ob_ring (on_desk f ob) = ob_ring ob" "ob_focus (on_desk f ob) = ob_focus ob"
  "ob_desk (on_desk f ob) = f (ob_desk ob)" "ob_quit (on_desk f ob) = ob_quit ob"
  by (simp_all add: on_desk_def)

lemma GrabFocus_simps [simp]:
  "ob_modeBar (GrabFocus w ob) = ob_modeBar ob" "ob_categoryBar (GrabFocus w ob) = ob_categoryBar ob"
  "ob_search (GrabFocus w ob) = ob_search ob" "ob_add (GrabFocus w ob) = ob_add ob"
  "ob_detail (GrabFocus w ob) = ob_detail ob" "ob_mode (GrabFocus w ob) = ob_mode ob"
  "ob_ring (GrabFocus w ob) = ob_ring ob" "ob_desk (GrabFocus w ob) = ob_desk ob"
  by (simp_all add: GrabFocus_def split: option.split)

subsection \<open>The visible view\<close>

definition add_kind_of :: "entry_type \<Rightarrow> add_kind" where
  "add_kind_of cat =
     (if cat = EntryTypeNote then AddFormNote
      else if cat = EntryTypeSecret then AddFormSecret else AddFormLogin)"

definition views_match :: "'v omnibox \<Rightarrow> bool" where
  "views_match ob \<longleftrightarrow> ob_mode ob \<le> 2 \<and>
     (sv_visible (ob_search ob) \<longleftrightarrow> ob_mode ob = 0) \<and>
     (av_visible (ob_add ob) \<longleftrightarrow> ob_mode ob = 1) \<and>
     (dv_visible (ob_detail ob) \<longleftrightarrow> ob_mode ob = 2) \<and>
     (tb_visible (ob_modeBar ob) \<longleftrightarrow> ob_mode ob \<noteq> 2) \<and>
     (ob_mode ob \<noteq> 2 \<longrightarrow> tb_active (ob_modeBar ob) = ob_mode ob) \<and>
     (ob_mode ob = 1 \<longrightarrow> av_kind (ob_add ob) = add_kind_of (sv_category (ob_search ob)) \<and>
        tb_active (ob_categoryBar ob) \<noteq> 0 \<and> \<not> tab_shown 0 (ob_categoryBar ob)) \<and>
     r_widgets (ob_ring ob) = ring_widgets ob"

text \<open>What holds besides, and in the middle of a change of mode.\<close>

definition bars_ok :: "'v omnibox \<Rightarrow> bool" where
  "bars_ok ob \<longleftrightarrow> tabs_ok (ob_modeBar ob) \<and> length (tb_labels (ob_modeBar ob)) = 2 \<and>
     tabs_ok (ob_categoryBar ob) \<and> length (tb_labels (ob_categoryBar ob)) = 4 \<and>
     sv_category (ob_search ob) = indexToCategory (int (tb_active (ob_categoryBar ob))) \<and>
     (tb_visible (ob_categoryBar ob) \<longleftrightarrow> dv_env (ob_detail ob) = None) \<and>
     ring_ok (ob_ring ob)"

definition views_inv :: "'v omnibox \<Rightarrow> bool" where
  "views_inv ob \<longleftrightarrow> views_match ob \<and> bars_ok ob"

lemma views_inv_bars [intro]: "views_inv ob \<Longrightarrow> bars_ok ob"
  by (simp add: views_inv_def)

lemma ring_widgets_frames [simp]:
  "ring_widgets (on_desk f ob) = ring_widgets ob" "ring_widgets (ob\<lparr>ob_focus := w\<rparr>) = ring_widgets ob"
  "ring_widgets (ob\<lparr>ob_quit := q\<rparr>) = ring_widgets ob" "ring_widgets (ob\<lparr>ob_search := sv\<rparr>) = ring_widgets ob"
  "ring_widgets (ob\<lparr>ob_ring := r\<rparr>) = ring_widgets ob" "ring_widgets (ob\<lparr>ob_desk := d\<rparr>) = ring_widgets ob"
  "ring_widgets (GrabFocus x ob) = ring_widgets ob" "ring_widgets (ob\<lparr>ob_categoryBar := c\<rparr>) = ring_widgets ob"
  by (simp_all add: ring_widgets_def Let_def)

lemma views_inv_frames [simp]:
  "views_inv (on_desk f ob) = views_inv ob" "views_inv (ob\<lparr>ob_focus := w\<rparr>) = views_inv ob"
  "views_inv (ob\<lparr>ob_quit := q\<rparr>) = views_inv ob" "views_inv (GrabFocus x ob) = views_inv ob"
  "sv_visible sv = sv_visible (ob_search ob) \<Longrightarrow> sv_category sv = sv_category (ob_search ob) \<Longrightarrow>
    views_inv (ob\<lparr>ob_search := sv\<rparr>) = views_inv ob"
  "views_inv (ob\<lparr>ob_desk := d\<rparr>) = views_inv ob"
  by (simp_all add: views_inv_def views_match_def bars_ok_def)

lemma rebuild_simps [simp]:
  "ob_modeBar (rebuildFocusRing ob) = ob_modeBar ob" "ob_categoryBar (rebuildFocusRing ob) = ob_categoryBar ob"
  "ob_search (rebuildFocusRing ob) = ob_search ob" "ob_add (rebuildFocusRing ob) = ob_add ob"
  "ob_detail (rebuildFocusRing ob) = ob_detail ob" "ob_mode (rebuildFocusRing ob) = ob_mode ob"
  "ob_desk (rebuildFocusRing ob) = ob_desk ob" "ob_quit (rebuildFocusRing ob) = ob_quit ob"
  "ring_widgets (rebuildFocusRing ob) = ring_widgets ob"
  "r_widgets (ob_ring (rebuildFocusRing ob)) = ring_widgets ob" "ring_ok (ob_ring (rebuildFocusRing ob))"
  by (simp_all add: rebuildFocusRing_def)

lemma AddView_SetCategory_simps [simp]:
  "av_visible (AddView_SetCategory cat av) = av_visible av" "av_kind (AddView_SetCategory cat av) = add_kind_of cat"
  by (simp_all add: AddView_SetCategory_def add_buildForm_def add_kind_of_def)

lemma tab_SetActive_cases [consumes 2, case_names out active]:
  assumes "tabs_ok t" "length (tb_labels t) = n"
  obtains (out) "TabBar_SetActive i t = None" "i < 0 \<or> i \<ge> int n"
    | (active) t' where "TabBar_SetActive i t = Some t'" "0 \<le> i" "i < int n" "tb_active t' = nat i" "tabs_ok t'"
        "tb_labels t' = tb_labels t" "tb_buttons t' = tb_buttons t" "tb_visible t' = tb_visible t"
proof (cases "i < 0 \<or> i \<ge> int n")
  case True
  with assms show thesis by (intro out) (auto simp: TabBar_SetActive_def tabs_ok_def)
next
  case False
  with assms obtain t' where t': "TabBar_SetActive i t = Some t'"
    by (auto simp: TabBar_SetActive_def tabs_ok_def)
  from t' tabs_ok_SetActive [OF assms(1) t'] False show thesis
    by (intro active [OF t']) (auto simp: TabBar_SetActive_def split: if_splits)
qed

lemma categoryBar_SetActive_frames [simp]:
  "ob_mode (categoryBar_SetActive G i ob) = ob_mode ob"
  "ob_modeBar (categoryBar_SetActive G i ob) = ob_modeBar ob"
  "ob_detail (categoryBar_SetActive G i ob) = ob_detail ob"
  "ob_desk (categoryBar_SetActive G i ob) = ob_desk ob"
  "ob_focus (categoryBar_SetActive G i ob) = ob_focus ob"
  "ob_quit (categoryBar_SetActive G i ob) = ob_quit ob"
  "sv_visible (ob_search (categoryBar_SetActive G i ob)) = sv_visible (ob_search ob)"
  "av_visible (ob_add (categoryBar_SetActive G i ob)) = av_visible (ob_add ob)"
  by (simp_all add: categoryBar_SetActive_def onCategoryChange_def rebuildFocusRing_def Let_def split: option.split)

lemma categoryBar_SetActive_bars:
  assumes "bars_ok ob"
  shows "bars_ok (categoryBar_SetActive G i ob)"
    and "0 \<le> i \<Longrightarrow> i < 4 \<Longrightarrow> tb_active (ob_categoryBar (categoryBar_SetActive G i ob)) = nat i"
    and "tb_buttons (ob_categoryBar (categoryBar_SetActive G i ob)) = tb_buttons (ob_categoryBar ob)"
    and "tb_visible (ob_categoryBar (categoryBar_SetActive G i ob)) = tb_visible (ob_categoryBar ob)"
proof -
  from assms have cat: "tabs_ok (ob_categoryBar ob)" "length (tb_labels (ob_categoryBar ob)) = 4"
    by (simp_all add: bars_ok_def)
  have "bars_ok (categoryBar_SetActive G i ob) \<and>
    (0 \<le> i \<longrightarrow> i < 4 \<longrightarrow> tb_active (ob_categoryBar (categoryBar_SetActive G i ob)) = nat i) \<and>
    tb_buttons (ob_categoryBar (categoryBar_SetActive G i ob)) = tb_buttons (ob_categoryBar ob) \<and>
    tb_visible (ob_categoryBar (categoryBar_SetActive G i ob)) = tb_visible (ob_categoryBar ob)"
    using cat
  proof (cases rule: tab_SetActive_cases [where i = i])
    case out
    with assms show ?thesis by (auto simp: categoryBar_SetActive_def)
  next
    case (active t)
    with assms show ?thesis
      by (simp add: categoryBar_SetActive_def onCategoryChange_def bars_ok_def Let_def)
  qed
  then show "bars_ok (categoryBar_SetActive G i ob)"
    "0 \<le> i \<Longrightarrow> i < 4 \<Longrightarrow> tb_active (ob_categoryBar (categoryBar_SetActive G i ob)) = nat i"
    "tb_buttons (ob_categoryBar (categoryBar_SetActive G i ob)) = tb_buttons (ob_categoryBar ob)"
    "tb_visible (ob_categoryBar (categoryBar_SetActive G i ob)) = tb_visible (ob_categoryBar ob)"
    by auto
qed

lemma categoryBar_SetActive_views:
  assumes "views_inv ob" "ob_mode ob = 1 \<Longrightarrow> i \<noteq> 0"
  shows "views_inv (categoryBar_SetActive G i ob)"
proof -
  from assms(1) have bars: "bars_ok ob" and cat: "tabs_ok (ob_categoryBar ob)" "length (tb_labels (ob_categoryBar ob)) = 4"
    by (simp_all add: views_inv_def bars_ok_def)
  from cat have "views_match (categoryBar_SetActive G i ob)"
  proof (cases rule: tab_SetActive_cases [where i = i])
    case out
    with assms show ?thesis by (simp add: categoryBar_SetActive_def views_inv_def)
  next
    case (active t)
    with assms show ?thesis
      by (auto simp: categoryBar_SetActive_def onCategoryChange_def views_inv_def views_match_def
          ring_widgets_def tab_shown_def Let_def)
  qed
  with categoryBar_SetActive_bars(1) [OF bars] show ?thesis by (simp add: views_inv_def)
qed

lemma enter_add_mode_views:
  assumes "bars_ok ob" "\<not> tb_buttons (ob_categoryBar ob) ! 0" "ob_mode ob = 1"
    "\<not> dv_visible (ob_detail ob)" "tb_visible (ob_modeBar ob)" "tb_active (ob_modeBar ob) = 1"
  shows "views_inv (enter_add_mode G ob)"
proof -
  define b where "b = (if tb_active (ob_categoryBar ob) = 0 then categoryBar_SetActive G 1 ob else ob)"
  have b: "bars_ok b" "tb_active (ob_categoryBar b) \<noteq> 0" "\<not> tb_buttons (ob_categoryBar b) ! 0"
    "ob_mode b = 1" "\<not> dv_visible (ob_detail b)" "tb_visible (ob_modeBar b)" "tb_active (ob_modeBar b) = 1"
    using assms categoryBar_SetActive_bars [OF assms(1), where G = G and i = 1] by (auto simp: b_def)
  then show ?thesis
    by (simp add: enter_add_mode_def b_def [symmetric] Let_def views_inv_def views_match_def bars_ok_def
        tab_shown_def)
qed

text \<open>A change of mode establishes the match, whatever was visible before.\<close>

lemma setMode_views:
  assumes bars: "bars_ok ob" and index: "index \<le> 1" "tb_active (ob_modeBar ob) = index"
  shows "views_inv (setMode G index ob)"
proof (cases "index = 0")
  case True
  with bars index show ?thesis
    by (auto simp: setMode_def views_inv_def views_match_def bars_ok_def TabBar_SetButtonVisible_def Let_def tabs_ok_def)
next
  case False
  with bars index show ?thesis
    by (auto simp: setMode_def Let_def bars_ok_def TabBar_SetButtonVisible_def tabs_ok_def intro!: enter_add_mode_views)
qed

lemma modeBar_SetActive_views:
  assumes "views_inv ob \<or> bars_ok ob \<and> 0 \<le> i \<and> i < 2"
  shows "views_inv (modeBar_SetActive G i ob)"
proof -
  from assms have bars: "bars_ok ob" by (auto simp: views_inv_def)
  then have "tabs_ok (ob_modeBar ob)" "length (tb_labels (ob_modeBar ob)) = 2" by (simp_all add: bars_ok_def)
  then show ?thesis
  proof (cases rule: tab_SetActive_cases [where i = i])
    case out
    with assms show ?thesis by (auto simp: modeBar_SetActive_def)
  next
    case (active t)
    with bars have "bars_ok (ob\<lparr>ob_modeBar := t\<rparr>)" by (simp add: bars_ok_def)
    with active show ?thesis
      using setMode_views [of "ob\<lparr>ob_modeBar := t\<rparr>" "nat i" G] by (simp add: modeBar_SetActive_def)
  qed
qed

lemma switchToSearch_views:
  assumes "bars_ok ob"
  shows "views_inv (switchToSearch G ob)" "ob_mode (switchToSearch G ob) = 0"
proof -
  let ?a = "modeBar_SetActive G 0 ob"
  have a: "views_inv ?a" using assms by (intro modeBar_SetActive_views) auto
  have "tb_active (ob_modeBar ?a) = 0"
    using assms by (auto simp: modeBar_SetActive_def setMode_def Let_def TabBar_SetActive_def bars_ok_def tabs_ok_def)
  with a setMode_views [OF views_inv_bars [OF a], of 0 G] show "views_inv (switchToSearch G ob)"
    by (simp add: switchToSearch_def)
  show "ob_mode (switchToSearch G ob) = 0" by (simp add: switchToSearch_def setMode_def Let_def)
qed

lemma switchToDetailView_views:
  assumes "bars_ok ob"
  shows "views_inv (switchToDetailView G cfg env pt ob)"
proof -
  have "dv_env (fst (DetailView_Show G cfg env pt dv d)) = Some env" for dv and d :: "'a desk"
    by (simp add: DetailView_Show_def detail_buildForm_def resetFields_def Let_def split: prod.split)
  with assms show ?thesis
    by (simp add: switchToDetailView_def views_inv_def views_match_def bars_ok_def Let_def split_def)
qed

lemma field_widgets_update:
  "m f \<noteq> None \<Longrightarrow> field_widgets w (m(f \<mapsto> t)) fs = field_widgets w m fs"
proof -
  assume "m f \<noteq> None"
  then have "(if (m(f \<mapsto> t)) g \<noteq> None then w g else []) = (if m g \<noteq> None then w g else [])" for g by auto
  then show ?thesis unfolding field_widgets_def by (metis (no_types, lifting) map_cong)
qed

lemma bars_ok_hide [simp]: "bars_ok (hide_detail ob) = bars_ok ob"
  by (simp add: hide_detail_def bars_ok_def)

subsection \<open>Every step keeps it\<close>

lemma click_views:
  assumes "views_inv ob" "shown ob w"
  shows "views_inv (click G cfg w ob)"
proof (cases w)
  case (CategoryTab i)
  with assms have "ob_mode ob = 1 \<Longrightarrow> i \<noteq> 0"
    by (intro notI) (auto simp: views_inv_def views_match_def)
  with assms(1) CategoryTab show ?thesis by (simp add: categoryBar_SetActive_views)
qed (use assms views_inv_bars [OF assms(1)] in \<open>auto simp: modeBar_SetActive_views switchToSearch_views\<close>)

lemma run_job_views: "views_inv ob \<Longrightarrow> views_inv (run_job G cfg j ob)"
  by (cases j) (simp_all add: load_store_def)

lemma run_idle_views: "views_inv ob \<Longrightarrow> views_inv (run_idle G cfg f ob)"
  using views_inv_bars [of ob] by (cases f) (auto simp: switchToSearch_views switchToDetailView_views)

lemma keyPressed_views:
  assumes "views_inv ob"
  shows "views_inv (snd (keyPressed G cfg k ctrl ob))"
proof -
  have ring: "views_inv (move_focus (Ring_Next (ob_ring ob)) ob)" "views_inv (move_focus (Ring_Prev (ob_ring ob)) ob)"
    using assms by (simp_all add: move_focus_def views_inv_def views_match_def bars_ok_def)
  have digit: "views_inv (ctrl_digit G n ob)" for n
    using assms by (simp add: ctrl_digit_def categoryBar_SetActive_views)
  have escape: "views_inv (handleEscape G ob)"
    using assms views_inv_bars [OF assms] by (auto simp: handleEscape_def switchToSearch_views)
  have detail: "views_inv (openDetail cfg ob)"
    using assms by (simp add: openDetail_def split: option.split)
  show ?thesis
    unfolding keyPressed_def
    using assms ring digit escape detail by (cases k) simp_all
qed

lemma ui_step_views:
  assumes "views_inv ob"
  shows "views_inv (ui_step G cfg e ob)"
proof (cases e)
  case (EditAdd f t)
  with assms show ?thesis
    by (auto simp: views_inv_def views_match_def bars_ok_def ring_widgets_def Let_def AddView_Focusables_def field_widgets_update)
next
  case (EditDetail f t)
  with assms show ?thesis
    by (auto simp: views_inv_def views_match_def bars_ok_def ring_widgets_def Let_def DetailView_Focusables_def field_widgets_update)
qed (use assms in \<open>simp_all add: keyPressed_views click_views run_job_views run_idle_views Let_def split: option.split list.split\<close>)

lemma opened_views:
  assumes "opened G cfg ob"
  shows "views_inv ob"
proof -
  from assms obtain d ob0 cached where new: "New G cfg d = Ok ob0"
    and ob: "ob = GrabFocus (Some SearchEntry) (case cached of None \<Rightarrow> ob0 | Some st \<Rightarrow> RestoreState G st ob0)"
    unfolding opened_def by blast
  let ?start = "rebuildFocusRing
       \<lparr>ob_modeBar = NewTabBar [''Search'', ''Add''],
        ob_categoryBar = NewTabBar [''All'', ''Login'', ''Note'', ''Secret''],
        ob_search = fst (NewSearchView cfg d), ob_add = NewAddView\<lparr>av_visible := False\<rparr>, ob_detail = NewDetailView,
        ob_mode = 0, ob_ring = Ring_New [], ob_focus = None, ob_desk = snd (NewSearchView cfg d), ob_quit = False\<rparr>"
  from new have cat: "oc_Category cfg = EntryTypeUnspecified"
    and ob0: "ob0 = (if oc_Mode cfg = OmniboxModeAdd then modeBar_SetActive G 1 ?start else ?start)"
    by (auto simp: New_def Let_def split_def split: if_splits)
  have bar: "tb_visible (NewTabBar ls)" "tb_active (NewTabBar ls) = 0" "tb_labels (NewTabBar ls) = ls" for ls
    by (simp_all add: NewTabBar_def)
  have "views_inv ?start"
    by (simp add: views_inv_def views_match_def bars_ok_def tabs_ok_New bar cat indexToCategory_def
        NewSearchView_def NewAddView_def NewDetailView_def)
  then have "views_inv ob0" by (simp add: ob0 modeBar_SetActive_views)
  moreover have "views_inv (RestoreState G st x)" if "views_inv x" for st x
    using that by (auto simp: RestoreState_def Let_def split_def modeBar_SetActive_views categoryBar_SetActive_views)
  ultimately show ?thesis by (auto simp: ob split: option.split)
qed

interpretation views: invariant_system "opened G cfg" "omnibox_step G cfg" views_inv
  by unfold_locales (auto simp: opened_views omnibox_step_def ui_step_views)

end
