(* ===== verification/Omnibox_Search.thy ===== *)
theory Omnibox_Search
  imports Omnibox_Views
begin

text \<open>
  The list of the overlay: how the search view moves under the events, that every row is the row
  of the entry it acts on, and that the list comes to rest at the result of the search once the
  goroutines, the timer and the idle functions that are under way have run.
\<close>

subsection \<open>What the other parts do to the search view\<close>

inductive sv_moved :: "desktop \<Rightarrow> search_view \<Rightarrow> search_view \<Rightarrow> bool" for G sv where
  sv_same: "sv_moved G sv sv"
| sv_shown: "sv_moved G sv sv' \<Longrightarrow> sv_moved G sv (sv'\<lparr>sv_visible := v\<rparr>)"
| sv_category: "sv_moved G sv sv' \<Longrightarrow> sv_moved G sv (SearchView_SetCategory G c sv')"

declare sv_moved.intros [intro]

lemma sv_moved_frame:
  "sv_moved G sv sv' \<Longrightarrow> sv_text sv' = sv_text sv \<and> sv_signal sv' = sv_signal sv \<and> sv_timer sv' = sv_timer sv \<and>
    sv_debounceVersion sv' = sv_debounceVersion sv \<and> sv_allEntries sv' = sv_allEntries sv \<and>
    sv_allNames sv' = sv_allNames sv"
  by (induction rule: sv_moved.induct) auto

lemma moved_category:
  "sv_moved G sv (ob_search ob) \<Longrightarrow> sv_moved G sv (ob_search (categoryBar_SetActive G i ob))"
  by (auto simp: categoryBar_SetActive_def onCategoryChange_def Let_def split: option.split)

lemma moved_setMode: "sv_moved G sv (ob_search ob) \<Longrightarrow> sv_moved G sv (ob_search (setMode G i ob))"
  by (auto simp: setMode_def enter_add_mode_def Let_def intro!: sv_shown moved_category)

lemma moved_modeBar: "sv_moved G sv (ob_search ob) \<Longrightarrow> sv_moved G sv (ob_search (modeBar_SetActive G i ob))"
  by (auto simp: modeBar_SetActive_def intro: moved_setMode split: option.split)

lemma moved_switchToSearch: "sv_moved G sv (ob_search ob) \<Longrightarrow> sv_moved G sv (ob_search (switchToSearch G ob))"
  by (auto simp: switchToSearch_def intro: moved_setMode moved_modeBar)

lemma moved_switchToDetail: "sv_moved G sv (ob_search ob) \<Longrightarrow> sv_moved G sv (ob_search (switchToDetailView G cfg env pt ob))"
  by (auto simp: switchToDetailView_def Let_def split: prod.split)

lemmas search_moved = moved_category moved_setMode moved_modeBar moved_switchToSearch moved_switchToDetail

lemma setMode_desk [simp]: "ob_desk (setMode G i ob) = ob_desk ob"
  by (simp add: setMode_def enter_add_mode_def Let_def)

lemma modeBar_desk [simp]: "ob_desk (modeBar_SetActive G i ob) = ob_desk ob"
  by (simp add: modeBar_SetActive_def split: option.split)

lemma switchToSearch_desk [simp]: "ob_desk (switchToSearch G ob) = go_job LoadList (ob_desk ob)"
  by (simp add: switchToSearch_def)

lemma switchToDetail_desk [simp]:
  "dk_jobs (ob_desk (switchToDetailView G cfg env pt ob)) = dk_jobs (ob_desk ob)"
  "dk_idle (ob_desk (switchToDetailView G cfg env pt ob)) = dk_idle (ob_desk ob)"
  by (simp_all add: switchToDetailView_def Let_def split_def)

lemma hide_detail_simps [simp]:
  "ob_search (hide_detail ob) = ob_search ob" "ob_desk (hide_detail ob) = ob_desk ob"
  by (simp_all add: hide_detail_def)

subsection \<open>Rows and what is still to come\<close>

text \<open>
  The list is the result of the search, or something is under way that will make it so: a
  refresh after loading, the signal of the entry, the timer of the last change, its goroutine or
  its function in the idle queue.
\<close>

definition list_shows :: "desktop \<Rightarrow> search_view \<Rightarrow> bool" where
  "list_shows G sv \<longleftrightarrow>
     sv_rows sv = map buildRow (search_result G (sv_category sv) (sv_text sv) (sv_allEntries sv))"

definition entries_filtered :: "search_view \<Rightarrow> bool" where
  "entries_filtered sv \<longleftrightarrow> sv_entries sv =
     (if sv_category sv = EntryTypeUnspecified then sv_allEntries sv
      else filter (\<lambda>e. Type e = sv_category sv) (sv_allEntries sv))"

definition coming :: "desktop \<Rightarrow> search_view \<Rightarrow> job list \<Rightarrow> idle list \<Rightarrow> bool" where
  "coming G sv js fs \<longleftrightarrow>
     (sv_timer sv \<noteq> None \<longrightarrow> sv_timer sv = Some (sv_debounceVersion sv)) \<and>
     (entries_filtered sv \<or> Refresh \<in> set fs) \<and>
     (list_shows G sv \<or> Refresh \<in> set fs \<or> sv_signal sv \<or> sv_timer sv \<noteq> None \<or>
      DebounceElapsed (sv_debounceVersion sv) \<in> set js \<or> Debounced (sv_debounceVersion sv) \<in> set fs)"

definition list_ok :: "desktop \<Rightarrow> search_view \<Rightarrow> job list \<Rightarrow> idle list \<Rightarrow> bool" where
  "list_ok G sv js fs \<longleftrightarrow> names_ok sv \<and> rows_ok sv \<and> coming G sv js fs"

lemma entry_at_update [simp]:
  "entry_at i (sv\<lparr>sv_visible := v\<rparr>) = entry_at i sv" "entry_at i (sv\<lparr>sv_text := t\<rparr>) = entry_at i sv"
  "entry_at i (sv\<lparr>sv_signal := b\<rparr>) = entry_at i sv" "entry_at i (sv\<lparr>sv_timer := w\<rparr>) = entry_at i sv"
  "entry_at i (sv\<lparr>sv_debounceVersion := n\<rparr>) = entry_at i sv" "entry_at i (sv\<lparr>sv_selected := x\<rparr>) = entry_at i sv"
  "entry_at i (sv\<lparr>sv_allEntries := es\<rparr>) = entry_at i sv" "entry_at i (sv\<lparr>sv_allNames := ns\<rparr>) = entry_at i sv"
  by (simp_all add: entry_at_def Let_def cong: if_cong option.case_cong)

lemma rows_ok_update [simp]:
  "rows_ok (sv\<lparr>sv_visible := v\<rparr>) = rows_ok sv" "rows_ok (sv\<lparr>sv_text := t\<rparr>) = rows_ok sv"
  "rows_ok (sv\<lparr>sv_signal := b\<rparr>) = rows_ok sv" "rows_ok (sv\<lparr>sv_timer := w\<rparr>) = rows_ok sv"
  "rows_ok (sv\<lparr>sv_debounceVersion := n\<rparr>) = rows_ok sv"
  "rows_ok (sv\<lparr>sv_allEntries := es\<rparr>) = rows_ok sv" "rows_ok (sv\<lparr>sv_allNames := ns\<rparr>) = rows_ok sv"
  by (simp_all add: rows_ok_def split: option.split)

lemma names_ok_update [simp]:
  "names_ok (sv\<lparr>sv_visible := v\<rparr>) = names_ok sv" "names_ok (sv\<lparr>sv_text := t\<rparr>) = names_ok sv"
  "names_ok (sv\<lparr>sv_signal := b\<rparr>) = names_ok sv" "names_ok (sv\<lparr>sv_timer := w\<rparr>) = names_ok sv"
  "names_ok (sv\<lparr>sv_debounceVersion := n\<rparr>) = names_ok sv" "names_ok (sv\<lparr>sv_selected := x\<rparr>) = names_ok sv"
  by (simp_all add: names_ok_def)

lemma filtered_update [simp]:
  "entries_filtered (sv\<lparr>sv_visible := v\<rparr>) = entries_filtered sv" "entries_filtered (sv\<lparr>sv_text := t\<rparr>) = entries_filtered sv"
  "entries_filtered (sv\<lparr>sv_signal := b\<rparr>) = entries_filtered sv" "entries_filtered (sv\<lparr>sv_timer := w\<rparr>) = entries_filtered sv"
  "entries_filtered (sv\<lparr>sv_debounceVersion := n\<rparr>) = entries_filtered sv"
  "entries_filtered (sv\<lparr>sv_selected := x\<rparr>) = entries_filtered sv"
  by (simp_all add: entries_filtered_def cong: if_cong)

lemma shows_update [simp]:
  "list_shows G (sv\<lparr>sv_visible := v\<rparr>) = list_shows G sv" "list_shows G (sv\<lparr>sv_signal := b\<rparr>) = list_shows G sv"
  "list_shows G (sv\<lparr>sv_timer := w\<rparr>) = list_shows G sv" "list_shows G (sv\<lparr>sv_selected := x\<rparr>) = list_shows G sv"
  "list_shows G (sv\<lparr>sv_debounceVersion := n\<rparr>) = list_shows G sv"
  by (simp_all add: list_shows_def)

lemma list_ok_mono:
  "list_ok G sv js fs \<Longrightarrow> set js \<subseteq> set js' \<Longrightarrow> set fs \<subseteq> set fs' \<Longrightarrow> list_ok G sv js' fs'"
  by (auto simp: list_ok_def coming_def)

lemma refresh_facts:
  assumes "slice_sort (dt_sorter G)" "sv_allNames sv = map Name (sv_allEntries sv)"
  shows "list_shows G (refresh G sv)" "entries_filtered (refresh G sv)"
    "names_ok (refresh G sv)" "rows_ok (refresh G sv)"
proof -
  have frames: "sv_text (refresh G sv) = sv_text sv" "sv_allEntries (refresh G sv) = sv_allEntries sv"
    by (simp_all add: refresh_def)
  show "list_shows G (refresh G sv)" "names_ok (refresh G sv)" "rows_ok (refresh G sv)"
    by (simp_all add: list_shows_def frames search_view_shows [OF assms])
  show "entries_filtered (refresh G sv)"
    by (simp add: entries_filtered_def frames) (simp add: refresh_def filterByCategory_eq [OF assms(2)])
qed

lemma refresh_frames [simp]:
  "sv_text (refresh G sv) = sv_text sv" "sv_signal (refresh G sv) = sv_signal sv"
  "sv_timer (refresh G sv) = sv_timer sv" "sv_allEntries (refresh G sv) = sv_allEntries sv"
  "sv_allNames (refresh G sv) = sv_allNames sv" "sv_debounceVersion (refresh G sv) = sv_debounceVersion sv"
  by (simp_all add: refresh_def)

lemma list_ok_refresh:
  "slice_sort (dt_sorter G) \<Longrightarrow> list_ok G sv js (f # fs) \<Longrightarrow> list_ok G (refresh G sv) js fs"
  by (auto simp: list_ok_def coming_def refresh_facts names_ok_def [of sv])

lemma list_ok_category:
  assumes "slice_sort (dt_sorter G)" "list_ok G sv js fs"
  shows "list_ok G (SearchView_SetCategory G c sv) js fs"
proof -
  have "SearchView_SetCategory G c sv = refresh G (sv\<lparr>sv_category := c\<rparr>)"
    by (simp add: SearchView_SetCategory_def refresh_def)
  with assms show ?thesis
    by (auto simp: list_ok_def coming_def refresh_facts names_ok_def [of sv])
qed

lemma list_ok_shown [simp]: "list_ok G (sv\<lparr>sv_visible := v\<rparr>) js fs = list_ok G sv js fs"
  by (simp add: list_ok_def coming_def)

lemma list_ok_moved:
  assumes "slice_sort (dt_sorter G)" "sv_moved G sv sv'" "list_ok G sv js fs"
  shows "list_ok G sv' js fs"
  using assms(2,3) by induction (simp_all add: list_ok_category [OF assms(1)])

text \<open>Changes that leave the list alone.\<close>

lemma list_ok_query: "list_ok G sv js fs \<Longrightarrow> list_ok G (set_query t sv) js fs"
  by (auto simp: set_query_def list_ok_def coming_def)

lemma list_ok_signal: "list_ok G sv js fs \<Longrightarrow> list_ok G (search_changed sv) js fs"
  by (auto simp: search_changed_def Let_def list_ok_def coming_def)

lemma list_ok_timer:
  "list_ok G sv js fs \<Longrightarrow> sv_timer sv = Some v \<Longrightarrow>
    list_ok G (sv\<lparr>sv_timer := None\<rparr>) (js @ [DebounceElapsed v]) fs"
  by (auto simp: list_ok_def coming_def)

lemma list_ok_select:
  "list_ok G sv js fs \<Longrightarrow> i < length (sv_rows sv) \<Longrightarrow> list_ok G (sv\<lparr>sv_selected := Some i\<rparr>) js fs"
  by (auto simp: list_ok_def coming_def rows_ok_def)

lemma list_ok_SelectNext: "list_ok G sv js fs \<Longrightarrow> list_ok G (SelectNext sv) js fs"
  by (auto simp: SelectNext_def list_ok_select split: option.split)

lemma list_ok_SelectPrev: "list_ok G sv js fs \<Longrightarrow> list_ok G (SelectPrev sv) js fs"
  by (auto simp: SelectPrev_def list_ok_select split: option.split)

lemma list_ok_store:
  "list_ok G sv js fs \<Longrightarrow> list_ok G (sv\<lparr>sv_allEntries := es, sv_allNames := map Name es\<rparr>) js (fs @ [Refresh])"
  by (auto simp: list_ok_def coming_def names_ok_def)

text \<open>A debounced search that is not the last change does nothing, the last one shows the result.\<close>

lemma list_ok_debounced:
  assumes sorter: "slice_sort (dt_sorter G)" and ok: "list_ok G sv js (Debounced v # fs)"
  shows "list_ok G (debounced G v sv) js fs"
proof (cases "sv_debounceVersion sv = v")
  case False
  with ok show ?thesis by (auto simp: debounced_def list_ok_def coming_def)
next
  case True
  from ok have names: "sv_names sv = map Name (sv_entries sv)" by (simp add: list_ok_def names_ok_def)
  from onSearchChanged_rows [OF sorter names]
  have "entries_filtered sv \<Longrightarrow> list_shows G (onSearchChanged G sv)"
    by (simp add: list_shows_def entries_filtered_def search_result_def names Let_def)
  with ok True onSearchChanged_rows(1) [OF sorter names] show ?thesis
    by (auto simp: debounced_def list_ok_def coming_def entries_filtered_def)
qed

subsection \<open>Every step keeps the list right\<close>

text \<open>Goroutines only ever add to the jobs and the idle functions.\<close>

definition desk_grows :: "'v desk \<Rightarrow> 'v desk \<Rightarrow> bool" where
  "desk_grows d d' \<longleftrightarrow> set (dk_jobs d) \<subseteq> set (dk_jobs d') \<and> set (dk_idle d) \<subseteq> set (dk_idle d')"

lemma load_fetch_grows: "desk_grows d (load_fetch cfg d)"
  by (auto simp: desk_grows_def load_fetch_def split: option.split sum.split prod.split)

lemma fetch_entry_grows: "desk_grows d (fetch_entry_for k cfg env d)"
  by (auto simp: desk_grows_def fetch_entry_for_def split: option.split sum.split prod.split)

lemma save_entry_grows: "desk_grows d (save_entry cfg sv m1 m2 f env d)"
  by (auto simp: desk_grows_def save_entry_def split: option.split prod.split)

lemma open_decrypt_cases:
  "dk_jobs (open_decrypt cfg full d) = dk_jobs d \<and>
   (dk_idle (open_decrypt cfg full d) = dk_idle d \<or> (\<exists>pt. dk_idle (open_decrypt cfg full d) = dk_idle d @ [ShowDetail full pt]))"
proof (cases "oc_DecryptAndUse cfg")
  case (Some decrypt)
  obtain err pt v where r: "decrypt (Payload full) (dk_vault d) = (err, pt, v)" by (rule prod_cases3)
  with Some show ?thesis by (cases pt) (simp_all add: open_decrypt_def Let_def)
qed (simp add: open_decrypt_def)

lemma copy_plaintext_desk [simp]:
  "dk_jobs (snd (copy_plaintext G cfg full pt d)) = dk_jobs d" "dk_idle (snd (copy_plaintext G cfg full pt d)) = dk_idle d"
  using copy_text_simps [of G "extractMainValue (Type full) pt" d]
  by (auto simp: copy_plaintext_def Let_def simp del: copy_text_simps split: prod.split option.split)

lemma copy_field_desk [simp]:
  "dk_jobs (copy_field G cfg val d) = dk_jobs d" "dk_idle (copy_field G cfg val d) = dk_idle d"
  using copy_text_simps [of G val d]
  by (auto simp: copy_field_def simp del: copy_text_simps split: prod.split option.split)

lemma copy_decrypt_cases:
  "dk_jobs (copy_decrypt G cfg full d) = dk_jobs d \<and>
   (dk_idle (copy_decrypt G cfg full d) = dk_idle d \<or> dk_idle (copy_decrypt G cfg full d) = dk_idle d @ [QuitOverlay])"
proof (cases "oc_DecryptAndUse cfg")
  case (Some decrypt)
  obtain err pt v where r: "decrypt (Payload full) (dk_vault d) = (err, pt, v)" by (rule prod_cases3)
  define x where "x = (case pt of None \<Rightarrow> (False, d\<lparr>dk_vault := v\<rparr>)
      | Some plaintext \<Rightarrow> copy_plaintext G cfg full plaintext (d\<lparr>dk_vault := v\<rparr>))"
  have "dk_jobs (snd x) = dk_jobs d" "dk_idle (snd x) = dk_idle d" by (auto simp: x_def split: option.split)
  with Some r show ?thesis
    by (auto simp: copy_decrypt_def x_def [symmetric] Let_def split: prod.split)
qed (simp add: copy_decrypt_def)

lemma run_job_moves:
  assumes "\<And>es. j \<noteq> LoadStore es"
  shows "ob_search (run_job G cfg j ob) = ob_search ob"
    and "desk_grows (ob_desk ob) (ob_desk (run_job G cfg j ob))"
proof -
  have "desk_grows d (copy_decrypt G cfg full d)" "desk_grows d (open_decrypt cfg full d)" for full and d :: "'a desk"
    using copy_decrypt_cases [of G cfg full d] open_decrypt_cases [of cfg full d] by (auto simp: desk_grows_def)
  then show "desk_grows (ob_desk ob) (ob_desk (run_job G cfg j ob))"
    by (cases j) (simp_all add: load_fetch_grows fetch_entry_grows save_entry_grows add_save_def detail_save_def,
        auto simp: desk_grows_def load_store_def)
  show "ob_search (run_job G cfg j ob) = ob_search ob" using assms by (cases j) auto
qed

text \<open>Anything that moves the search view and adds to the desk keeps the list right.\<close>

definition omnibox_moved :: "desktop \<Rightarrow> 'v omnibox \<Rightarrow> 'v omnibox \<Rightarrow> bool" where
  "omnibox_moved G ob ob' \<longleftrightarrow> sv_moved G (ob_search ob) (ob_search ob') \<and> desk_grows (ob_desk ob) (ob_desk ob')"

definition omnibox_list_ok :: "desktop \<Rightarrow> 'v omnibox \<Rightarrow> bool" where
  "omnibox_list_ok G ob \<longleftrightarrow> list_ok G (ob_search ob) (dk_jobs (ob_desk ob)) (dk_idle (ob_desk ob))"

lemma list_ok_omnibox_moved:
  "slice_sort (dt_sorter G) \<Longrightarrow> omnibox_list_ok G ob \<Longrightarrow> omnibox_moved G ob ob' \<Longrightarrow> omnibox_list_ok G ob'"
  unfolding omnibox_list_ok_def omnibox_moved_def desk_grows_def
  by (blast intro: list_ok_mono list_ok_moved)

lemma desk_grows_simps [simp]:
  "desk_grows d d" "desk_grows d (go_job j d)" "desk_grows d (IdleAddOnce f d)" "desk_grows d (sendNotify cfg b u i d)"
  by (auto simp: desk_grows_def)

lemma copyEntry_grows [simp]:
  "desk_grows d (copyEntryAtIndex cfg i sv d)" "desk_grows d (CopySelected cfg sv d)"
  by (auto simp: copyEntryAtIndex_def CopySelected_def split: option.split)

lemma categoryBar_moved: "omnibox_moved G ob (categoryBar_SetActive G i ob)"
  by (auto simp: omnibox_moved_def intro: search_moved)

lemma modeBar_moved: "omnibox_moved G ob (modeBar_SetActive G i ob)"
  by (auto simp: omnibox_moved_def intro: search_moved)

lemma switchToSearch_moved: "omnibox_moved G ob (switchToSearch G ob)" "omnibox_moved G ob (switchToSearch G (hide_detail ob))"
  by (auto simp: omnibox_moved_def intro!: moved_switchToSearch)

lemma switchToDetail_moved: "omnibox_moved G ob (switchToDetailView G cfg env pt ob)"
  by (auto simp: omnibox_moved_def desk_grows_def intro: search_moved)

lemma openDetail_moved: "omnibox_moved G ob (openDetail cfg ob)"
  by (auto simp: omnibox_moved_def openDetail_def split: option.split)

lemma GrabFocus_moved: "omnibox_moved G ob (GrabFocus w ob)" "omnibox_moved G ob (move_focus m ob)"
  by (auto simp: omnibox_moved_def move_focus_def)

lemma click_moved: "omnibox_moved G ob (click G cfg w ob)"
  by (cases w) (simp_all add: modeBar_moved categoryBar_moved switchToSearch_moved GrabFocus_moved,
      auto simp: omnibox_moved_def add_doSave_def detail_doSave_def click_copy_def Let_def split: option.split)

lemma keyPressed_list:
  assumes sorter: "slice_sort (dt_sorter G)" and ok: "omnibox_list_ok G ob"
  shows "omnibox_list_ok G (snd (keyPressed G cfg k ctrl ob))"
proof -
  note moved = list_ok_omnibox_moved [OF sorter ok]
  have escape: "omnibox_list_ok G (handleEscape G ob)"
    using ok moved [OF switchToSearch_moved(1)]
    by (auto simp: handleEscape_def ClearQuery_def omnibox_list_ok_def list_ok_query)
  have digit: "omnibox_list_ok G (ctrl_digit G n ob)" for n
    using ok moved [OF categoryBar_moved] by (simp add: ctrl_digit_def)
  have copy: "omnibox_moved G ob (on_desk (CopySelected cfg (ob_search ob)) ob)"
    by (auto simp: omnibox_moved_def)
  have select: "omnibox_list_ok G (ob\<lparr>ob_search := SelectNext (ob_search ob)\<rparr>)"
    "omnibox_list_ok G (ob\<lparr>ob_search := SelectPrev (ob_search ob)\<rparr>)"
    using ok by (simp_all add: omnibox_list_ok_def list_ok_SelectNext list_ok_SelectPrev)
  show ?thesis
    unfolding keyPressed_def
    using ok escape digit select moved [OF GrabFocus_moved(2)] moved [OF openDetail_moved] moved [OF copy]
    by (cases k) simp_all
qed

lemma run_job_list:
  assumes sorter: "slice_sort (dt_sorter G)" and ok: "omnibox_list_ok G ob" and n: "n < length (dk_jobs (ob_desk ob))"
  shows "omnibox_list_ok G (ui_step G cfg (RunJob n) ob)"
proof -
  define js where "js = dk_jobs (ob_desk ob)"
  define rest where "rest = take n js @ drop (Suc n) js"
  define ob1 where "ob1 = on_desk (\<lambda>d. d\<lparr>dk_jobs := rest\<rparr>) ob"
  have step: "ui_step G cfg (RunJob n) ob = run_job G cfg (js ! n) ob1"
    using n by (simp add: js_def rest_def ob1_def Let_def)
  have js: "set js = insert (js ! n) (set rest)"
    using n id_take_nth_drop [of n js] unfolding rest_def by (metis js_def list.simps(15) set_append Un_insert_right)
  have sv: "ob_search ob1 = ob_search ob" "dk_idle (ob_desk ob1) = dk_idle (ob_desk ob)" "dk_jobs (ob_desk ob1) = rest"
    by (simp_all add: ob1_def)
  from ok have all: "list_ok G (ob_search ob) js (dk_idle (ob_desk ob))" by (simp add: omnibox_list_ok_def js_def)
  show ?thesis
  proof (cases "\<exists>ver. js ! n = DebounceElapsed ver")
    case True
    then obtain ver where ver: "js ! n = DebounceElapsed ver" by blast
    with all js have "list_ok G (ob_search ob) rest (dk_idle (ob_desk ob) @ [Debounced ver])"
      by (auto simp: list_ok_def coming_def)
    with ver show ?thesis unfolding step by (simp add: omnibox_list_ok_def sv)
  next
    case False
    with all js have rest: "list_ok G (ob_search ob1) (dk_jobs (ob_desk ob1)) (dk_idle (ob_desk ob1))"
      by (auto simp: list_ok_def coming_def sv dest: sym)
    show ?thesis
    proof (cases "\<exists>es. js ! n = LoadStore es")
      case True
      then show ?thesis using rest unfolding step
        by (auto simp: omnibox_list_ok_def load_store_def list_ok_store)
    next
      case False
      with run_job_moves [where j = "js ! n" and G = G and cfg = cfg and ob = ob1] have "omnibox_moved G ob1 (run_job G cfg (js ! n) ob1)"
        by (auto simp: omnibox_moved_def)
      from list_ok_omnibox_moved [OF sorter _ this] rest show ?thesis unfolding step omnibox_list_ok_def by blast
    qed
  qed
qed

lemma run_idle_list:
  assumes sorter: "slice_sort (dt_sorter G)" and ok: "omnibox_list_ok G ob"
  shows "omnibox_list_ok G (ui_step G cfg RunIdle ob)"
proof (cases "dk_idle (ob_desk ob)")
  case Nil
  with ok show ?thesis by simp
next
  case (Cons f fs)
  define ob1 where "ob1 = on_desk (\<lambda>d. d\<lparr>dk_idle := fs\<rparr>) ob"
  have step: "ui_step G cfg RunIdle ob = run_idle G cfg f ob1" using Cons by (simp add: ob1_def)
  have sv: "ob_search ob1 = ob_search ob" "dk_idle (ob_desk ob1) = fs" "dk_jobs (ob_desk ob1) = dk_jobs (ob_desk ob)"
    by (simp_all add: ob1_def)
  from ok Cons have all: "list_ok G (ob_search ob) (dk_jobs (ob_desk ob)) (f # fs)" by (simp add: omnibox_list_ok_def)
  show ?thesis
  proof (cases "f = Refresh \<or> (\<exists>ver. f = Debounced ver)")
    case True
    with all show ?thesis unfolding step
      by (auto simp: omnibox_list_ok_def sv list_ok_refresh [OF sorter] list_ok_debounced [OF sorter])
  next
    case False
    with all have rest: "omnibox_list_ok G ob1" by (auto simp: omnibox_list_ok_def list_ok_def coming_def sv)
    have "omnibox_moved G ob1 (run_idle G cfg f ob1)"
      using False by (cases f) (simp_all add: switchToSearch_moved switchToDetail_moved, auto simp: omnibox_moved_def)
    from list_ok_omnibox_moved [OF sorter rest this] show ?thesis unfolding step .
  qed
qed

lemma ui_step_list:
  assumes sorter: "slice_sort (dt_sorter G)" and ok: "omnibox_list_ok G ob"
  shows "omnibox_list_ok G (ui_step G cfg e ob)"
proof (cases e)
  case (KeyPressed k ctrl)
  with keyPressed_list [OF assms] show ?thesis by simp
next
  case (TypeQuery t)
  with ok show ?thesis by (simp add: omnibox_list_ok_def list_ok_query)
next
  case SearchChanged
  with ok show ?thesis by (simp add: omnibox_list_ok_def list_ok_signal)
next
  case TimerFires
  with ok show ?thesis by (auto simp: omnibox_list_ok_def list_ok_timer split: option.split)
next
  case (Click w)
  with ok list_ok_omnibox_moved [OF sorter ok click_moved] show ?thesis by simp
next
  case (ClickRow i)
  let ?d = "copyEntryAtIndex cfg i (ob_search ob) (ob_desk ob)"
  have "desk_grows (ob_desk ob) ?d" by simp
  then have grown: "list_ok G (ob_search ob) (dk_jobs ?d) (dk_idle ?d)"
    using ok unfolding omnibox_list_ok_def desk_grows_def by (blast intro: list_ok_mono)
  show ?thesis
  proof (cases "sv_visible (ob_search ob) \<and> i < length (sv_rows (ob_search ob))")
    case True
    with ClickRow list_ok_select [OF grown] show ?thesis by (simp add: omnibox_list_ok_def)
  qed (use ClickRow ok in \<open>auto simp: omnibox_list_ok_def\<close>)
next
  case (RunJob n)
  with ok run_job_list [OF assms, of n] show ?thesis by (cases "n < length (dk_jobs (ob_desk ob))") simp_all
next
  case RunIdle
  with run_idle_list [OF assms] show ?thesis by simp
qed (use ok in \<open>simp_all add: omnibox_list_ok_def\<close>)

lemma New_list:
  assumes sorter: "slice_sort (dt_sorter G)" and new: "New G cfg d = Ok ob" "dk_jobs d = []" "dk_idle d = []"
  shows "omnibox_list_ok G ob"
proof -
  define sv where "sv = fst (NewSearchView cfg d)"
  have "collect_matches U ws i [] = []" for U ws i by simp
  moreover have "dt_sorter G lt [] = []" for lt :: "fuzzy_match \<Rightarrow> fuzzy_match \<Rightarrow> bool"
    using slice_sort.sorter_length [OF sorter, of lt "[]"] by simp
  ultimately have "list_ok G sv js fs" for js fs
    by (simp add: sv_def NewSearchView_def list_ok_def coming_def names_ok_def rows_ok_def entries_filtered_def
        list_shows_def search_result_def)
  then have "omnibox_list_ok G (rebuildFocusRing
       \<lparr>ob_modeBar = mb, ob_categoryBar = cb, ob_search = sv, ob_add = av, ob_detail = dv, ob_mode = 0,
        ob_ring = r, ob_focus = None, ob_desk = snd (NewSearchView cfg d), ob_quit = False\<rparr>)" for mb cb av dv r
    by (simp add: omnibox_list_ok_def)
  with new(1) show ?thesis
    by (auto simp: New_def Let_def split_def sv_def split: if_splits
        intro!: list_ok_omnibox_moved [OF sorter _ modeBar_moved])
qed

lemma opened_list:
  assumes sorter: "slice_sort (dt_sorter G)" and "opened G cfg ob"
  shows "omnibox_list_ok G ob"
proof -
  from assms(2) obtain d ob0 cached where new: "New G cfg d = Ok ob0" "dk_jobs d = []" "dk_idle d = []"
    and ob: "ob = GrabFocus (Some SearchEntry) (case cached of None \<Rightarrow> ob0 | Some st \<Rightarrow> RestoreState G st ob0)"
    unfolding opened_def by blast
  note moved = list_ok_omnibox_moved [OF sorter]
  have query: "omnibox_list_ok G x \<Longrightarrow> omnibox_list_ok G (x\<lparr>ob_search := set_query q (ob_search x)\<rparr>)" for x q
    by (simp add: omnibox_list_ok_def list_ok_query)
  have "omnibox_list_ok G (RestoreState G st x)" if "omnibox_list_ok G x" for st x
  proof -
    obtain mode cat q where st: "st = (mode, cat, q)" by (rule prod_cases3)
    define x1 where "x1 = (if cat > 0 then categoryBar_SetActive G (int cat) x else x)"
    define x2 where "x2 = (if q \<noteq> [] then x1\<lparr>ob_search := set_query q (ob_search x1)\<rparr> else x1)"
    have "omnibox_list_ok G x1" using that by (auto simp: x1_def intro: moved [OF _ categoryBar_moved])
    then have "omnibox_list_ok G x2" by (auto simp: x2_def intro: query)
    moreover have "RestoreState G st x = (if mode = 1 then modeBar_SetActive G 1 x2 else x2)"
      by (simp only: RestoreState_def st x1_def x2_def Let_def prod.case)
    ultimately show ?thesis by (auto intro: moved [OF _ modeBar_moved])
  qed
  with New_list [OF sorter new] show ?thesis
    by (auto simp: ob intro!: moved [OF _ GrabFocus_moved(1)] split: option.split)
qed

text \<open>The invariant, for every sort that does what is documented.\<close>

definition search_inv :: "desktop \<Rightarrow> 'v omnibox \<Rightarrow> bool" where
  "search_inv G ob \<longleftrightarrow> (slice_sort (dt_sorter G) \<longrightarrow> omnibox_list_ok G ob)"

interpretation listed: invariant_system "opened G cfg" "omnibox_step G cfg" "search_inv G"
  by unfold_locales (auto simp: search_inv_def opened_list omnibox_step_def ui_step_list)

end
