(* ===== verification/Omnibox_Rest.thy ===== *)
theory Omnibox_Rest
  imports Omnibox_Search
begin

text \<open>
  How the overlay comes to rest, and its properties. The events that go on by themselves (the
  signal, the timer, a goroutine, an idle function) are bounded by a weight that each of them
  lowers; the user's events come in between as they like.
\<close>

subsection \<open>Events that go on by themselves\<close>

fun internal :: "ui_event \<Rightarrow> 'v omnibox \<Rightarrow> bool" where
  "internal SearchChanged ob \<longleftrightarrow> sv_signal (ob_search ob)"
| "internal TimerFires ob \<longleftrightarrow> sv_timer (ob_search ob) \<noteq> None"
| "internal (RunJob n) ob \<longleftrightarrow> n < length (dk_jobs (ob_desk ob))"
| "internal RunIdle ob \<longleftrightarrow> dk_idle (ob_desk ob) \<noteq> []"
| "internal _ ob \<longleftrightarrow> False"

fun internal_run :: "desktop \<Rightarrow> 'v omni_config \<Rightarrow> ui_event list \<Rightarrow> 'v omnibox \<Rightarrow> bool" where
  "internal_run G cfg [] ob \<longleftrightarrow> True"
| "internal_run G cfg (e # es) ob \<longleftrightarrow> internal e ob \<and> internal_run G cfg es (ui_step G cfg e ob)"

fun job_weight :: "job \<Rightarrow> nat" where
  "job_weight LoadList = 3"
| "job_weight (LoadStore _) = 2"
| "job_weight (DebounceElapsed _) = 2"
| "job_weight (CopyFetch _) = 3"
| "job_weight (CopyDecrypt _) = 2"
| "job_weight (CopyField _) = 1"
| "job_weight (OpenFetch _) = 3"
| "job_weight (OpenDecrypt _) = 2"
| "job_weight (AddSave _) = 5"
| "job_weight (UpdateSave _) = 5"

fun idle_weight :: "idle \<Rightarrow> nat" where
  "idle_weight AddDone = 4"
| "idle_weight UpdateDone = 4"
| "idle_weight _ = 1"

definition desk_weight :: "'v desk \<Rightarrow> nat" where
  "desk_weight d = sum_list (map job_weight (dk_jobs d)) + sum_list (map idle_weight (dk_idle d))"

definition pending :: "'v omnibox \<Rightarrow> nat" where
  "pending ob = (if sv_signal (ob_search ob) then 4 else 0) +
     (if sv_timer (ob_search ob) \<noteq> None then 3 else 0) + desk_weight (ob_desk ob)"

lemma desk_weight_simps [simp]:
  "desk_weight (go_job j d) = desk_weight d + job_weight j"
  "desk_weight (IdleAddOnce f d) = desk_weight d + idle_weight f"
  "desk_weight (sendNotify cfg b u i d) = desk_weight d" "desk_weight (d\<lparr>dk_vault := v\<rparr>) = desk_weight d"
  by (simp_all add: desk_weight_def)

lemma pending_moved:
  "sv_moved G (ob_search ob) (ob_search ob') \<Longrightarrow> pending ob' + desk_weight (ob_desk ob) = pending ob + desk_weight (ob_desk ob')"
  using sv_moved_frame [of G "ob_search ob" "ob_search ob'"] by (auto simp: pending_def)

lemma job_cost:
  "desk_weight (load_fetch cfg d) < desk_weight d + 3"
  "(\<And>e. job_weight (k e) = 2) \<Longrightarrow> desk_weight (fetch_entry_for k cfg env d) < desk_weight d + 3"
  "idle_weight f = 4 \<Longrightarrow> desk_weight (save_entry cfg sv m1 m2 f env d) < desk_weight d + 5"
  "desk_weight (copy_decrypt G cfg full d) < desk_weight d + 2"
  "desk_weight (open_decrypt cfg full d) < desk_weight d + 2"
  "desk_weight (copy_field G cfg val d) < desk_weight d + 1"
  using copy_decrypt_cases [of G cfg full d] open_decrypt_cases [of cfg full d]
  by (auto simp: load_fetch_def fetch_entry_for_def save_entry_def desk_weight_def
      split: option.split sum.split prod.split)

lemma run_job_pending: "pending (run_job G cfg j ob) < pending ob + job_weight j"
  using job_cost [where d = "ob_desk ob"]
  by (cases j) (auto simp: pending_def load_store_def add_save_def detail_save_def)

lemma run_idle_pending: "pending (run_idle G cfg f ob) < pending ob + idle_weight f"
proof -
  have detail: "desk_weight (ob_desk (switchToDetailView G cfg env pt ob)) = desk_weight (ob_desk ob)" for env pt
    by (simp add: desk_weight_def)
  have "pending (switchToSearch G ob) < pending ob + 4" "pending (switchToSearch G (hide_detail ob)) < pending ob + 4"
    using pending_moved [OF moved_switchToSearch [OF sv_same], of G ob]
      pending_moved [OF moved_switchToSearch [OF sv_same], of G "hide_detail ob"]
    by (simp_all add: pending_def)
  moreover have "pending (switchToDetailView G cfg env pt ob) = pending ob" for env pt
    using pending_moved [OF moved_switchToDetail [OF sv_same], of G cfg env pt ob] by (simp add: detail)
  ultimately show ?thesis by (cases f) (auto simp: pending_def debounced_def)
qed

lemma internal_pending:
  assumes "internal e ob"
  shows "pending (ui_step G cfg e ob) < pending ob"
proof (cases e)
  case SearchChanged
  with assms show ?thesis by (simp add: pending_def search_changed_def Let_def)
next
  case TimerFires
  with assms show ?thesis by (auto simp: pending_def)
next
  case (RunJob n)
  let ?js = "dk_jobs (ob_desk ob)"
  let ?ob = "on_desk (\<lambda>d. d\<lparr>dk_jobs := take n ?js @ drop (Suc n) ?js\<rparr>) ob"
  from assms RunJob have n: "n < length ?js" by simp
  then have "sum_list (map job_weight ?js) = sum_list (map job_weight (take n ?js @ ?js ! n # drop (Suc n) ?js))"
    by (simp flip: id_take_nth_drop)
  then have "pending ?ob + job_weight (?js ! n) = pending ob" by (simp add: pending_def desk_weight_def)
  with run_job_pending [of G cfg "?js ! n" ?ob] n RunJob show ?thesis by (simp add: Let_def)
next
  case RunIdle
  with assms obtain f fs where f: "dk_idle (ob_desk ob) = f # fs" by (auto simp: neq_Nil_conv)
  then have "pending (on_desk (\<lambda>d. d\<lparr>dk_idle := fs\<rparr>) ob) + idle_weight f = pending ob"
    by (simp add: pending_def desk_weight_def)
  with run_idle_pending [of G cfg f "on_desk (\<lambda>d. d\<lparr>dk_idle := fs\<rparr>) ob"] f RunIdle show ?thesis by simp
qed (use assms in simp_all)

lemma weights_pos [simp]: "0 < job_weight j" "0 < idle_weight f"
  by (cases j; simp) (cases f; simp)

lemma desk_weight_zero: "desk_weight d = 0 \<longleftrightarrow> dk_jobs d = [] \<and> dk_idle d = []"
  by (cases "dk_jobs d"; cases "dk_idle d"; auto simp: desk_weight_def dest: sym)

lemma pending_zero:
  "pending ob = 0 \<longleftrightarrow> \<not> sv_signal (ob_search ob) \<and> sv_timer (ob_search ob) = None \<and>
    dk_jobs (ob_desk ob) = [] \<and> dk_idle (ob_desk ob) = []"
  by (auto simp: pending_def desk_weight_zero)

lemma pending_enabled: "0 < pending ob \<Longrightarrow> \<exists>e. internal e ob"
proof -
  assume "0 < pending ob"
  then have "pending ob \<noteq> 0" by simp
  then consider "sv_signal (ob_search ob)" | "sv_timer (ob_search ob) \<noteq> None"
    | "dk_jobs (ob_desk ob) \<noteq> []" | "dk_idle (ob_desk ob) \<noteq> []"
    unfolding pending_zero by auto
  then show ?thesis by cases (metis internal.simps length_greater_0_conv)+
qed

lemma internal_run_length: "internal_run G cfg es ob \<Longrightarrow> length es + pending (ui_run G cfg es ob) \<le> pending ob"
proof (induction es arbitrary: ob)
  case (Cons e es)
  from Cons.prems internal_pending [of e ob G cfg] Cons.IH [of "ui_step G cfg e ob"] show ?case by auto
qed simp

lemma internal_run_rests: "\<exists>es. internal_run G cfg es ob \<and> pending (ui_run G cfg es ob) = 0"
proof (induction "pending ob" arbitrary: ob rule: less_induct)
  case less
  show ?case
  proof (cases "pending ob = 0")
    case True
    then have "internal_run G cfg [] ob \<and> pending (ui_run G cfg [] ob) = 0" by simp
    then show ?thesis by blast
  next
    case False
    then obtain e where e: "internal e ob" using pending_enabled by auto
    from less [OF internal_pending [OF e]] obtain es
      where "internal_run G cfg es (ui_step G cfg e ob)" "pending (ui_run G cfg es (ui_step G cfg e ob)) = 0" by blast
    with e have "internal_run G cfg (e # es) ob \<and> pending (ui_run G cfg (e # es) ob) = 0" by simp
    then show ?thesis by blast
  qed
qed

lemma reach_run: "omnibox_reach G cfg ob \<Longrightarrow> omnibox_reach G cfg (ui_run G cfg es ob)"
proof (induction es arbitrary: ob)
  case (Cons e es)
  have "omnibox_step G cfg ob (ui_step G cfg e ob)" by (auto simp: omnibox_step_def)
  from Cons.IH [OF reach_trans [OF Cons.prems this]] show ?case by simp
qed simp

lemma rest_shows:
  assumes "list_ok G sv [] []" "sv_timer sv = None" "\<not> sv_signal sv"
  shows "list_shows G sv"
  using assms by (simp add: list_ok_def coming_def)

subsection \<open>The bar of the categories\<close>

lemma bar_update_visible [simp]:
  "tb_visible (TabBar_SetButtonVisible i v t) = tb_visible t"
  by (simp add: TabBar_SetButtonVisible_def)

lemma categoryBar_visible [simp]:
  "tb_visible (ob_categoryBar (categoryBar_SetActive G i ob)) = tb_visible (ob_categoryBar ob)"
  by (auto simp: categoryBar_SetActive_def onCategoryChange_def TabBar_SetActive_def Let_def split: option.split)

lemma setMode_bar [simp]: "tb_visible (ob_categoryBar (setMode G i ob)) = tb_visible (ob_categoryBar ob)"
  by (simp add: setMode_def enter_add_mode_def Let_def)

lemma modeBar_bar [simp]: "tb_visible (ob_categoryBar (modeBar_SetActive G i ob)) = tb_visible (ob_categoryBar ob)"
  by (simp add: modeBar_SetActive_def split: option.split)

lemma switch_bar [simp]:
  "tb_visible (ob_categoryBar (switchToSearch G ob)) = tb_visible (ob_categoryBar ob)"
  "ob_categoryBar (hide_detail ob) = ob_categoryBar ob"
  "\<not> tb_visible (ob_categoryBar (switchToDetailView G cfg env pt ob))"
  by (simp_all add: switchToSearch_def hide_detail_def switchToDetailView_def Let_def split: prod.split)

lemma run_job_bar [simp]: "ob_categoryBar (run_job G cfg j ob) = ob_categoryBar ob"
  by (cases j) (simp_all add: load_store_def)

lemma click_bar: "tb_visible (ob_categoryBar (click G cfg w ob)) = tb_visible (ob_categoryBar ob)"
  by (cases w) simp_all

lemma run_idle_bar: "tb_visible (ob_categoryBar (run_idle G cfg f ob)) \<Longrightarrow> tb_visible (ob_categoryBar ob)"
  by (cases f) simp_all

lemma keyPressed_bar: "tb_visible (ob_categoryBar (snd (keyPressed G cfg k ctrl ob))) = tb_visible (ob_categoryBar ob)"
  by (cases k) (simp_all add: keyPressed_def handleEscape_def ctrl_digit_def move_focus_def openDetail_def split: option.split)

lemma ui_step_bar: "tb_visible (ob_categoryBar (ui_step G cfg e ob)) \<Longrightarrow> tb_visible (ob_categoryBar ob)"
  by (cases e) (auto simp: keyPressed_bar click_bar Let_def split: option.splits list.splits if_splits dest: run_idle_bar)

lemma ui_run_bar: "tb_visible (ob_categoryBar (ui_run G cfg es ob)) \<Longrightarrow> tb_visible (ob_categoryBar ob)"
  by (induction es arbitrary: ob) (auto dest: ui_step_bar)

subsection \<open>An overlay over a small vault\<close>

definition demo_desktop :: desktop where
  "demo_desktop = \<lparr>dt_unicode = ascii_tables, dt_sorter = insertion_sorter, dt_urls = demo_urls,
     dt_copy = (\<lambda>_. None), dt_text = (\<lambda>s. s)\<rparr>"

definition demo_entries :: "envelope list" where
  "demo_entries =
     [zero_envelope\<lparr>ID := ''a'', Name := ''github.com (me)'', Type := EntryTypeLogin, Meta := [(''username'', ''me'')]\<rparr>,
      zero_envelope\<lparr>ID := ''b'', Name := ''shopping'', Type := EntryTypeNote\<rparr>]"

definition demo_omni :: "unit omni_config" where
  "demo_omni = \<lparr>oc_Mode = OmniboxModeSearch, oc_Category = EntryTypeUnspecified,
     oc_ListEntries = Some (\<lambda>_ v. (Inr demo_entries, v)),
     oc_GetEntry = Some (\<lambda>i v. (case find (\<lambda>e. ID e = i) demo_entries of
       Some e \<Rightarrow> (Inr e, v) | None \<Rightarrow> (Inl (Errorf ''not found''), v))),
     oc_DecryptAndUse = Some (\<lambda>_ v. (None, Some (marshal_note zero_note), v)),
     oc_AddEntry = None, oc_UpdateEntry = None, oc_Notify = True\<rparr>"

definition demo_desk :: "unit desk" where
  "demo_desk = \<lparr>dk_vault = (), dk_jobs = [], dk_idle = [], dk_notices = [], dk_copied = []\<rparr>"

fun go_value :: "'a go \<Rightarrow> 'a option" where
  "go_value (Ok x) = Some x"
| "go_value (Panic _) = None"

definition demo_open :: "unit omnibox" where
  "demo_open = GrabFocus (Some SearchEntry) (the (go_value (New demo_desktop demo_omni demo_desk)))"

lemma demo_opened: "opened demo_desktop demo_omni demo_open"
proof -
  obtain ob where ob: "New demo_desktop demo_omni demo_desk = Ok ob"
    by (simp add: New_def demo_omni_def Let_def split_def)
  then have "demo_open = GrabFocus (Some SearchEntry) ob" by (simp add: demo_open_def)
  with ob show ?thesis
    unfolding opened_def by (intro exI [of _ demo_desk] exI [of _ ob] exI [of _ None]) (simp add: demo_desk_def)
qed

definition demo_loaded :: "unit omnibox" where
  "demo_loaded = ui_run demo_desktop demo_omni [RunJob 0, RunJob 0, RunIdle] demo_open"

lemma demo_omnibox_reach: "omnibox_reach demo_desktop demo_omni (ui_run demo_desktop demo_omni es demo_open)"
  by (intro reach_run reach_start demo_opened)

lemma demo_facts: "dv_env (ob_detail demo_loaded) = None" "ob_mode demo_loaded = 0"
  "1 < length (sv_rows (ob_search demo_loaded))"
  by code_simp+

lemma demo_callbacks: "oc_GetEntry demo_omni \<noteq> None" "oc_DecryptAndUse demo_omni \<noteq> None"
  by (simp_all add: demo_omni_def)

lemma demo_sorter: "slice_sort (dt_sorter demo_desktop)"
  unfolding demo_desktop_def by (simp add: ins.slice_sort_axioms)

subsection \<open>Properties\<close>

text \<open>
  C38: In every state the overlay reaches, one view is visible, the one of its mode, the
  mode tabs are visible outside the detail mode and show the mode, the add form is the form of
  the category that is searched with the tab All hidden, and the focus ring holds the widgets of
  that view. The bar of the categories is visible as long as no entry has been shown in detail,
  and never again after one has.
\<close>

theorem omnibox_views_match:
  assumes "omnibox_reach G cfg ob"
  shows "views_match ob \<and> (tb_visible (ob_categoryBar ob) \<longleftrightarrow> dv_env (ob_detail ob) = None) \<and>
    (dv_env (ob_detail ob) \<noteq> None \<longrightarrow>
       (\<forall>es. \<not> tb_visible (ob_categoryBar (ui_run G cfg es ob))))"
  using views.reach_inv [OF assms] ui_run_bar [where G = G and cfg = cfg and ob = ob]
  by (auto simp: views_inv_def bars_ok_def)

theorem omnibox_views_match_witness:
  "views_match demo_loaded \<and> tb_visible (ob_categoryBar demo_loaded)"
  using omnibox_views_match [OF demo_omnibox_reach, of "[RunJob 0, RunJob 0, RunIdle]", folded demo_loaded_def] demo_facts
  by simp

text \<open>
  C37: In every state, the list has at most twenty rows and each of them is the row of
  an entry of the chosen category; a row that is clicked copies that entry, and for the row that
  is selected Enter copies the value of that entry and Ctrl+Enter opens it, when no tab has the
  focus and the callbacks are there. To copy or to open is to start the job that does it for
  that entry; what the job then comes to is not part of this.
\<close>

theorem rows_act_on_their_entry:
  fixes G :: desktop and cfg :: "'v omni_config" and ob :: "'v omnibox"
  assumes "omnibox_reach G cfg ob" "slice_sort (dt_sorter G)" "i < length (sv_rows (ob_search ob))"
    and "oc_GetEntry cfg \<noteq> None" "oc_DecryptAndUse cfg \<noteq> None"
  defines "jobs_after \<equiv> \<lambda>e. dk_jobs (ob_desk (ui_step G cfg e ob))"
  shows "\<exists>env. sv_rows (ob_search ob) ! i = buildRow env \<and> length (sv_rows (ob_search ob)) \<le> 20 \<and>
    (sv_category (ob_search ob) = EntryTypeUnspecified \<or> Type env = sv_category (ob_search ob)) \<and>
    (ob_mode ob = 0 \<longrightarrow> jobs_after (ClickRow i) = dk_jobs (ob_desk ob) @ [CopyFetch env]) \<and>
    (ob_mode ob = 0 \<and> sv_selected (ob_search ob) = Some i \<and> \<not> isTabButtonFocused ob \<longrightarrow>
       jobs_after (KeyPressed KEY_Return False) = dk_jobs (ob_desk ob) @ [CopyFetch env] \<and>
       jobs_after (KeyPressed KEY_Return True) = dk_jobs (ob_desk ob) @ [OpenFetch env])"
proof -
  from listed.reach_inv [OF assms(1)] assms(2) have rows: "rows_ok (ob_search ob)" and names: "names_ok (ob_search ob)"
    by (simp_all add: search_inv_def omnibox_list_ok_def list_ok_def)
  from rows assms(3) obtain env where env: "entry_at i (ob_search ob) = Some env" "sv_rows (ob_search ob) ! i = buildRow env"
    and len: "length (sv_rows (ob_search ob)) \<le> 20"
    by (auto simp: rows_ok_def maxResults_def)
  from env(1) have "env \<in> set (sv_entries (ob_search ob))"
    by (auto simp: entry_at_def Let_def split: option.splits if_splits)
  with names have cat: "sv_category (ob_search ob) = EntryTypeUnspecified \<or> Type env = sv_category (ob_search ob)"
    by (auto simp: names_ok_def)
  have "sv_visible (ob_search ob) \<longleftrightarrow> ob_mode ob = 0"
    using views.reach_inv [OF assms(1)] by (simp add: views_inv_def views_match_def)
  with env len cat assms(3-5) show ?thesis
    by (intro exI [of _ env])
      (auto simp: jobs_after_def keyPressed_def copyEntryAtIndex_def CopySelected_def openDetail_def SelectedEntry_def)
qed

theorem rows_act_on_their_entry_witness:
  "\<exists>env. sv_rows (ob_search demo_loaded) ! 1 = buildRow env \<and>
     dk_jobs (ob_desk (ui_step demo_desktop demo_omni (ClickRow 1) demo_loaded)) =
       dk_jobs (ob_desk demo_loaded) @ [CopyFetch env]"
  using rows_act_on_their_entry [OF demo_omnibox_reach demo_sorter _ demo_callbacks, of 1 "[RunJob 0, RunJob 0, RunIdle]",
      folded demo_loaded_def, OF demo_facts(3)] demo_facts(2)
  by blast

text \<open>
  C39: From every state, what is under way ends: no run of the signal, the timer, the
  goroutines and the idle functions is longer than the weight of what is pending, and one of them
  ends with nothing pending. Whenever nothing is pending, the list shows exactly the result of
  the search for the text and the category over the entries that were loaded last.
\<close>

theorem omnibox_settles:
  fixes G :: desktop and cfg :: "'v omni_config" and ob :: "'v omnibox"
  assumes "omnibox_reach G cfg ob" "slice_sort (dt_sorter G)"
  shows "(\<forall>es. internal_run G cfg es ob \<longrightarrow> length es \<le> pending ob) \<and>
    (\<exists>es. internal_run G cfg es ob \<and> pending (ui_run G cfg es ob) = 0) \<and>
    (\<forall>es. pending (ui_run G cfg es ob) = 0 \<longrightarrow>
       (let sv = ob_search (ui_run G cfg es ob)
        in sv_rows sv = map buildRow (search_result G (sv_category sv) (sv_text sv) (sv_allEntries sv))))"
proof (intro conjI allI impI)
  show "length es \<le> pending ob" if "internal_run G cfg es ob" for es
    using internal_run_length [OF that] by simp
  show "\<exists>es. internal_run G cfg es ob \<and> pending (ui_run G cfg es ob) = 0" by (rule internal_run_rests)
  fix es
  assume rest: "pending (ui_run G cfg es ob) = 0"
  from listed.reach_inv [OF reach_run [OF assms(1)]] assms(2)
  have "list_ok G (ob_search (ui_run G cfg es ob)) (dk_jobs (ob_desk (ui_run G cfg es ob))) (dk_idle (ob_desk (ui_run G cfg es ob)))"
    by (simp add: search_inv_def omnibox_list_ok_def)
  with rest rest_shows [of G "ob_search (ui_run G cfg es ob)"]
  show "let sv = ob_search (ui_run G cfg es ob)
        in sv_rows sv = map buildRow (search_result G (sv_category sv) (sv_text sv) (sv_allEntries sv))"
    by (simp add: pending_zero list_shows_def Let_def)
qed

theorem omnibox_settles_witness:
  "\<exists>es. internal_run demo_desktop demo_omni es demo_open \<and> pending (ui_run demo_desktop demo_omni es demo_open) = 0"
  using omnibox_settles [OF demo_omnibox_reach demo_sorter, of "[]"] by simp

end
