(* ===== verification/Pin_Window.thy ===== *)
theory Pin_Window
  imports Session
begin

text \<open>
  The PIN prompt of the desktop, \<^verbatim>\<open>internal/adapters/gui/pin/pin.go\<close>: as a window of its own
  (\<^verbatim>\<open>PromptGUI\<close>) and as a pane of the overlay (\<^verbatim>\<open>PINPane\<close>). The entry, the goroutine that
  validates, the goroutine that watches for inactivity and the functions queued for the GTK
  thread are a state; what happens to it is an event. The validator changes the state \<open>'u\<close> it
  closes over. That the timer has run out, and that the window stays open for the functions queued
  at the time it is told to quit, is left to the events.
\<close>

subsection \<open>State\<close>

definition maxMessageLen :: nat where "maxMessageLen = 200"

datatype pin_idle = Accepted | Fatal go_error | Refused string | GiveUp

record 'u pin_window =
  pw_text :: string
  pw_sensitive :: bool
  pw_label :: "string option"
  pw_checks :: "string list"
  pw_idle :: "pin_idle list"
  pw_reset :: bool
  pw_watching :: bool
  pw_done :: bool
  pw_ctx :: "go_error option"
  pw_success :: bool
  pw_err :: "go_error option"
  pw_quit :: bool
  pw_state :: 'u

definition new_pin_window :: "'u \<Rightarrow> 'u pin_window" where
  "new_pin_window u = \<lparr>pw_text = [], pw_sensitive = True, pw_label = None, pw_checks = [], pw_idle = [],
     pw_reset = False, pw_watching = True, pw_done = False, pw_ctx = None, pw_success = False, pw_err = None,
     pw_quit = False, pw_state = u\<rparr>"

subsection \<open>Handlers\<close>

text \<open>Enter in the entry: the channel of resets has room for one, and a full one is left as it is.\<close>

definition activateEntry :: "'u pin_window \<Rightarrow> 'u pin_window" where
  "activateEntry w =
     (if pw_text w = [] then w
      else w\<lparr>pw_reset := True, pw_sensitive := False, pw_checks := pw_checks w @ [pw_text w]\<rparr>)"

definition error_message :: "go_error \<Rightarrow> string" where
  "error_message e =
     (let msg = error_string e in
      if length (runes msg) > maxMessageLen then concat (map encode_rune (take maxMessageLen (runes msg))) else msg)"

definition answer_of :: "go_error option \<Rightarrow> pin_idle" where
  "answer_of r =
     (case r of
        None \<Rightarrow> Accepted
      | Some e \<Rightarrow> (case errors_as_fatal e of Some f \<Rightarrow> Fatal f | None \<Rightarrow> Refused (error_message e)))"

text \<open>The goroutine that validates a text that was entered.\<close>

definition PromptGUI_check :: "(string \<Rightarrow> 'u \<Rightarrow> go_error option \<times> 'u) \<Rightarrow> string \<Rightarrow> 'u pin_window \<Rightarrow> 'u pin_window" where
  "PromptGUI_check validate pin w =
     (case validate pin (pw_state w) of (r, u) \<Rightarrow> w\<lparr>pw_state := u, pw_idle := pw_idle w @ [answer_of r]\<rparr>)"

definition PINPane_check :: "(string \<Rightarrow> 'u \<Rightarrow> go_error option \<times> 'u) \<Rightarrow> string \<Rightarrow> 'u pin_window \<Rightarrow> 'u pin_window" where
  "PINPane_check validate pin w =
     (case validate pin (pw_state w) of
        (r, u) \<Rightarrow>
          let w = w\<lparr>pw_state := u, pw_idle := pw_idle w @ [answer_of r]\<rparr>
          in case answer_of r of Refused _ \<Rightarrow> w | _ \<Rightarrow> w\<lparr>pw_done := True\<rparr>)"

definition show_refusal :: "string \<Rightarrow> 'u pin_window \<Rightarrow> 'u pin_window" where
  "show_refusal msg w = w\<lparr>pw_label := Some msg, pw_text := [], pw_sensitive := True\<rparr>"

fun PromptGUI_idle :: "pin_idle \<Rightarrow> 'u pin_window \<Rightarrow> 'u pin_window" where
  "PromptGUI_idle Accepted w = w\<lparr>pw_success := True, pw_quit := True\<rparr>"
| "PromptGUI_idle (Fatal e) w = w\<lparr>pw_err := Some e, pw_quit := True\<rparr>"
| "PromptGUI_idle (Refused msg) w = show_refusal msg w"
| "PromptGUI_idle GiveUp w = w\<lparr>pw_quit := True\<rparr>"

text \<open>
  The pane calls \<^verbatim>\<open>onSuccess\<close>, which is \<open>pw_success\<close>, or \<^verbatim>\<open>onCancel\<close>, which quits the overlay; the
  fatal error is dropped.
\<close>

fun PINPane_idle :: "pin_idle \<Rightarrow> 'u pin_window \<Rightarrow> 'u pin_window" where
  "PINPane_idle Accepted w = w\<lparr>pw_success := True\<rparr>"
| "PINPane_idle (Fatal e) w = w\<lparr>pw_quit := True\<rparr>"
| "PINPane_idle (Refused msg) w = show_refusal msg w"
| "PINPane_idle GiveUp w = w\<lparr>pw_quit := True\<rparr>"

text \<open>The watcher after the timer ran out or the context ended.\<close>

definition PromptGUI_watch :: "'u pin_window \<Rightarrow> 'u pin_window" where
  "PromptGUI_watch w = w\<lparr>pw_watching := False, pw_idle := pw_idle w @ [GiveUp]\<rparr>"

definition PINPane_watch :: "'u pin_window \<Rightarrow> 'u pin_window" where
  "PINPane_watch w =
     (if pw_done w then w\<lparr>pw_watching := False\<rparr>
      else w\<lparr>pw_watching := False, pw_done := True, pw_idle := pw_idle w @ [GiveUp]\<rparr>)"

subsection \<open>Events\<close>

datatype pin_event =
    TypePIN string
  | ActivateEntry
  | RunCheck
  | PINIdle
  | PressEscape
  | CloseRequest
  | ContextEnds go_error
  | WatchReset
  | WatchFires

text \<open>
  An entry that is not sensitive takes no text and no Enter. Validations run in the order in which
  they were started.
\<close>

fun pin_step :: "(string \<Rightarrow> 'u pin_window \<Rightarrow> 'u pin_window) \<Rightarrow> (pin_idle \<Rightarrow> 'u pin_window \<Rightarrow> 'u pin_window) \<Rightarrow>
    ('u pin_window \<Rightarrow> 'u pin_window) \<Rightarrow> pin_event \<Rightarrow> 'u pin_window \<Rightarrow> 'u pin_window" where
  "pin_step check idle watch (TypePIN t) w = (if pw_sensitive w then w\<lparr>pw_text := t\<rparr> else w)"
| "pin_step check idle watch ActivateEntry w = (if pw_sensitive w then activateEntry w else w)"
| "pin_step check idle watch RunCheck w =
     (case pw_checks w of [] \<Rightarrow> w | pin # pins \<Rightarrow> check pin (w\<lparr>pw_checks := pins\<rparr>))"
| "pin_step check idle watch PINIdle w =
     (case pw_idle w of [] \<Rightarrow> w | f # fs \<Rightarrow> idle f (w\<lparr>pw_idle := fs\<rparr>))"
| "pin_step check idle watch PressEscape w = w\<lparr>pw_quit := True\<rparr>"
| "pin_step check idle watch CloseRequest w = w\<lparr>pw_quit := True\<rparr>"
| "pin_step check idle watch (ContextEnds e) w = (if pw_ctx w = None then w\<lparr>pw_ctx := Some e\<rparr> else w)"
| "pin_step check idle watch WatchReset w = (if pw_watching w then w\<lparr>pw_reset := False\<rparr> else w)"
| "pin_step check idle watch WatchFires w = (if pw_watching w then watch w else w)"

definition PromptGUI_step :: "(string \<Rightarrow> 'u \<Rightarrow> go_error option \<times> 'u) \<Rightarrow> pin_event \<Rightarrow> 'u pin_window \<Rightarrow> 'u pin_window" where
  "PromptGUI_step validate = pin_step (PromptGUI_check validate) PromptGUI_idle PromptGUI_watch"

definition PINPane_step :: "(string \<Rightarrow> 'u \<Rightarrow> go_error option \<times> 'u) \<Rightarrow> pin_event \<Rightarrow> 'u pin_window \<Rightarrow> 'u pin_window" where
  "PINPane_step validate = pin_step (PINPane_check validate) PINPane_idle PINPane_watch"

fun pin_run :: "(pin_event \<Rightarrow> 'u pin_window \<Rightarrow> 'u pin_window) \<Rightarrow> pin_event list \<Rightarrow> 'u pin_window \<Rightarrow> 'u pin_window" where
  "pin_run step [] w = w"
| "pin_run step (e # es) w = pin_run step es (step e w)"

lemma pin_run_append: "pin_run step (es @ fs) w = pin_run step fs (pin_run step es w)"
  by (induction es arbitrary: w) auto

definition PromptGUI_result :: "'u pin_window \<Rightarrow> go_error option" where
  "PromptGUI_result w =
     (if pw_success w then None
      else if pw_err w \<noteq> None then pw_err w
      else if pw_ctx w \<noteq> None then pw_ctx w
      else Some ErrPINPromptCancelled)"

text \<open>\<open>None\<close> when the window is still open after the events.\<close>

definition PromptGUI :: "(string \<Rightarrow> 'u \<Rightarrow> go_error option \<times> 'u) \<Rightarrow> pin_event list \<Rightarrow> 'u \<Rightarrow>
    (go_error option \<times> 'u) option" where
  "PromptGUI validate events u =
     (let w = pin_run (PromptGUI_step validate) events (new_pin_window u)
      in if pw_quit w then Some (PromptGUI_result w, pw_state w) else None)"

lemma PromptGUI_result_cases:
  assumes "PromptGUI_result w = Some e"
  shows "pw_err w = Some e \<or> pw_ctx w = Some e \<or> e = ErrPINPromptCancelled"
proof (cases "pw_success w")
  case False
  with assms show ?thesis
    by (cases "pw_err w"; cases "pw_ctx w") (simp_all add: PromptGUI_result_def)
qed (use assms in \<open>simp add: PromptGUI_result_def\<close>)

subsection \<open>What the validator has been asked\<close>

definition accepted_in :: "(string \<Rightarrow> 'u \<Rightarrow> go_error option \<times> 'u) \<Rightarrow> 'u \<Rightarrow> 'u \<Rightarrow> bool" where
  "accepted_in validate u0 u \<longleftrightarrow>
     (\<exists>pins pin s. rejected validate pins u0 = Some s \<and> pin \<noteq> [] \<and> validate pin s = (None, u))"

definition fatal_in :: "(string \<Rightarrow> 'u \<Rightarrow> go_error option \<times> 'u) \<Rightarrow> 'u \<Rightarrow> go_error \<Rightarrow> 'u \<Rightarrow> bool" where
  "fatal_in validate u0 e u \<longleftrightarrow>
     (\<exists>pins pin s v. rejected validate pins u0 = Some s \<and> pin \<noteq> [] \<and> validate pin s = (Some v, u) \<and>
        errors_as_fatal v = Some e)"

definition refused_in :: "(string \<Rightarrow> 'u \<Rightarrow> go_error option \<times> 'u) \<Rightarrow> 'u \<Rightarrow> 'u \<Rightarrow> bool" where
  "refused_in validate u0 u \<longleftrightarrow> (\<exists>pins. rejected validate pins u0 = Some u)"

definition answers :: "'u pin_window \<Rightarrow> pin_idle list" where
  "answers w = filter (\<lambda>f. f \<noteq> GiveUp) (pw_idle w)"

text \<open>
  At most one PIN is under way: it waits to be validated, or its answer waits for the GTK thread,
  and until that was a refusal the entry takes no other.
\<close>

definition pin_inv :: "(string \<Rightarrow> 'u \<Rightarrow> go_error option \<times> 'u) \<Rightarrow> 'u \<Rightarrow> 'u pin_window \<Rightarrow> bool" where
  "pin_inv validate u0 w \<longleftrightarrow>
     (refused_in validate u0 (pw_state w) \<and> \<not> pw_success w \<and> pw_err w = None \<and>
        (pw_sensitive w \<and> pw_checks w = [] \<and> answers w = [] \<or>
         \<not> pw_sensitive w \<and> (\<exists>pin. pin \<noteq> [] \<and> pw_checks w = [pin]) \<and> answers w = [] \<or>
         \<not> pw_sensitive w \<and> pw_checks w = [] \<and> (\<exists>msg. answers w = [Refused msg]))) \<or>
     (\<not> pw_sensitive w \<and> pw_checks w = [] \<and>
        (accepted_in validate u0 (pw_state w) \<and> pw_err w = None \<and>
           (answers w = [Accepted] \<and> \<not> pw_success w \<or> answers w = [] \<and> pw_success w) \<or>
         \<not> pw_success w \<and> (\<exists>e. fatal_in validate u0 e (pw_state w) \<and>
           (answers w = [Fatal e] \<and> pw_err w = None \<or> answers w = [] \<and> pw_err w \<in> {None, Some e}))))"

lemma rejected_snoc:
  "rejected validate (pins @ [pin]) u0 = Some u \<longleftrightarrow>
    (\<exists>s e. rejected validate pins u0 = Some s \<and> pin \<noteq> [] \<and> validate pin s = (Some e, u) \<and> errors_as_fatal e = None)"
  by (induction pins arbitrary: u0) (auto split: prod.splits option.splits)

lemma refused_in_start: "refused_in validate u0 u0"
  unfolding refused_in_def by (rule exI [of _ "[]"]) simp

lemma check_outcome:
  assumes "refused_in validate u0 s" "pin \<noteq> []" "validate pin s = (r, u)"
  shows "case answer_of r of
      Accepted \<Rightarrow> accepted_in validate u0 u
    | Fatal e \<Rightarrow> fatal_in validate u0 e u
    | Refused _ \<Rightarrow> refused_in validate u0 u
    | GiveUp \<Rightarrow> False"
proof -
  from assms(1) obtain pins where pins: "rejected validate pins u0 = Some s" by (auto simp: refused_in_def)
  show ?thesis
  proof (cases r)
    case None
    with pins assms show ?thesis by (auto simp: answer_of_def accepted_in_def)
  next
    case (Some e)
    show ?thesis
    proof (cases "errors_as_fatal e")
      case None
      with pins assms Some have "rejected validate (pins @ [pin]) u0 = Some u" by (auto simp: rejected_snoc)
      with Some None show ?thesis by (auto simp: answer_of_def refused_in_def)
    next
      case (Some f)
      with pins assms \<open>r = Some e\<close> show ?thesis by (auto simp: answer_of_def fatal_in_def)
    qed
  qed
qed

lemma answers_simps [simp]:
  "answers (w\<lparr>pw_text := t\<rparr>) = answers w" "answers (w\<lparr>pw_quit := q\<rparr>) = answers w"
  "answers (w\<lparr>pw_ctx := c\<rparr>) = answers w" "answers (w\<lparr>pw_reset := r\<rparr>) = answers w"
  by (simp_all add: answers_def)

lemma pin_inv_frames [simp]:
  "pin_inv validate u0 (w\<lparr>pw_quit := q\<rparr>) = pin_inv validate u0 w"
  "pin_inv validate u0 (w\<lparr>pw_ctx := c\<rparr>) = pin_inv validate u0 w"
  "pin_inv validate u0 (w\<lparr>pw_text := t\<rparr>) = pin_inv validate u0 w"
  "pin_inv validate u0 (w\<lparr>pw_reset := r\<rparr>) = pin_inv validate u0 w"
  by (simp_all add: pin_inv_def)

text \<open>Taking a check, and queueing its answer, in either prompt.\<close>

lemma pin_inv_checked:
  assumes inv: "pin_inv validate u0 w" and pin: "pw_checks w = pin # pins" and val: "validate pin (pw_state w) = (r, u)"
    and w': "pw_state w' = u" "pw_idle w' = pw_idle w @ [answer_of r]" "pw_checks w' = pins"
      "pw_sensitive w' = pw_sensitive w" "pw_success w' = pw_success w" "pw_err w' = pw_err w"
  shows "pin_inv validate u0 w'"
proof -
  from inv pin have w: "refused_in validate u0 (pw_state w)" "\<not> pw_success w" "pw_err w = None" "\<not> pw_sensitive w"
    "pin \<noteq> []" "pins = []" "answers w = []"
    by (auto simp: pin_inv_def)
  from check_outcome [OF w(1,5) val] w w' show ?thesis
    by (cases "answer_of r") (auto simp: pin_inv_def answers_def)
qed

lemma pin_inv_step:
  assumes inv: "pin_inv validate u0 w"
    and check: "\<And>pin w. \<exists>d. check pin w = (PromptGUI_check validate pin w)\<lparr>pw_done := d\<rparr>"
    and idle: "\<And>f w. \<exists>q e. idle f w = (PromptGUI_idle f w)\<lparr>pw_quit := q, pw_err := e\<rparr> \<and> (e = pw_err w \<or> e = pw_err (PromptGUI_idle f w))"
    and watch: "\<And>w. \<exists>b d g. watch w = w\<lparr>pw_watching := b, pw_done := d, pw_idle := pw_idle w @ g\<rparr> \<and> set g \<subseteq> {GiveUp}"
  shows "pin_inv validate u0 (pin_step check idle watch e w)"
proof (cases e)
  case ActivateEntry
  with inv show ?thesis by (auto simp: activateEntry_def pin_inv_def answers_def)
next
  case RunCheck
  show ?thesis
  proof (cases "pw_checks w")
    case Nil
    with inv RunCheck show ?thesis by simp
  next
    case (Cons pin pins)
    obtain r u where val: "validate pin (pw_state w) = (r, u)" by force
    from check obtain d where "check pin (w\<lparr>pw_checks := pins\<rparr>) =
        (PromptGUI_check validate pin (w\<lparr>pw_checks := pins\<rparr>))\<lparr>pw_done := d\<rparr>" by blast
    with RunCheck Cons val show ?thesis
      by (auto simp: PromptGUI_check_def intro!: pin_inv_checked [OF inv Cons val])
  qed
next
  case PINIdle
  show ?thesis
  proof (cases "pw_idle w")
    case Nil
    with inv PINIdle show ?thesis by simp
  next
    case (Cons f fs)
    let ?w = "w\<lparr>pw_idle := fs\<rparr>"
    from idle [of f ?w] obtain q err where step: "idle f ?w = (PromptGUI_idle f ?w)\<lparr>pw_quit := q, pw_err := err\<rparr>"
      and err: "err = pw_err ?w \<or> err = pw_err (PromptGUI_idle f ?w)" by blast
    from inv Cons err have "pin_inv validate u0 ((PromptGUI_idle f ?w)\<lparr>pw_quit := q, pw_err := err\<rparr>)"
      by (cases f) (auto simp: pin_inv_def answers_def show_refusal_def)
    with PINIdle Cons step show ?thesis by simp
  qed
next
  case WatchFires
  from watch [of w] obtain b d g where w': "watch w = w\<lparr>pw_watching := b, pw_done := d, pw_idle := pw_idle w @ g\<rparr>" "set g \<subseteq> {GiveUp}"
    by blast
  then have "answers (watch w) = answers w" by (auto simp: answers_def filter_empty_conv)
  with w' inv WatchFires show ?thesis by (simp add: pin_inv_def)
qed (use inv in simp_all)

lemma PromptGUI_inv: "pin_inv validate u0 w \<Longrightarrow> pin_inv validate u0 (PromptGUI_step validate e w)"
  unfolding PromptGUI_step_def
proof (erule pin_inv_step)
  show "\<exists>d. PromptGUI_check validate pin w = (PromptGUI_check validate pin w)\<lparr>pw_done := d\<rparr>" for pin w
    by (rule exI [of _ "pw_done (PromptGUI_check validate pin w)"]) simp
  show "\<exists>q e. PromptGUI_idle f w = (PromptGUI_idle f w)\<lparr>pw_quit := q, pw_err := e\<rparr> \<and>
      (e = pw_err w \<or> e = pw_err (PromptGUI_idle f w))" for f and w :: "'a pin_window"
    by (intro exI [of _ "pw_quit (PromptGUI_idle f w)"] exI [of _ "pw_err (PromptGUI_idle f w)"]) simp
  show "\<exists>b d g. PromptGUI_watch w = w\<lparr>pw_watching := b, pw_done := d, pw_idle := pw_idle w @ g\<rparr> \<and> set g \<subseteq> {GiveUp}"
    for w :: "'a pin_window"
    by (intro exI [of _ False] exI [of _ "pw_done w"] exI [of _ "[GiveUp]"]) (simp add: PromptGUI_watch_def)
qed

lemma PINPane_inv: "pin_inv validate u0 w \<Longrightarrow> pin_inv validate u0 (PINPane_step validate e w)"
  unfolding PINPane_step_def
proof (erule pin_inv_step)
  show "\<exists>d. PINPane_check validate pin w = (PromptGUI_check validate pin w)\<lparr>pw_done := d\<rparr>" for pin w
    by (intro exI [of _ "pw_done (PINPane_check validate pin w)"])
      (simp add: PINPane_check_def PromptGUI_check_def Let_def split: prod.split pin_idle.split)
  show "\<exists>q e. PINPane_idle f w = (PromptGUI_idle f w)\<lparr>pw_quit := q, pw_err := e\<rparr> \<and>
      (e = pw_err w \<or> e = pw_err (PromptGUI_idle f w))" for f and w :: "'a pin_window"
    by (intro exI [of _ "pw_quit (PINPane_idle f w)"] exI [of _ "pw_err w"])
      (cases f; simp add: show_refusal_def)
  show "\<exists>b d g. PINPane_watch w = w\<lparr>pw_watching := b, pw_done := d, pw_idle := pw_idle w @ g\<rparr> \<and> set g \<subseteq> {GiveUp}"
    for w :: "'a pin_window"
    by (intro exI [of _ False] exI [of _ True] exI [of _ "if pw_done w then [] else [GiveUp]"])
      (auto simp: PINPane_watch_def)
qed

lemma pin_inv_start: "pin_inv validate u0 (new_pin_window u0)"
  by (simp add: pin_inv_def new_pin_window_def answers_def refused_in_start)

interpretation prompt: invariant_system "\<lambda>w. w = new_pin_window u0"
  "\<lambda>w w'. \<exists>e. w' = PromptGUI_step validate e w" "pin_inv validate u0"
  by unfold_locales (simp add: pin_inv_start, elim exE, simp only: PromptGUI_inv)

interpretation pane: invariant_system "\<lambda>w. w = new_pin_window u0"
  "\<lambda>w w'. \<exists>e. w' = PINPane_step validate e w" "pin_inv validate u0"
  by unfold_locales (simp add: pin_inv_start, elim exE, simp only: PINPane_inv)

lemma pin_run_reach:
  "reach_from S (\<lambda>w w'. \<exists>e. w' = step e w) w \<Longrightarrow> reach_from S (\<lambda>w w'. \<exists>e. w' = step e w) (pin_run step es w)"
proof (induction es arbitrary: w)
  case (Cons e es)
  from Cons.IH [OF reach_trans [OF Cons.prems]] show ?case by auto
qed simp

lemma prompt_run_inv: "pin_inv validate u0 (pin_run (PromptGUI_step validate) es (new_pin_window u0))"
  by (rule prompt.reach_inv, rule pin_run_reach, rule reach_start) simp

lemma pane_run_inv: "pin_inv validate u0 (pin_run (PINPane_step validate) es (new_pin_window u0))"
  by (rule pane.reach_inv, rule pin_run_reach, rule reach_start) simp

text \<open>The result, read off the invariant.\<close>

lemma pin_inv_success: "pin_inv validate u0 w \<Longrightarrow> pw_success w \<Longrightarrow> accepted_in validate u0 (pw_state w)"
  by (auto simp: pin_inv_def)

lemma pin_inv_error: "pin_inv validate u0 w \<Longrightarrow> pw_err w = Some e \<Longrightarrow> fatal_in validate u0 e (pw_state w)"
  by (auto simp: pin_inv_def)

subsection \<open>Entering PINs one after the other\<close>

definition enter_pin :: "string \<Rightarrow> pin_event list" where
  "enter_pin pin = [TypePIN pin, ActivateEntry, RunCheck, PINIdle]"

definition pin_ready :: "'u \<Rightarrow> 'u pin_window \<Rightarrow> bool" where
  "pin_ready u w \<longleftrightarrow> pw_sensitive w \<and> pw_checks w = [] \<and> pw_idle w = [] \<and> pw_state w = u"

lemma enter_refused:
  assumes "pin_ready s w" "pin \<noteq> []" "validate pin s = (Some e, u)" "errors_as_fatal e = None"
  shows "pin_ready u (pin_run (PromptGUI_step validate) (enter_pin pin) w)"
  using assms
  by (simp add: pin_ready_def enter_pin_def PromptGUI_step_def activateEntry_def PromptGUI_check_def answer_of_def show_refusal_def)

lemma enter_accepted:
  assumes "pin_ready s w" "pin \<noteq> []" "validate pin s = (None, u)"
  defines "w' \<equiv> pin_run (PromptGUI_step validate) (enter_pin pin) w"
  shows "pw_quit w' \<and> pw_success w' \<and> pw_state w' = u"
  using assms
  by (simp add: pin_ready_def enter_pin_def PromptGUI_step_def activateEntry_def PromptGUI_check_def answer_of_def)

lemma enter_all_refused:
  "pin_ready s w \<Longrightarrow> rejected validate pins s = Some u \<Longrightarrow>
    pin_ready u (pin_run (PromptGUI_step validate) (concat (map enter_pin pins)) w)"
proof (induction pins arbitrary: s w)
  case (Cons pin pins)
  from Cons.prems(2) obtain e s1 where val: "validate pin s = (Some e, s1)" "pin \<noteq> []" "errors_as_fatal e = None"
    "rejected validate pins s1 = Some u"
    by (auto split: prod.splits option.splits if_splits)
  have "pin_ready s1 (pin_run (PromptGUI_step validate) (enter_pin pin) w)"
    by (rule enter_refused [where s = s]) (rule Cons.prems(1) val(2) val(1) val(3))+
  from Cons.IH [OF this val(4)] show ?case by (simp add: pin_run_append)
qed simp

lemma PromptGUI_idle_ctx [simp]: "pw_ctx (PromptGUI_idle f w) = pw_ctx w"
  by (cases f) (simp_all add: show_refusal_def)

lemma context_step:
  "pw_ctx (PromptGUI_step validate ev w) = Some e \<Longrightarrow> pw_ctx w = Some e \<or> ev = ContextEnds e"
  by (cases ev)
    (auto simp: PromptGUI_step_def activateEntry_def PromptGUI_check_def PromptGUI_watch_def
      split: if_splits list.splits prod.splits)

lemma context_from_event:
  "pw_ctx (pin_run (PromptGUI_step validate) events w) = Some e \<Longrightarrow> pw_ctx w = Some e \<or> ContextEnds e \<in> set events"
  by (induction events arbitrary: w) (auto dest: context_step)

text \<open>
  C36: The PIN window unlocks exactly when the validator accepts: there are events under
  which it succeeds and ends in a state if and only if, after PINs that were refused, the validator
  accepted one that was not empty and left that state. An error is the one of a fatal answer, the
  one the context ended with, or that the prompt was cancelled; and the pane of the overlay, whose
  success opens it, succeeds only after the validator has accepted.
\<close>

theorem pin_window_unlocks_iff_accepted:
  "((\<exists>events. PromptGUI validate events u0 = Some (None, u)) = accepted_in validate u0 u) \<and>
   (\<forall>events e v. PromptGUI validate events u0 = Some (Some e, v) \<longrightarrow>
      e = ErrPINPromptCancelled \<or> ContextEnds e \<in> set events \<or> fatal_in validate u0 e v) \<and>
   (\<forall>events. let w = pin_run (PINPane_step validate) events (new_pin_window u0)
      in pw_success w \<longrightarrow> accepted_in validate u0 (pw_state w))"
proof (intro conjI allI impI)
  let ?run = "\<lambda>es. pin_run (PromptGUI_step validate) es (new_pin_window u0)"
  show "(\<exists>events. PromptGUI validate events u0 = Some (None, u)) = accepted_in validate u0 u"
  proof
    assume "\<exists>events. PromptGUI validate events u0 = Some (None, u)"
    then obtain es where "pw_success (?run es)" "pw_state (?run es) = u"
      by (auto simp: PromptGUI_def PromptGUI_result_def Let_def split: if_splits)
    with pin_inv_success [OF prompt_run_inv, of validate es u0] show "accepted_in validate u0 u" by simp
  next
    assume "accepted_in validate u0 u"
    then obtain pins pin s where pins: "rejected validate pins u0 = Some s" and pin: "pin \<noteq> []" "validate pin s = (None, u)"
      unfolding accepted_in_def by blast
    have "pin_ready u0 (new_pin_window u0)" by (simp add: pin_ready_def new_pin_window_def)
    from enter_accepted [where validate = validate, OF enter_all_refused [OF this pins] pin]
    have "PromptGUI validate (concat (map enter_pin pins) @ enter_pin pin) u0 = Some (None, u)"
      by (simp add: PromptGUI_def PromptGUI_result_def pin_run_append Let_def)
    then show "\<exists>events. PromptGUI validate events u0 = Some (None, u)" ..
  qed
next
  fix events e v
  assume r: "PromptGUI validate events u0 = Some (Some e, v)"
  define w where "w = pin_run (PromptGUI_step validate) events (new_pin_window u0)"
  from r have res: "PromptGUI_result w = Some e" and "pw_state w = v"
    by (simp_all add: PromptGUI_def w_def [symmetric] Let_def split: if_split_asm)
  from PromptGUI_result_cases [OF res]
  consider "pw_err w = Some e" | "pw_ctx w = Some e" | "e = ErrPINPromptCancelled" by blast
  then show "e = ErrPINPromptCancelled \<or> ContextEnds e \<in> set events \<or> fatal_in validate u0 e v"
  proof cases
    case 1
    have "fatal_in validate u0 e (pw_state w)"
      unfolding w_def by (rule pin_inv_error [OF prompt_run_inv]) (rule 1 [unfolded w_def])
    with \<open>pw_state w = v\<close> show ?thesis by blast
  next
    case 2
    then have "ContextEnds e \<in> set events" using context_from_event [of validate events "new_pin_window u0" e]
      by (simp add: w_def new_pin_window_def)
    then show ?thesis by simp
  qed simp
next
  fix events
  show "let w = pin_run (PINPane_step validate) events (new_pin_window u0)
      in pw_success w \<longrightarrow> accepted_in validate u0 (pw_state w)"
    using pin_inv_success [OF pane_run_inv] by (auto simp: Let_def)
qed

definition demo_validate :: "string \<Rightarrow> nat \<Rightarrow> go_error option \<times> nat" where
  "demo_validate pin n = (if pin = ''1234'' then None else Some (Errorf DefaultPINError), n + 1)"

theorem pin_window_unlocks_iff_accepted_witness:
  "(\<exists>events. PromptGUI demo_validate events 0 = Some (None, 2)) \<and>
    PromptGUI demo_validate (enter_pin ''0000'' @ [PressEscape]) 0 = Some (Some ErrPINPromptCancelled, 1)"
proof
  have "rejected demo_validate [''0000''] 0 = Some 1" "demo_validate ''1234'' 1 = (None, 2)"
    by (simp_all add: demo_validate_def)
  then have "accepted_in demo_validate 0 2" unfolding accepted_in_def by blast
  with pin_window_unlocks_iff_accepted [of demo_validate 0 2]
  show "\<exists>events. PromptGUI demo_validate events 0 = Some (None, 2)" by simp
  show "PromptGUI demo_validate (enter_pin ''0000'' @ [PressEscape]) 0 = Some (Some ErrPINPromptCancelled, 1)"
    by code_simp
qed

end
