(* ===== verification/Overlay.thy ===== *)
theory Overlay
  imports Omnibox_Rest Pin_Window
begin

text \<open>
  The desktop adapter of \<^verbatim>\<open>internal/adapters/gui/app.go\<close> and the command \<^verbatim>\<open>omnibox\<close>
  (\<^verbatim>\<open>internal/adapters/cli/client/omnibox.go\<close>): the window that asks for the PIN when one is
  pending and becomes the overlay of \<open>Omnibox\<close> once it was accepted, the cache of its state, and
  the flow of the command around it. The pending validator runs on a state \<open>'u\<close>, whose vault the
  argument \<open>vault_of\<close> gives. As in \<open>Pin_Window\<close>, what still runs after the window was told to
  quit is left to the events. A fault of the overlay ends the process: it is a \<open>Panic\<close>.
\<close>

subsection \<open>The adapter\<close>

type_synonym omniboxState = "nat \<times> nat \<times> string"

type_synonym 'u pending_pin = "((string \<Rightarrow> 'u \<Rightarrow> go_error option \<times> 'u) \<times> 'u) option"

record 'u gui_adapter =
  ga_isTTY :: bool
  ga_guiAvailable :: bool
  ga_pendingPIN :: "'u pending_pin"
  ga_lastState :: "omniboxState option"
  ga_lastActive :: int

definition stateTTL :: int where "stateTTL = 5 * 60 * second"

text \<open>Initialising GTK once per process: a fault in it counts as no display.\<close>

definition checkGTKAvailable :: "bool go \<Rightarrow> bool option \<Rightarrow> bool" where
  "checkGTKAvailable init_check cached =
     (case cached of
        Some b \<Rightarrow> b
      | None \<Rightarrow> (case init_check of Ok b \<Rightarrow> b | Panic _ \<Rightarrow> False))"

definition NewGUIAdapter :: "bool \<Rightarrow> bool go \<Rightarrow> 'u gui_adapter" where
  "NewGUIAdapter isTerminal init_check =
     \<lparr>ga_isTTY = isTerminal, ga_guiAvailable = checkGTKAvailable init_check None,
      ga_pendingPIN = None, ga_lastState = None, ga_lastActive = 0\<rparr>"

definition IsTTY :: "'u gui_adapter \<Rightarrow> bool" where "IsTTY a = ga_isTTY a"

definition gui_unavailable :: string where
  "gui_unavailable = ''sekeve: GUI unavailable, falling back to terminal input''"

text \<open>\<open>None\<close> while the window is open; otherwise the result and what went to the terminal.\<close>

definition PromptForPIN :: "(string \<Rightarrow> 'u \<Rightarrow> go_error option \<times> 'u) \<Rightarrow> pin_event list \<Rightarrow> tty_read list \<Rightarrow>
    'u gui_adapter \<Rightarrow> 'u \<Rightarrow> (go_error option \<times> 'u \<times> string list) option" where
  "PromptForPIN validate events reads a u =
     (if ga_guiAvailable a then map_option (\<lambda>(r, u). (r, u, [])) (PromptGUI validate events u)
      else if ga_isTTY a then
        (case PromptTTY reads validate u of (r, u, printed) \<Rightarrow> Some (r, u, gui_unavailable # printed))
      else Some (Some ErrNoPINInputMethod, u, []))"

definition SetPendingPIN :: "(string \<Rightarrow> 'u \<Rightarrow> go_error option \<times> 'u) \<Rightarrow> 'u \<Rightarrow> 'u gui_adapter \<Rightarrow> 'u gui_adapter" where
  "SetPendingPIN validate u a = a\<lparr>ga_pendingPIN := Some (validate, u)\<rparr>"

definition saveState :: "omniboxState \<Rightarrow> int \<Rightarrow> 'u gui_adapter \<Rightarrow> 'u gui_adapter" where
  "saveState s now a = a\<lparr>ga_lastState := Some s, ga_lastActive := now\<rparr>"

definition restoreState :: "int \<Rightarrow> 'u gui_adapter \<Rightarrow> omniboxState option \<times> 'u gui_adapter" where
  "restoreState now a =
     (if ga_lastState a = None \<or> now - ga_lastActive a > stateTTL then (None, a\<lparr>ga_lastState := None\<rparr>)
      else (ga_lastState a, a))"

text \<open>The adapter of builds without GTK, \<^verbatim>\<open>app_stub.go\<close>, which knows only the terminal.\<close>

definition stub_PromptForPIN :: "(string \<Rightarrow> 'u \<Rightarrow> go_error option \<times> 'u) \<Rightarrow> tty_read list \<Rightarrow> bool \<Rightarrow> 'u \<Rightarrow>
    go_error option \<times> 'u \<times> string list" where
  "stub_PromptForPIN validate reads isTTY u =
     (if isTTY then PromptTTY reads validate u else (Some ErrNoPINInputMethod, u, []))"

definition stub_ShowOmnibox :: "go_error option" where
  "stub_ShowOmnibox = Some (Errorf ''omnibox requires Linux with GTK4 and Wayland'')"

text \<open>Without a display the adapter prompts as the stub does, after a line that says so.\<close>

lemma PromptForPIN_no_display:
  "PromptForPIN validate events reads (NewGUIAdapter tty (Ok False)) u =
    Some (case stub_PromptForPIN validate reads tty u of (r, u, printed) \<Rightarrow>
      (r, u, if tty then gui_unavailable # printed else printed))"
  by (simp add: PromptForPIN_def NewGUIAdapter_def checkGTKAvailable_def stub_PromptForPIN_def split: prod.split)

subsection \<open>The window\<close>

record ('u, 'v) overlay =
  ov_pin :: "'u pin_window option"
  ov_box :: "'v omnibox option"
  ov_ctx :: "go_error option"
  ov_quit :: bool
  ov_panic :: "string option"

definition new_desk :: "'v \<Rightarrow> 'v desk" where
  "new_desk v = \<lparr>dk_vault = v, dk_jobs = [], dk_idle = [], dk_notices = [], dk_copied = []\<rparr>"

definition open_omnibox :: "desktop \<Rightarrow> 'v omni_config \<Rightarrow> omniboxState option \<Rightarrow> 'v \<Rightarrow> 'v omnibox go" where
  "open_omnibox G cfg cached v =
     (case New G cfg (new_desk v) of
        Panic m \<Rightarrow> Panic m
      | Ok ob \<Rightarrow>
          let ob = (case cached of None \<Rightarrow> ob | Some st \<Rightarrow> RestoreState G st ob)
          in Ok (GrabFocus (Some SearchEntry) ob))"

definition transitionToOmnibox :: "desktop \<Rightarrow> 'v omni_config \<Rightarrow> omniboxState option \<Rightarrow> 'v \<Rightarrow>
    ('u, 'v) overlay \<Rightarrow> ('u, 'v) overlay" where
  "transitionToOmnibox G cfg cached v o1 =
     (case open_omnibox G cfg cached v of
        Panic m \<Rightarrow> o1\<lparr>ov_panic := Some m\<rparr>
      | Ok ob \<Rightarrow> o1\<lparr>ov_box := Some ob\<rparr>)"

text \<open>The window as \<^verbatim>\<open>activateCb\<close> makes it.\<close>

definition activate_overlay :: "desktop \<Rightarrow> 'v omni_config \<Rightarrow> omniboxState option \<Rightarrow> 'u pending_pin \<Rightarrow> 'v \<Rightarrow>
    ('u, 'v) overlay" where
  "activate_overlay G cfg cached pin v =
     (let o1 = \<lparr>ov_pin = None, ov_box = None, ov_ctx = None, ov_quit = False, ov_panic = None\<rparr>
      in case pin of
           Some (validate, u) \<Rightarrow> o1\<lparr>ov_pin := Some (new_pin_window u)\<rparr>
         | None \<Rightarrow> transitionToOmnibox G cfg cached v o1)"

datatype overlay_event =
    OnPIN pin_event
  | OnOmnibox ui_event
  | ContextDone go_error
  | ContextQuit
  | CloseWindow

text \<open>The pane calls \<^verbatim>\<open>onSuccess\<close> when it takes this function from the idle queue.\<close>

definition unlocks :: "pin_event \<Rightarrow> 'u pin_window \<Rightarrow> bool" where
  "unlocks e w \<longleftrightarrow> e = PINIdle \<and> (case pw_idle w of f # _ \<Rightarrow> f = Accepted | [] \<Rightarrow> False)"

text \<open>
  Once the overlay has replaced the pane, its entry is gone, and Escape no longer reaches the
  key controller of the pane, as that of the overlay comes first and always takes it.
\<close>

definition pane_gone :: "pin_event \<Rightarrow> bool" where
  "pane_gone e \<longleftrightarrow> (case e of TypePIN _ \<Rightarrow> True | ActivateEntry \<Rightarrow> True | PressEscape \<Rightarrow> True | _ \<Rightarrow> False)"

definition pin_overlay_step :: "desktop \<Rightarrow> ('u \<Rightarrow> 'v) \<Rightarrow> 'v omni_config \<Rightarrow> omniboxState option \<Rightarrow>
    (string \<Rightarrow> 'u \<Rightarrow> go_error option \<times> 'u) \<Rightarrow> pin_event \<Rightarrow> ('u, 'v) overlay \<Rightarrow> ('u, 'v) overlay" where
  "pin_overlay_step G vault_of cfg cached validate e o1 =
     (case ov_pin o1 of
        None \<Rightarrow> o1
      | Some w \<Rightarrow>
          if ov_box o1 \<noteq> None \<and> pane_gone e then o1
          else
            let w' = PINPane_step validate e w;
                o2 = o1\<lparr>ov_pin := Some w', ov_quit := ov_quit o1 \<or> pw_quit w'\<rparr>
            in if unlocks e w then transitionToOmnibox G cfg cached (vault_of (pw_state w')) o2 else o2)"

fun overlay_step :: "desktop \<Rightarrow> ('u \<Rightarrow> 'v) \<Rightarrow> 'v omni_config \<Rightarrow> omniboxState option \<Rightarrow>
    (string \<Rightarrow> 'u \<Rightarrow> go_error option \<times> 'u) \<Rightarrow> overlay_event \<Rightarrow> ('u, 'v) overlay \<Rightarrow> ('u, 'v) overlay" where
  "overlay_step G vault_of cfg cached validate (OnPIN e) o1 = pin_overlay_step G vault_of cfg cached validate e o1"
| "overlay_step G vault_of cfg cached validate (OnOmnibox e) o1 =
     (case ov_box o1 of
        None \<Rightarrow> o1
      | Some ob \<Rightarrow> let ob' = ui_step G cfg e ob in o1\<lparr>ov_box := Some ob', ov_quit := ov_quit o1 \<or> ob_quit ob'\<rparr>)"
| "overlay_step G vault_of cfg cached validate (ContextDone e) o1 =
     (if ov_ctx o1 = None then o1\<lparr>ov_ctx := Some e\<rparr> else o1)"
| "overlay_step G vault_of cfg cached validate ContextQuit o1 =
     (if ov_ctx o1 \<noteq> None then o1\<lparr>ov_quit := True\<rparr> else o1)"
| "overlay_step G vault_of cfg cached validate CloseWindow o1 = o1\<lparr>ov_quit := True\<rparr>"

fun overlay_run :: "desktop \<Rightarrow> ('u \<Rightarrow> 'v) \<Rightarrow> 'v omni_config \<Rightarrow> omniboxState option \<Rightarrow>
    (string \<Rightarrow> 'u \<Rightarrow> go_error option \<times> 'u) \<Rightarrow> overlay_event list \<Rightarrow> ('u, 'v) overlay \<Rightarrow> ('u, 'v) overlay" where
  "overlay_run G vault_of cfg cached validate [] o1 = o1"
| "overlay_run G vault_of cfg cached validate (e # es) o1 =
     (if ov_panic o1 \<noteq> None then o1
      else overlay_run G vault_of cfg cached validate es (overlay_step G vault_of cfg cached validate e o1))"

text \<open>The vault as the window leaves it.\<close>

definition overlay_vault :: "('u \<Rightarrow> 'v) \<Rightarrow> 'v \<Rightarrow> ('u, 'v) overlay \<Rightarrow> 'v" where
  "overlay_vault vault_of v o1 =
     (case ov_box o1 of
        Some ob \<Rightarrow> dk_vault (ob_desk ob)
      | None \<Rightarrow> (case ov_pin o1 of Some w \<Rightarrow> vault_of (pw_state w) | None \<Rightarrow> v))"

text \<open>
  The whole window: its events, and the clock when it is opened and when its state is saved.
  \<open>None\<close> while it is open.
\<close>

definition showOmniboxGUI :: "desktop \<Rightarrow> ('u \<Rightarrow> 'v) \<Rightarrow> 'v omni_config \<Rightarrow> overlay_event list \<Rightarrow> int \<Rightarrow> int \<Rightarrow>
    'u gui_adapter \<Rightarrow> 'v \<Rightarrow> (go_error option \<times> 'u gui_adapter \<times> 'v) go option" where
  "showOmniboxGUI G vault_of cfg events opened_at closed_at a v =
     (let (cached, a) = restoreState opened_at a;
          pin = ga_pendingPIN a;
          a = a\<lparr>ga_pendingPIN := None\<rparr>;
          validate = (case pin of Some (f, _) \<Rightarrow> f | None \<Rightarrow> (\<lambda>_ u. (None, u)));
          o1 = overlay_run G vault_of cfg cached validate events (activate_overlay G cfg cached pin v)
      in case ov_panic o1 of
           Some m \<Rightarrow> Some (Panic m)
         | None \<Rightarrow>
             if \<not> ov_quit o1 then None
             else
               let a = (case ov_box o1 of None \<Rightarrow> a | Some ob \<Rightarrow> saveState (State ob) closed_at a)
               in Some (Ok (ov_ctx o1, a, overlay_vault vault_of v o1)))"

definition ShowOmnibox :: "desktop \<Rightarrow> ('u \<Rightarrow> 'v) \<Rightarrow> 'v omni_config \<Rightarrow> overlay_event list \<Rightarrow> int \<Rightarrow> int \<Rightarrow>
    'u gui_adapter \<Rightarrow> 'v \<Rightarrow> (go_error option \<times> 'u gui_adapter \<times> 'v) go option" where
  "ShowOmnibox G vault_of cfg events opened_at closed_at a v =
     (if \<not> ga_guiAvailable a then Some (Ok (Some (Errorf ''omnibox requires a graphical display''), a, v))
      else showOmniboxGUI G vault_of cfg events opened_at closed_at a v)"

subsection \<open>The command\<close>

definition vault_config :: "('n, 'g, 'f) client_env \<Rightarrow> string \<Rightarrow> ('n, 'g, 'f) client omni_config" where
  "vault_config E keyID =
     \<lparr>oc_Mode = OmniboxModeSearch, oc_Category = EntryTypeUnspecified,
      oc_ListEntries = Some (Vault_ListEntries E), oc_GetEntry = Some (Vault_GetEntry E),
      oc_DecryptAndUse = Some (\<lambda>ct c. Vault_DecryptAndUse E ct (\<lambda>pt _. Some pt) None c),
      oc_AddEntry = Some (Vault_AddEntry E keyID), oc_UpdateEntry = Some (Vault_UpdateEntry E keyID),
      oc_Notify = True\<rparr>"

text \<open>What the connection of the command leaves pending in the adapter.\<close>

definition connect_pending :: "('n, 'g, 'f) command \<Rightarrow> ('n, 'g, 'f) unlock gui_adapter \<Rightarrow> ('n, 'g, 'f) client \<Rightarrow>
    go_error option \<times> ('n, 'g, 'f) unlock gui_adapter \<times> ('n, 'g, 'f) client" where
  "connect_pending K a c =
     (case ConnectAndAuthDeferPIN (k_env K) (k_dir K) (k_unconfigured K) (k_server K) (k_key K) c of
        (r, Some authResult, c) \<Rightarrow>
          (r, SetPendingPIN (makeDeferredUnlockValidator (k_env K) (k_dir K) (k_key K))
                \<lparr>u_client = c, u_attempts = 0, u_auth = authResult\<rparr> a, c)
      | (r, None, c) \<Rightarrow> (r, a, c))"

text \<open>The command: its result, what it shows, the adapter and the client.\<close>

definition omnibox_cmd :: "cmd_context \<Rightarrow> desktop \<Rightarrow> ('n, 'g, 'f) command \<Rightarrow> overlay_event list \<Rightarrow> int \<Rightarrow> int \<Rightarrow>
    ('n, 'g, 'f) unlock gui_adapter \<Rightarrow> ('n, 'g, 'f) client \<Rightarrow>
    (go_error option \<times> shown list \<times> ('n, 'g, 'f) unlock gui_adapter \<times> ('n, 'g, 'f) client) go option" where
  "omnibox_cmd ctx G K events opened_at closed_at a c =
     (case (ConfigFromCmd ctx, GUIFromCtx ctx, if k_unconfigured K then Ok () else CryptoFromCtx ctx) of
        (Panic m, _, _) \<Rightarrow> Some (Panic m)
      | (_, Panic m, _) \<Rightarrow> Some (Panic m)
      | (_, _, Panic m) \<Rightarrow> Some (Panic m)
      | (Ok _, Ok _, Ok _) \<Rightarrow>
         (case connect_pending K a c of
            (Some e, a, c) \<Rightarrow> Some (Ok (Some e, [ErrorShown e], a, c))
          | (None, a, c) \<Rightarrow>
             (case ShowOmnibox G u_client (vault_config (k_env K) (k_key K)) events opened_at closed_at a c of
                None \<Rightarrow> None
              | Some (Panic m) \<Rightarrow> Some (Panic m)
              | Some (Ok (r, a, c)) \<Rightarrow>
                 (case Client_Close (k_env K) c of
                    (closeErr, c) \<Rightarrow>
                      Some (Ok (r, (case r of None \<Rightarrow> [] | Some e \<Rightarrow> [ErrorShown e]) @
                                   (case closeErr of None \<Rightarrow> [] | Some e \<Rightarrow> [ErrorShown e]), a, c))))))"

subsection \<open>The pane inside the window\<close>

text \<open>The pane unlocks when it takes the answer that accepted, and then no more.\<close>

lemma pane_step_success:
  assumes "pin_inv validate u0 w"
  shows "pw_success (PINPane_step validate e w) \<longleftrightarrow> pw_success w \<or> unlocks e w"
proof (cases e)
  case RunCheck
  with assms show ?thesis
    by (auto simp: PINPane_step_def unlocks_def PINPane_check_def Let_def split: list.split prod.split pin_idle.split)
next
  case PINIdle
  show ?thesis
  proof (cases "pw_idle w")
    case (Cons f fs)
    with PINIdle show ?thesis by (cases f) (simp_all add: PINPane_step_def unlocks_def show_refusal_def)
  qed (use PINIdle in \<open>simp add: PINPane_step_def unlocks_def\<close>)
qed (simp_all add: PINPane_step_def unlocks_def activateEntry_def PINPane_watch_def)

lemma pane_after_success:
  assumes inv: "pin_inv validate u0 w" and "pw_success w"
  shows "pw_state (PINPane_step validate e w) = pw_state w" "\<not> unlocks e w"
proof -
  from assms have w: "pw_checks w = []" "answers w = []" by (auto simp: pin_inv_def)
  then have "f = GiveUp" if "pw_idle w = f # fs" for f fs
    using that by (simp add: answers_def split: if_splits)
  with w show "pw_state (PINPane_step validate e w) = pw_state w" "\<not> unlocks e w"
    by (cases e; auto simp: PINPane_step_def unlocks_def activateEntry_def PINPane_watch_def split: list.splits)+
qed

lemma pane_unlocks_state:
  "unlocks e w \<Longrightarrow> pw_state (PINPane_step validate e w) = pw_state w"
  by (auto simp: unlocks_def PINPane_step_def split: list.splits)

text \<open>
  The window with a pending PIN: the pane is in its invariant, and the overlay is there only
  after a success of the pane, opened on the vault of the state that success left.
\<close>

definition overlay_inv :: "desktop \<Rightarrow> ('u \<Rightarrow> 'v) \<Rightarrow> 'v omni_config \<Rightarrow> omniboxState option \<Rightarrow>
    (string \<Rightarrow> 'u \<Rightarrow> go_error option \<times> 'u) \<Rightarrow> 'u \<Rightarrow> ('u, 'v) overlay \<Rightarrow> bool" where
  "overlay_inv G vault_of cfg cached validate u0 o1 \<longleftrightarrow>
     (\<exists>w. ov_pin o1 = Some w \<and> pin_inv validate u0 w \<and>
        (case ov_box o1 of
           None \<Rightarrow> ov_panic o1 = None \<longrightarrow> \<not> pw_success w
         | Some ob \<Rightarrow> pw_success w \<and>
             (\<exists>es ob0. open_omnibox G cfg cached (vault_of (pw_state w)) = Ok ob0 \<and> ob = ui_run G cfg es ob0)))"

lemma overlay_inv_frames [simp]:
  "overlay_inv G vault_of cfg cached validate u0 (o1\<lparr>ov_quit := q\<rparr>) = overlay_inv G vault_of cfg cached validate u0 o1"
  "overlay_inv G vault_of cfg cached validate u0 (o1\<lparr>ov_ctx := r\<rparr>) = overlay_inv G vault_of cfg cached validate u0 o1"
  by (cases "ov_box o1"; simp add: overlay_inv_def)+

lemma ui_run_append: "ui_run G cfg (es @ fs) ob = ui_run G cfg fs (ui_run G cfg es ob)"
  by (induction es arbitrary: ob) auto

lemma pin_overlay_step_inv:
  assumes inv: "overlay_inv G vault_of cfg cached validate u0 o1" and np: "ov_panic o1 = None"
  shows "overlay_inv G vault_of cfg cached validate u0 (pin_overlay_step G vault_of cfg cached validate e o1)"
proof -
  from inv obtain w where w: "ov_pin o1 = Some w" "pin_inv validate u0 w" by (auto simp: overlay_inv_def)
  note w' = PINPane_inv [OF w(2), of e] pane_step_success [OF w(2), of e]
  show ?thesis
  proof (cases "ov_box o1")
    case None
    with inv w np have "\<not> pw_success w" by (simp add: overlay_inv_def)
    with None w w' np show ?thesis
      by (cases "open_omnibox G cfg cached (vault_of (pw_state (PINPane_step validate e w)))")
        (auto simp: overlay_inv_def pin_overlay_step_def transitionToOmnibox_def Let_def intro: exI [of _ "[]"])
  next
    case (Some ob)
    with inv w have "pw_success w" by (simp add: overlay_inv_def)
    from pane_after_success [OF w(2) this, of e] this Some inv w w' show ?thesis
      by (auto simp: overlay_inv_def pin_overlay_step_def Let_def)
  qed
qed

lemma overlay_step_inv:
  assumes inv: "overlay_inv G vault_of cfg cached validate u0 o1" and np: "ov_panic o1 = None"
  shows "overlay_inv G vault_of cfg cached validate u0 (overlay_step G vault_of cfg cached validate e o1)"
proof (cases e)
  case (OnPIN p)
  with pin_overlay_step_inv [OF assms, of p] show ?thesis by simp
next
  case (OnOmnibox u)
  show ?thesis
  proof (cases "ov_box o1")
    case (Some ob)
    with inv obtain w es ob0 where w: "ov_pin o1 = Some w" "pin_inv validate u0 w" "pw_success w"
      "open_omnibox G cfg cached (vault_of (pw_state w)) = Ok ob0" "ob = ui_run G cfg es ob0"
      by (auto simp: overlay_inv_def)
    then have "ui_step G cfg u ob = ui_run G cfg (es @ [u]) ob0" by (simp add: ui_run_append)
    with w Some OnOmnibox show ?thesis by (auto simp: overlay_inv_def Let_def)
  qed (use inv OnOmnibox in simp)
qed (use inv in simp_all)

lemma overlay_run_inv:
  "overlay_inv G vault_of cfg cached validate u0 o1 \<Longrightarrow>
    overlay_inv G vault_of cfg cached validate u0 (overlay_run G vault_of cfg cached validate es o1)"
  by (induction es arbitrary: o1) (auto intro: overlay_step_inv)

lemma activate_inv:
  "overlay_inv G vault_of cfg cached validate u0 (activate_overlay G cfg cached (Some (f, u0)) v)"
  by (simp add: overlay_inv_def activate_overlay_def pin_inv_start Let_def) (simp add: new_pin_window_def)

text \<open>Only the context gives the window an error.\<close>

lemma overlay_step_ctx:
  "ov_ctx (overlay_step G vault_of cfg cached validate e o1) = Some r \<Longrightarrow> ov_ctx o1 = Some r \<or> e = ContextDone r"
  by (cases e) (auto simp: pin_overlay_step_def transitionToOmnibox_def Let_def split: option.splits if_splits go.splits)

lemma overlay_run_ctx:
  "ov_ctx (overlay_run G vault_of cfg cached validate es o1) = Some r \<Longrightarrow>
    ov_ctx o1 = Some r \<or> ContextDone r \<in> set es"
  by (induction es arbitrary: o1) (auto split: if_splits dest: overlay_step_ctx)

subsection \<open>Entering PINs in the window\<close>

definition overlay_ready :: "'u \<Rightarrow> ('u, 'v) overlay \<Rightarrow> bool" where
  "overlay_ready u o1 \<longleftrightarrow> ov_box o1 = None \<and> ov_panic o1 = None \<and> (\<exists>w. ov_pin o1 = Some w \<and> pin_ready u w)"

lemma overlay_run_panicked: "ov_panic o1 \<noteq> None \<Longrightarrow> overlay_run G vault_of cfg cached validate es o1 = o1"
  by (cases es) simp_all

lemma overlay_run_append:
  "overlay_run G vault_of cfg cached validate (es @ fs) o1 =
    overlay_run G vault_of cfg cached validate fs (overlay_run G vault_of cfg cached validate es o1)"
  by (induction es arbitrary: o1) (simp_all add: overlay_run_panicked)

lemmas enter_steps = pin_overlay_step_def PINPane_step_def activateEntry_def PINPane_check_def answer_of_def
  show_refusal_def unlocks_def enter_pin_def pin_ready_def overlay_ready_def Let_def

lemma overlay_refused:
  assumes "overlay_ready s o1" "pin \<noteq> []" "validate pin s = (Some e, u)" "errors_as_fatal e = None"
  shows "overlay_ready u (overlay_run G vault_of cfg cached validate (map OnPIN (enter_pin pin)) o1)"
  using assms by (auto simp: enter_steps)

lemma overlay_accepted:
  assumes "overlay_ready s o1" "pin \<noteq> []" "validate pin s = (None, u)" "open_omnibox G cfg cached (vault_of u) = Ok ob"
  shows "ov_box (overlay_run G vault_of cfg cached validate (map OnPIN (enter_pin pin)) o1) = Some ob"
  using assms by (auto simp: enter_steps transitionToOmnibox_def)

lemma overlay_all_refused:
  "overlay_ready s o1 \<Longrightarrow> rejected validate pins s = Some u \<Longrightarrow>
    overlay_ready u (overlay_run G vault_of cfg cached validate (map OnPIN (concat (map enter_pin pins))) o1)"
proof (induction pins arbitrary: s o1)
  case (Cons pin pins)
  from Cons.prems(2) obtain e s1 where val: "validate pin s = (Some e, s1)" "pin \<noteq> []" "errors_as_fatal e = None"
    "rejected validate pins s1 = Some u"
    by (auto split: prod.splits option.splits if_splits)
  from Cons.IH [OF overlay_refused [where validate = validate, OF Cons.prems(1) val(2) val(1) val(3)] val(4)]
  show ?case by (simp add: overlay_run_append)
qed simp

lemma activate_ready:
  "overlay_ready u0 (activate_overlay G cfg cached (Some (f, u0)) v)"
  by (simp add: overlay_ready_def activate_overlay_def pin_ready_def new_pin_window_def Let_def)

lemma open_omnibox_ok: "oc_Category cfg = EntryTypeUnspecified \<Longrightarrow> \<exists>ob. open_omnibox G cfg cached v = Ok ob"
  by (simp add: open_omnibox_def New_def Let_def split_def)

text \<open>What the validators of the client accept: the server has redeemed the ticket for that PIN.\<close>

lemma deferred_accepts:
  "makeDeferredUnlockValidator E cfgDir keyID pin s = (None, u) \<Longrightarrow>
    \<exists>tok expiresAt c. Client_Unlock E (ar_UnlockTicket (u_auth s)) pin (u_client s) = (Inr (tok, expiresAt), c) \<and>
      u_client u = cacheSession E cfgDir tok expiresAt c"
  by (auto simp: makeDeferredUnlockValidator_def Let_def split: prod.splits sum.splits if_splits)

lemma overlay_inv_locked:
  assumes "overlay_inv G vault_of cfg cached validate u0 o1" "ov_box o1 = None"
  shows "\<exists>s. overlay_vault vault_of v o1 = vault_of s \<and>
    (refused_in validate u0 s \<or> accepted_in validate u0 s \<or> (\<exists>e. fatal_in validate u0 e s))"
proof -
  from assms(1) obtain w where w: "ov_pin o1 = Some w" "pin_inv validate u0 w" by (auto simp: overlay_inv_def)
  then have "refused_in validate u0 (pw_state w) \<or> accepted_in validate u0 (pw_state w) \<or>
      (\<exists>e. fatal_in validate u0 e (pw_state w))" by (auto simp: pin_inv_def)
  with w assms(2) show ?thesis by (auto simp: overlay_vault_def)
qed

lemma overlay_inv_box:
  assumes "overlay_inv G vault_of cfg cached validate u0 o1" "ov_box o1 = Some ob"
  shows "\<exists>u es ob0. accepted_in validate u0 u \<and> open_omnibox G cfg cached (vault_of u) = Ok ob0 \<and> ob = ui_run G cfg es ob0"
  using assms pin_inv_success by (fastforce simp: overlay_inv_def)

lemma overlay_opens:
  assumes "accepted_in validate u0 u" "oc_Category cfg = EntryTypeUnspecified"
  shows "\<exists>events ob. ov_box (overlay_run G vault_of cfg cached validate events
    (activate_overlay G cfg cached (Some (validate, u0)) v)) = Some ob"
proof -
  from assms(1) obtain pins pin s where pins: "rejected validate pins u0 = Some s" and pin: "pin \<noteq> []" "validate pin s = (None, u)"
    unfolding accepted_in_def by blast
  from open_omnibox_ok [OF assms(2)] obtain ob where ob: "open_omnibox G cfg cached (vault_of u) = Ok ob" by blast
  from overlay_accepted [where validate = validate and vault_of = vault_of,
      OF overlay_all_refused [where vault_of = vault_of, OF activate_ready pins] pin ob]
  have "ov_box (overlay_run G vault_of cfg cached validate (map OnPIN (concat (map enter_pin pins) @ enter_pin pin))
    (activate_overlay G cfg cached (Some (validate, u0)) v)) = Some ob"
    by (simp add: overlay_run_append)
  then show ?thesis by blast
qed

lemma window_error:
  assumes "showOmniboxGUI G vault_of cfg events t1 t2 (SetPendingPIN validate u0 a) v = Some (Ok (Some e, a', v'))"
  shows "ContextDone e \<in> set events"
proof -
  obtain cached a1 where r: "restoreState t1 (SetPendingPIN validate u0 a) = (cached, a1)" by force
  then have "ga_pendingPIN a1 = Some (validate, u0)"
    by (auto simp: restoreState_def SetPendingPIN_def split: if_split_asm)
  with r assms have "ov_ctx (overlay_run G vault_of cfg cached validate events
      (activate_overlay G cfg cached (Some (validate, u0)) v)) = Some e"
    by (auto simp: showOmniboxGUI_def Let_def split: option.split_asm if_split_asm)
  from overlay_run_ctx [OF this] show ?thesis by (simp add: activate_overlay_def Let_def)
qed

subsection \<open>Property\<close>

text \<open>
  C35: With a PIN pending, the overlay of the command opens exactly when the server has
  accepted one: some events open it if and only if the deferred validator accepts after refused
  PINs. When it is open, the server answered \<^verbatim>\<open>Unlock\<close> with a token for a PIN that was not empty,
  the overlay was opened on the client that cached it, and only its own events came since; while
  it is not open, the client is as the attempts to unlock left it. An error of the window is
  the one its context ended with, so no refused or fatal PIN shows in the result.
\<close>

theorem overlay_opens_after_unlock:
  fixes E :: "('n, 'g, 'f) client_env" and cfgDir keyID :: string and cached :: "omniboxState option"
    and G :: desktop and u0 :: "('n, 'g, 'f) unlock" and c :: "('n, 'g, 'f) client"
  defines "validate \<equiv> makeDeferredUnlockValidator E cfgDir keyID"
  defines "cfg \<equiv> vault_config E keyID"
  defines "run \<equiv> \<lambda>events. overlay_run G u_client cfg cached validate events
    (activate_overlay G cfg cached (Some (validate, u0)) c)"
  shows "(\<exists>events ob. ov_box (run events) = Some ob) = (\<exists>u. accepted_in validate u0 u) \<and>
    (\<forall>events. case ov_box (run events) of
        Some ob \<Rightarrow> (\<exists>pin s tok expiresAt c1 es ob0. pin \<noteq> [] \<and> refused_in validate u0 s \<and>
          Client_Unlock E (ar_UnlockTicket (u_auth s)) pin (u_client s) = (Inr (tok, expiresAt), c1) \<and>
          open_omnibox G cfg cached (cacheSession E cfgDir tok expiresAt c1) = Ok ob0 \<and> ob = ui_run G cfg es ob0)
      | None \<Rightarrow> (\<exists>s. overlay_vault u_client c (run events) = u_client s \<and>
          (refused_in validate u0 s \<or> accepted_in validate u0 s \<or> (\<exists>e. fatal_in validate u0 e s)))) \<and>
    (\<forall>events t1 t2 a e a' c'.
        showOmniboxGUI G u_client cfg events t1 t2 (SetPendingPIN validate u0 a) c = Some (Ok (Some e, a', c')) \<longrightarrow>
        ContextDone e \<in> set events)"
proof (intro conjI allI impI)
  have inv: "overlay_inv G u_client cfg cached validate u0 (run events)" for events
    unfolding run_def by (rule overlay_run_inv [OF activate_inv])
  have "oc_Category cfg = EntryTypeUnspecified" by (simp add: cfg_def vault_config_def)
  then show "(\<exists>events ob. ov_box (run events) = Some ob) = (\<exists>u. accepted_in validate u0 u)"
    using overlay_opens [of validate u0 _ cfg] overlay_inv_box [OF inv] unfolding run_def by blast
  fix events
  show "case ov_box (run events) of
        Some ob \<Rightarrow> (\<exists>pin s tok expiresAt c1 es ob0. pin \<noteq> [] \<and> refused_in validate u0 s \<and>
          Client_Unlock E (ar_UnlockTicket (u_auth s)) pin (u_client s) = (Inr (tok, expiresAt), c1) \<and>
          open_omnibox G cfg cached (cacheSession E cfgDir tok expiresAt c1) = Ok ob0 \<and> ob = ui_run G cfg es ob0)
      | None \<Rightarrow> (\<exists>s. overlay_vault u_client c (run events) = u_client s \<and>
          (refused_in validate u0 s \<or> accepted_in validate u0 s \<or> (\<exists>e. fatal_in validate u0 e s)))"
  proof (cases "ov_box (run events)")
    case None
    with overlay_inv_locked [OF inv None] show ?thesis by simp
  next
    case (Some ob)
    from overlay_inv_box [OF inv Some] obtain u es ob0 where u: "accepted_in validate u0 u"
      "open_omnibox G cfg cached (u_client u) = Ok ob0" "ob = ui_run G cfg es ob0" by blast
    from u(1) obtain pin s where s: "refused_in validate u0 s" "pin \<noteq> []" "validate pin s = (None, u)"
      by (auto simp: accepted_in_def refused_in_def)
    from deferred_accepts [OF s(3) [unfolded validate_def]] s u Some show ?thesis by fastforce
  qed
next
  fix events t1 t2 a e a' c'
  assume "showOmniboxGUI G u_client cfg events t1 t2 (SetPendingPIN validate u0 a) c = Some (Ok (Some e, a', c'))"
  then show "ContextDone e \<in> set events" by (rule window_error)
qed

theorem overlay_opens_after_unlock_witness:
  "\<exists>events ob. ov_box (overlay_run demo_desktop u_client (vault_config demo_client_env ''me'') None
     (makeDeferredUnlockValidator demo_client_env ''/c'' ''me'') events
     (activate_overlay demo_desktop (vault_config demo_client_env ''me'') None
       (Some (makeDeferredUnlockValidator demo_client_env ''/c'' ''me'', demo_unlock)) (u_client demo_unlock))) = Some ob"
proof -
  let ?validate = "makeDeferredUnlockValidator demo_client_env ''/c'' ''me''"
  obtain r u where run: "?validate ''1234'' demo_unlock = (r, u)" by force
  have "fst (?validate ''1234'' demo_unlock) = None" by code_simp
  with run have "rejected ?validate [] demo_unlock = Some demo_unlock" "?validate ''1234'' demo_unlock = (None, u)"
    by simp_all
  then have "accepted_in ?validate demo_unlock u" unfolding accepted_in_def by blast
  then show ?thesis
    using overlay_opens_after_unlock [of demo_desktop demo_client_env "''me''" None "''/c''" demo_unlock "u_client demo_unlock"]
    by blast
qed

end
