(* ===== verification/Server_Concurrent.thy ===== *)
theory Server_Concurrent
  imports Server_Safety
begin

text \<open>
  The server with its calls interleaved. gRPC runs every call in a goroutine of its own; what
  the handlers share is the manager, whose methods each hold \<^verbatim>\<open>mu\<close>, and the storage,
  whose operations are transactions. Here a call is cut where the code lets go of either, so
  that other calls and the sweeper can run in between: one section is one locked method or one
  transaction with the code up to the next. Server models a call as one step; here that is one
  schedule among others.
\<close>

subsection \<open>Calls by sections\<close>

text \<open>
  Where a call stands, with the local variables the rest of the handler still reads. The last
  phase holds what the call answered. \<open>Admitted\<close> is where the handler starts.
\<close>

datatype phase =
    Arrived
  | Admitted
  | UnlockRedeem
  | UnlockHash string time
  | UnlockVerify string time string string
  | UnlockRevoke string go_error
  | SetCheck string string
  | SetVerify string string
  | SetStore
  | SetConfigure
  | SetInvalidate
  | Answered "go_error + response"

definition intercept_section :: "string list option \<Rightarrow> request \<Rightarrow> ('b, 'g) server \<Rightarrow> world \<Rightarrow>
    phase \<times> ('b, 'g) server \<times> world" where
  "intercept_section md req s w =
     (if FullMethod req \<in> skipAuthMethods then (Admitted, s, w)
      else case md of
        None \<Rightarrow> (Answered (Inl (StatusError Unauthenticated ''missing metadata'')), s, w)
      | Some [] \<Rightarrow> (Answered (Inl (StatusError Unauthenticated ''missing authorization token'')), s, w)
      | Some (token # _) \<Rightarrow>
         (case validateToken token (auth s) w of
            (False, am, w) \<Rightarrow>
              (Answered (Inl (StatusError Unauthenticated ''invalid or expired token'')), s\<lparr>auth := am\<rparr>, w)
          | (True, am, w) \<Rightarrow> (Admitted, s\<lparr>auth := am\<rparr>, w)))"

fun unlock_section :: "('b, 'g) deps \<Rightarrow> string \<Rightarrow> string \<Rightarrow> phase \<Rightarrow> ('b, 'g) server \<Rightarrow> world \<Rightarrow>
    phase \<times> ('b, 'g) server \<times> world" where
  "unlock_section D ticket pin Admitted s w =
     (case CheckPINRateLimit (auth s) w of
        (Some e, w) \<Rightarrow> (Answered (Inl (StatusError ResourceExhausted (error_string e))), s, w)
      | (None, w) \<Rightarrow> (UnlockRedeem, s, w))"
| "unlock_section D ticket pin UnlockRedeem s w =
     (case RedeemUnlockTicket ticket (auth s) w of
        (Inl e, am, w) \<Rightarrow>
          (Answered (Inl (StatusError Unauthenticated (''invalid unlock ticket: '' @ error_string e))),
           s\<lparr>auth := am\<rparr>, w)
      | (Inr (token, expiresAt), am, w) \<Rightarrow> (UnlockHash token expiresAt, s\<lparr>auth := am\<rparr>, w))"
| "unlock_section D ticket pin (UnlockHash token expiresAt) s w =
     (case GetPINHash (d_bolt D) (storage s) of
        Inl e \<Rightarrow> (UnlockRevoke token (StatusError FailedPrecondition ''no PIN configured''), s, w)
      | Inr (h, salt) \<Rightarrow> (UnlockVerify token expiresAt h salt, s, w))"
| "unlock_section D ticket pin (UnlockVerify token expiresAt h salt) s w =
     (if \<not> Verify (d_kdf D) pin h salt
      then let (am, w) = RecordPINFailure (auth s) w
           in (UnlockRevoke token (StatusError PermissionDenied ''incorrect PIN''), s\<lparr>auth := am\<rparr>, w)
      else (Answered (Inr (UnlockResponse token (word_of_int (unix_of expiresAt)))),
            s\<lparr>auth := ResetPINFailures (auth s)\<rparr>, w))"
| "unlock_section D ticket pin (UnlockRevoke token e) s w =
     (Answered (Inl e), s\<lparr>auth := RevokeSession token (auth s)\<rparr>, w)"
| "unlock_section D ticket pin ph s w = (ph, s, w)"

fun set_pin_section :: "('b, 'g) deps \<Rightarrow> string \<Rightarrow> string \<Rightarrow> phase \<Rightarrow> ('b, 'g) server \<Rightarrow> world \<Rightarrow>
    phase \<times> ('b, 'g) server \<times> world" where
  "set_pin_section D currentPin newPin Admitted s w =
     (case validatePIN newPin of
        Some e \<Rightarrow> (Answered (Inl (StatusError InvalidArgument (error_string e))), s, w)
      | None \<Rightarrow>
         (case GetPINHash (d_bolt D) (storage s) of
            Inl e \<Rightarrow> (SetStore, s, w)
          | Inr (existingHash, existingSalt) \<Rightarrow> (SetCheck existingHash existingSalt, s, w)))"
| "set_pin_section D currentPin newPin (SetCheck existingHash existingSalt) s w =
     (case CheckPINRateLimit (auth s) w of
        (Some e, w) \<Rightarrow> (Answered (Inl (StatusError ResourceExhausted (error_string e))), s, w)
      | (None, w) \<Rightarrow> (SetVerify existingHash existingSalt, s, w))"
| "set_pin_section D currentPin newPin (SetVerify existingHash existingSalt) s w =
     (if \<not> Verify (d_kdf D) currentPin existingHash existingSalt
      then let (am, w) = RecordPINFailure (auth s) w
           in (Answered (Inl (StatusError PermissionDenied ''incorrect current PIN'')), s\<lparr>auth := am\<rparr>, w)
      else (SetStore, s\<lparr>auth := ResetPINFailures (auth s)\<rparr>, w))"
| "set_pin_section D currentPin newPin SetStore s w =
     (case Hash (d_kdf D) newPin w of
        (Inl e, w) \<Rightarrow>
          (Answered (Inl (StatusError Internal (''failed to hash PIN: '' @ error_string e))), s, w)
      | (Inr (h, salt), w) \<Rightarrow>
         (case StorePINHash (d_bolt D) h salt (storage s) w of
            (Some e, st, w) \<Rightarrow>
              (Answered (Inl (StatusError Internal (''failed to store PIN: '' @ error_string e))),
               s\<lparr>storage := st\<rparr>, w)
          | (None, st, w) \<Rightarrow> (SetConfigure, s\<lparr>storage := st\<rparr>, w)))"
| "set_pin_section D currentPin newPin SetConfigure s w =
     (SetInvalidate, s\<lparr>auth := SetPINConfigured True (auth s)\<rparr>, w)"
| "set_pin_section D currentPin newPin SetInvalidate s w =
     (Answered (Inr SetPINResponse), s\<lparr>auth := InvalidateAllSessions (auth s)\<rparr>, w)"
| "set_pin_section D currentPin newPin ph s w = (ph, s, w)"

text \<open>
  The other handlers reach the manager or the storage once, so they are one section. (So is
  Authenticate: its two reads of the manager before the challenge is stored are of fields
  nothing changes once the server serves.)
\<close>

definition call_section :: "('b, 'g) deps \<Rightarrow> string list option \<Rightarrow> request \<Rightarrow> phase \<Rightarrow> ('b, 'g) server \<Rightarrow>
    world \<Rightarrow> phase \<times> ('b, 'g) server \<times> world" where
  "call_section D md req ph s w =
     (if ph = Arrived then intercept_section md req s w
      else case req of
        ReqUnlock ticket pin \<Rightarrow> unlock_section D ticket pin ph s w
      | ReqSetPIN currentPin newPin \<Rightarrow> set_pin_section D currentPin newPin ph s w
      | _ \<Rightarrow> if ph = Admitted then (case handle D req s w of (r, s, w) \<Rightarrow> (Answered r, s, w)) else (ph, s, w))"

text \<open>The sections of one call with nothing in between.\<close>

fun call_alone :: "nat \<Rightarrow> ('b, 'g) deps \<Rightarrow> string list option \<Rightarrow> request \<Rightarrow> phase \<Rightarrow> ('b, 'g) server \<Rightarrow> world \<Rightarrow>
    phase \<times> ('b, 'g) server \<times> world" where
  "call_alone 0 D md req ph s w = (ph, s, w)"
| "call_alone (Suc n) D md req ph s w =
     (case call_section D md req ph s w of (ph, s, w) \<Rightarrow> call_alone n D md req ph s w)"

lemma call_section_Answered [simp]: "call_section D md req (Answered r) s w = (Answered r, s, w)"
  by (simp add: call_section_def split: request.split)

lemma call_alone_Answered [simp]: "call_alone n D md req (Answered r) s w = (Answered r, s, w)"
  by (induction n) simp_all

lemma call_alone_more:
  "call_alone n D md req ph s w = (Answered r, s', w') \<Longrightarrow>
   call_alone (n + k) D md req ph s w = (Answered r, s', w')"
  by (induction n arbitrary: ph s w) (auto split: prod.splits)

lemma call_alone_numeral [simp]:
  "call_alone (numeral k) D md req ph s w =
     (case call_section D md req ph s w of (ph, s, w) \<Rightarrow> call_alone (pred_numeral k) D md req ph s w)"
  by (simp add: numeral_eq_Suc)

lemma call_section_unlock [simp]:
  "ph \<noteq> Arrived \<Longrightarrow> call_section D md (ReqUnlock ticket pin) ph s w = unlock_section D ticket pin ph s w"
  by (simp add: call_section_def)

lemma call_section_set_pin [simp]:
  "ph \<noteq> Arrived \<Longrightarrow> call_section D md (ReqSetPIN c n) ph s w = set_pin_section D c n ph s w"
  by (simp add: call_section_def)

subsection \<open>A call alone is the call of the sequential model\<close>

lemma unlock_alone:
  assumes "Unlock D ticket pin s w = (r, s', w')"
  shows "call_alone 5 D md (ReqUnlock ticket pin) Admitted s w
    = (Answered (map_sum id (\<lambda>(t, e). UnlockResponse t e) r), s', w')"
proof -
  obtain lim w1 where lim: "CheckPINRateLimit (auth s) w = (lim, w1)" by force
  obtain q am w2 where q: "RedeemUnlockTicket ticket (auth s) w1 = (q, am, w2)" by (rule prod_cases3)
  obtain am3 w3 where f: "RecordPINFailure am w2 = (am3, w3)" by force
  note run = assms [unfolded Unlock_def lim q prod.case]
  consider e where "lim = Some e" | e where "lim = None" "q = Inl e"
    | t x e where "lim = None" "q = Inr (t, x)" "GetPINHash (d_bolt D) (storage s) = Inl e"
    | t x h salt where "lim = None" "q = Inr (t, x)" "GetPINHash (d_bolt D) (storage s) = Inr (h, salt)"
    by (cases lim; cases q; cases "GetPINHash (d_bolt D) (storage s)") auto
  then show ?thesis
    by cases (use run lim q f in \<open>auto split: if_splits\<close>)
qed

lemma set_new_pin_alone:
  assumes "set_new_pin D newPin s w = (r, s', w')"
  shows "call_alone 3 D md (ReqSetPIN currentPin newPin) SetStore s w
    = (Answered (map_sum id (\<lambda>_. SetPINResponse) r), s', w')"
proof -
  obtain q w1 where q: "Hash (d_kdf D) newPin w = (q, w1)" by force
  show ?thesis
  proof (cases q)
    case (Inr hs)
    obtain h salt where hs: "hs = (h, salt)" by force
    obtain x st w2 where x: "StorePINHash (d_bolt D) h salt (storage s) w1 = (x, st, w2)" by (rule prod_cases3)
    from assms q Inr hs x show ?thesis by (cases x) (auto simp: set_new_pin_def)
  qed (use assms q in \<open>auto simp: set_new_pin_def\<close>)
qed

lemma set_pin_alone:
  assumes "SetPIN D c n s w = (r, s', w')"
  shows "call_alone 6 D md (ReqSetPIN c n) Admitted s w
    = (Answered (map_sum id (\<lambda>_. SetPINResponse) r), s', w')"
proof -
  obtain lim w1 where lim: "CheckPINRateLimit (auth s) w = (lim, w1)" by force
  obtain am2 w2 where f: "RecordPINFailure (auth s) w1 = (am2, w2)" by force
  note run = assms [unfolded SetPIN_def lim f Let_def prod.case]
  consider e where "validatePIN n = Some e"
    | e where "validatePIN n = None" "GetPINHash (d_bolt D) (storage s) = Inl e"
    | h salt e where "validatePIN n = None" "GetPINHash (d_bolt D) (storage s) = Inr (h, salt)" "lim = Some e"
    | h salt where "validatePIN n = None" "GetPINHash (d_bolt D) (storage s) = Inr (h, salt)" "lim = None"
        "\<not> Verify (d_kdf D) c h salt"
    | h salt where "validatePIN n = None" "GetPINHash (d_bolt D) (storage s) = Inr (h, salt)" "lim = None"
        "Verify (d_kdf D) c h salt"
    by (cases "validatePIN n"; cases "GetPINHash (d_bolt D) (storage s)"; cases lim) auto
  then show ?thesis
  proof cases
    case 2
    with run have "set_new_pin D n s w = (r, s', w')" by simp
    from call_alone_more [OF set_new_pin_alone [OF this, of md c], of 2]
    have "call_alone 5 D md (ReqSetPIN c n) SetStore s w = (Answered (map_sum id (\<lambda>_. SetPINResponse) r), s', w')"
      by (simp del: call_alone_numeral)
    with 2 show ?thesis by (subst call_alone_numeral) (simp del: call_alone_numeral)
  next
    case 5
    with run have "set_new_pin D n (s\<lparr>auth := ResetPINFailures (auth s)\<rparr>) w1 = (r, s', w')" by simp
    from set_new_pin_alone [OF this, of md c] 5 lim show ?thesis by simp
  qed (use run lim f in auto)
qed

text \<open>Seven sections are enough for any call.\<close>

lemma handle_alone:
  assumes "handle D req s w = (r, s', w')"
  shows "call_alone 6 D md req Admitted s w = (Answered r, s', w')"
proof -
  consider t p where "req = ReqUnlock t p" | c n where "req = ReqSetPIN c n"
    | "\<forall>t p c n. req \<noteq> ReqUnlock t p \<and> req \<noteq> ReqSetPIN c n" by blast
  then show ?thesis
  proof cases
    case (1 t p)
    obtain q where q: "Unlock D t p s w = (q, s', w')" "r = map_sum id (\<lambda>(t, e). UnlockResponse t e) q"
      using assms by (auto simp: 1 split: prod.splits)
    show ?thesis using call_alone_more [OF unlock_alone [OF q(1)], of 1 md] q(2) by (simp add: 1 del: call_alone_numeral)
  next
    case (2 c n)
    obtain q where q: "SetPIN D c n s w = (q, s', w')" "r = map_sum id (\<lambda>_. SetPINResponse) q"
      using assms by (auto simp: 2 split: prod.splits)
    show ?thesis using set_pin_alone [OF q(1), of md] q(2) by (simp add: 2 del: call_alone_numeral)
  next
    case 3
    then have "call_section D md req Admitted s w = (Answered r, s', w')"
      using assms by (cases req) (auto simp: call_section_def split: prod.splits)
    then show ?thesis by simp
  qed
qed

lemma sections_alone:
  assumes "UnaryInterceptor D md req s w = (r, s', w')"
  shows "call_alone 7 D md req Arrived s w = (Answered r, s', w')"
proof -
  have alone: "call_alone 7 D md req Arrived s w =
      (case intercept_section md req s w of (ph, s, w) \<Rightarrow> call_alone 6 D md req ph s w)"
    by (subst call_alone_numeral) (simp add: call_section_def del: call_alone_numeral)
  have "intercept_section md req s w = (Answered r, s', w') \<or>
      (\<exists>s1 w1. intercept_section md req s w = (Admitted, s1, w1) \<and> handle D req s1 w1 = (r, s', w'))"
    using assms by (auto simp: UnaryInterceptor_def intercept_section_def
        split: if_splits option.splits list.splits prod.splits bool.splits)
  then show ?thesis by (auto simp: alone handle_alone simp del: call_alone_numeral)
qed

subsection \<open>Interleavings\<close>

text \<open>
  Calls arrive, any call that has not answered takes its next section, the sweeper runs, time
  passes (and what the world gives next is open). A call that has answered stays in the list with its answer, so that the
  list is also what the server has promised so far.
\<close>

type_synonym rpc_call = "string list option \<times> request \<times> phase"

inductive conc_step :: "('b, 'g) deps \<Rightarrow> rpc_call list \<times> ('b, 'g) server \<times> world \<Rightarrow>
    rpc_call list \<times> ('b, 'g) server \<times> world \<Rightarrow> bool" for D where
  arrives: "conc_step D (cs, s, w) (cs @ [(md, req, Arrived)], s, w)"
| runs: "i < length cs \<Longrightarrow> cs ! i = (md, req, ph) \<Longrightarrow> fresh_uuid (d_bolt D) (storage s) w \<Longrightarrow>
    call_section D md req ph s w = (ph', s', w') \<Longrightarrow>
    conc_step D (cs, s, w) (cs[i := (md, req, ph')], s', w')"
| sweeps: "SweepExpired (auth s) w = (am, w') \<Longrightarrow> conc_step D (cs, s, w) (cs, s\<lparr>auth := am\<rparr>, w')"
| waits: "w_clock w \<le> w_clock w1 \<Longrightarrow> conc_step D (cs, s, w) (cs, s, w1)"

inductive_cases conc_stepE: "conc_step D (cs, s, w) (cs', s', w')"

definition conc_start :: "('b, 'g) deps \<Rightarrow> rpc_call list \<times> ('b, 'g) server \<times> world \<Rightarrow> bool" where
  "conc_start D = (\<lambda>(cs, s, w). cs = [] \<and> server_start D (s, w))"

subsection \<open>Who vouches for a session\<close>

text \<open>
  A call vouches for a token when it is an unlock that has yet to judge its PIN and holds the
  token, or one that answered with the token after its PIN matched. What it matched is compared
  with \<open>x\<close>, the hash that is stored.
\<close>

definition vouches :: "('b, 'g) deps \<Rightarrow> go_error + string \<times> string \<Rightarrow> string \<Rightarrow> rpc_call \<Rightarrow> bool" where
  "vouches D x token = (\<lambda>(md, req, ph). \<exists>ticket pin. req = ReqUnlock ticket pin \<and>
     ((\<exists>e. ph = UnlockHash token e) \<or>
      (\<exists>e h salt. ph = UnlockVerify token e h salt \<and> x = Inr (h, salt)) \<or>
      (\<exists>e. ph = UnlockRevoke token e) \<or>
      (\<exists>e h salt. ph = Answered (Inr (UnlockResponse token e)) \<and> x = Inr (h, salt) \<and>
         Verify (d_kdf D) pin h salt)))"

definition invalidating :: "rpc_call \<Rightarrow> bool" where
  "invalidating = (\<lambda>(md, req, ph). ph = SetConfigure \<or> ph = SetInvalidate)"

text \<open>A section that keeps the hash and drops or passes on what its call vouched for.\<close>

definition keeps :: "('b, 'g) deps \<Rightarrow> string list option \<Rightarrow> request \<Rightarrow> phase \<Rightarrow> phase \<Rightarrow>
    ('b, 'g) server \<Rightarrow> ('b, 'g) server \<Rightarrow> bool" where
  "keeps D md req ph ph' s s' \<longleftrightarrow>
     GetPINHash (d_bolt D) (storage s') = GetPINHash (d_bolt D) (storage s) \<and>
     pinConfigured (auth s') = pinConfigured (auth s) \<and>
     (invalidating (md, req, ph) \<longrightarrow> ph' = ph) \<and>
     (\<forall>token. map_of (sessions (auth s')) token \<noteq> None \<longrightarrow>
        (let x = GetPINHash (d_bolt D) (storage s) in
         vouches D x token (md, req, ph') \<or>
         map_of (sessions (auth s)) token \<noteq> None \<and> \<not> vouches D x token (md, req, ph)))"

lemma keepsI:
  assumes "storage s' = storage s" "pinConfigured (auth s') = pinConfigured (auth s)"
    and "\<not> invalidating (md, req, ph)"
    and "\<And>token. map_of (sessions (auth s')) token \<noteq> None \<Longrightarrow>
       vouches D (GetPINHash (d_bolt D) (storage s)) token (md, req, ph') \<or>
       map_of (sessions (auth s)) token \<noteq> None \<and>
       \<not> vouches D (GetPINHash (d_bolt D) (storage s)) token (md, req, ph)"
  shows "keeps D md req ph ph' s s'"
  using assms by (auto simp: keeps_def)

lemma keeps_sess_le:
  assumes "storage s' = storage s" "pinConfigured (auth s') = pinConfigured (auth s)"
    and "\<not> invalidating (md, req, ph)" "sess_le (auth s') (auth s)"
    and "\<And>token. \<not> vouches D (GetPINHash (d_bolt D) (storage s)) token (md, req, ph)"
  shows "keeps D md req ph ph' s s'"
  using assms by (intro keepsI) (auto simp: sess_le_def)

lemma unlock_section_keeps:
  assumes run: "unlock_section D t p ph s w = (ph', s', w')" and inv: "auth_inv (auth s) w"
    and ph: "ph \<noteq> Arrived"
  shows "auth_inv (auth s') w' \<and> storage s' = storage s \<and> (ph' = ph \<and> s' = s \<or> keeps D md (ReqUnlock t p) ph ph' s s')"
proof (cases ph)
  case Admitted
  obtain lim w1 where lim: "CheckPINRateLimit (auth s) w = (lim, w1)" by force
  with run have "s' = s" "w' = w1" by (auto simp: Admitted split: option.splits)
  moreover have "keeps D md (ReqUnlock t p) ph ph' s s"
    by (rule keeps_sess_le) (auto simp: Admitted invalidating_def vouches_def)
  ultimately show ?thesis using auth_inv_CheckPINRateLimit [OF lim inv] by simp
next
  case UnlockRedeem
  obtain q am w1 where q: "RedeemUnlockTicket t (auth s) w = (q, am, w1)" by (rule prod_cases3)
  have ok: "gmap_ok (sessions (auth s))" using inv by (simp add: auth_inv_def)
  from run q have eqs: "s' = s\<lparr>auth := am\<rparr>" "w' = w1"
    by (auto simp: UnlockRedeem split: sum.splits prod.splits)
  have "keeps D md (ReqUnlock t p) ph ph' s s'"
  proof (rule keepsI)
    fix token
    assume "map_of (sessions (auth s')) token \<noteq> None"
    then show "vouches D (GetPINHash (d_bolt D) (storage s)) token (md, ReqUnlock t p, ph') \<or>
       map_of (sessions (auth s)) token \<noteq> None \<and>
       \<not> vouches D (GetPINHash (d_bolt D) (storage s)) token (md, ReqUnlock t p, ph)"
      using run q RedeemUnlockTicket_sess_le [OF q ok]
      by (cases q) (auto simp: UnlockRedeem eqs vouches_def sess_le_def)
  qed (simp_all add: eqs UnlockRedeem invalidating_def RedeemUnlockTicket_frame(1) [OF q])
  then show ?thesis using auth_inv_RedeemUnlockTicket [OF q inv] by (simp add: eqs)
next
  case (UnlockHash token e)
  with run have "s' = s" "w' = w" by (auto split: sum.splits)
  moreover have "keeps D md (ReqUnlock t p) ph ph' s s'"
    using run by (intro keepsI) (auto simp: UnlockHash invalidating_def vouches_def split: sum.splits)
  ultimately show ?thesis using inv by simp
next
  case (UnlockVerify token e h salt)
  obtain am w1 where f: "RecordPINFailure (auth s) w = (am, w1)" by force
  from run f have "s' = s\<lparr>auth := am\<rparr> \<and> w' = w1 \<or> s' = s\<lparr>auth := ResetPINFailures (auth s)\<rparr> \<and> w' = w"
    by (auto simp: UnlockVerify split: if_splits)
  then have "auth_inv (auth s') w' \<and> storage s' = storage s \<and> sessions (auth s') = sessions (auth s) \<and>
      pinConfigured (auth s') = pinConfigured (auth s)"
    using inv auth_inv_RecordPINFailure [OF f inv] RecordPINFailure_sessions [OF f] by auto
  moreover from this have "keeps D md (ReqUnlock t p) ph ph' s s'"
    using run f by (intro keepsI) (auto simp: UnlockVerify invalidating_def vouches_def split: if_splits)
  ultimately show ?thesis by simp
next
  case (UnlockRevoke token e)
  with run have eqs: "s' = s\<lparr>auth := RevokeSession token (auth s)\<rparr>" "w' = w" by auto
  moreover have "keeps D md (ReqUnlock t p) ph ph' s s'"
    by (intro keepsI) (auto simp: eqs UnlockRevoke invalidating_def vouches_def RevokeSession_def split: if_splits)
  ultimately show ?thesis using inv by auto
qed (use run inv ph in auto)

lemma vouches_unlock [simp]: "\<forall>t p. req \<noteq> ReqUnlock t p \<Longrightarrow> \<not> vouches D x token (md, req, ph)"
  by (simp add: vouches_def)

lemma set_pin_section_cases [consumes 3, case_names idle kept stored configured cleared]:
  assumes "set_pin_section D c n ph s w = (ph', s', w')" "auth_inv (auth s) w" "ph \<noteq> Arrived"
  obtains (idle) "ph' = ph" "s' = s" "w' = w"
    | (kept) "auth_inv (auth s') w'" "storage s' = storage s" "keeps D md (ReqSetPIN c n) ph ph' s s'"
    | (stored) h salt w1 where "ph' = SetConfigure" "auth s' = auth s" "auth_inv (auth s) w'"
        "StorePINHash (d_bolt D) h salt (storage s) w1 = (None, storage s', w')"
    | (configured) "ph = SetConfigure" "ph' = SetInvalidate" "w' = w"
        "s' = s\<lparr>auth := SetPINConfigured True (auth s)\<rparr>"
    | (cleared) "ph = SetInvalidate" "w' = w" "s' = s\<lparr>auth := InvalidateAllSessions (auth s)\<rparr>"
proof -
  note kept_intro = kept [OF _ _ keeps_sess_le]
  note run = assms(1)
  show thesis
  proof (cases ph)
    case Admitted
    with run have "s' = s" "w' = w" by (auto split: option.splits sum.splits)
    with assms(2) show thesis
      by (intro kept_intro) (auto simp: Admitted invalidating_def)
  next
    case (SetCheck h salt)
    obtain lim w1 where lim: "CheckPINRateLimit (auth s) w = (lim, w1)" by force
    with run have "s' = s" "w' = w1" by (auto simp: SetCheck split: option.splits)
    with auth_inv_CheckPINRateLimit [OF lim assms(2)] show thesis
      by (intro kept_intro) (auto simp: SetCheck invalidating_def)
  next
    case (SetVerify h salt)
    obtain am w1 where f: "RecordPINFailure (auth s) w = (am, w1)" by force
    from run f have "s' = s\<lparr>auth := am\<rparr> \<and> w' = w1 \<or> s' = s\<lparr>auth := ResetPINFailures (auth s)\<rparr> \<and> w' = w"
      by (auto simp: SetVerify split: if_splits)
    then show thesis
      using assms(2) auth_inv_RecordPINFailure [OF f assms(2)] RecordPINFailure_sessions [OF f]
      by (intro kept_intro) (auto simp: SetVerify invalidating_def sess_le_def)
  next
    case SetStore
    obtain q w1 where q: "Hash (d_kdf D) n w = (q, w1)" by force
    have inv: "auth_inv (auth s) w1" using assms(2) Hash_world [OF q] by (auto intro: auth_inv_clock)
    show thesis
    proof (cases q)
      case (Inl e)
      with run q have "s' = s" "w' = w1" by (auto simp: SetStore)
      with inv show thesis by (intro kept_intro) (auto simp: SetStore invalidating_def)
    next
      case (Inr hs)
      obtain h salt where hs: "hs = (h, salt)" by force
      obtain x st w2 where x: "StorePINHash (d_bolt D) h salt (storage s) w1 = (x, st, w2)"
        by (rule prod_cases3)
      have w2: "w2 = w1" using StorePINHash_world [OF x] .
      show thesis
      proof (cases x)
        case None
        with run q Inr hs x inv w2 show thesis by (intro stored [of h salt w1]) (auto simp: SetStore)
      next
        case (Some e)
        from x Some have "st = storage s"
          by (auto simp: StorePINHash_def dest: db_update_rollback split: prod.splits)
        with run q Inr hs x Some inv w2 show thesis
          by (intro kept_intro) (auto simp: SetStore invalidating_def)
      qed
    qed
  next
    case SetConfigure
    with run show thesis by (intro configured) auto
  next
    case SetInvalidate
    with run show thesis by (intro cleared) auto
  qed (use run assms(3) in \<open>auto intro: idle\<close>)
qed

lemma intercept_section_keeps:
  assumes run: "intercept_section md req s w = (ph', s', w')" and inv: "auth_inv (auth s) w"
  shows "auth_inv (auth s') w' \<and> storage s' = storage s \<and> keeps D md req Arrived ph' s s'"
proof -
  have s: ?thesis if "s' = s" "w' = w"
    using that inv by (auto intro!: keeps_sess_le simp: invalidating_def vouches_def)
  show ?thesis
  proof (cases "FullMethod req \<in> skipAuthMethods \<or> md = None \<or> md = Some []")
    case True
    with run show ?thesis by (intro s) (auto simp: intercept_section_def split: if_splits)
  next
    case False
    then obtain token rest where md: "md = Some (token # rest)" by (cases md; cases "the md") auto
    obtain b am w1 where v: "validateToken token (auth s) w = (b, am, w1)" by (rule prod_cases3)
    with run False md have "s' = s\<lparr>auth := am\<rparr>" "w' = w1"
      by (auto simp: intercept_section_def split: bool.splits)
    with auth_inv_validateToken [OF v inv] validateToken_frame(1) [OF v] validateToken_sess_le [OF v]
    show ?thesis by (auto intro!: keeps_sess_le simp: invalidating_def vouches_def)
  qed
qed

lemma handle_keeps:
  assumes run: "handle D req s w = (r, s', w')" and req: "\<forall>t p c n. req \<noteq> ReqUnlock t p \<and> req \<noteq> ReqSetPIN c n"
    and inv: "auth_inv (auth s) w" and pin: "pinConfigured (auth s)"
    and same: "GetPINHash (d_bolt D) (storage s') = GetPINHash (d_bolt D) (storage s)"
      "pinConfigured (auth s') = pinConfigured (auth s)"
  shows "keeps D md req Admitted (Answered r) s s'"
proof -
  have "sess_le (auth s') (auth s)"
    using handle_sess_le [OF run _ pin] inv req by (auto simp: auth_inv_def)
  with same req show ?thesis
    by (auto simp: keeps_def invalidating_def sess_le_def Let_def)
qed

subsection \<open>The invariant\<close>

text \<open>
  Once a PIN is stored, the flag says so or the call that stored it is about to set it; and
  either a call is about to drop every session, or every session is vouched for.
\<close>

definition conc_inv :: "('b, 'g) deps \<Rightarrow> rpc_call list \<times> ('b, 'g) server \<times> world \<Rightarrow> bool" where
  "conc_inv D = (\<lambda>(cs, s, w). auth_inv (auth s) w \<and> store_inv (d_bolt D) (storage s) \<and>
     (HasPIN D s \<longrightarrow> pinConfigured (auth s) \<or> (\<exists>md req. (md, req, SetConfigure) \<in> set cs)) \<and>
     (HasPIN D s \<longrightarrow> (\<exists>c \<in> set cs. invalidating c) \<or>
       (\<forall>token. map_of (sessions (auth s)) token \<noteq> None \<longrightarrow>
          (\<exists>c \<in> set cs. vouches D (GetPINHash (d_bolt D) (storage s)) token c))))"

lemma set_update_other: "i < length xs \<Longrightarrow> x \<in> set xs \<Longrightarrow> x \<noteq> xs ! i \<Longrightarrow> x \<in> set (xs[i := y])"
  by (metis in_set_conv_nth length_list_update nth_list_update_neq)

lemma HasPIN_same: "GetPINHash (d_bolt D) (storage s') = GetPINHash (d_bolt D) (storage s) \<Longrightarrow> HasPIN D s' = HasPIN D s"
  by (simp add: HasPIN_def)

lemma conc_inv_keeps:
  assumes inv: "conc_inv D (cs, s, w)" and i: "i < length cs" "cs ! i = (md, req, ph)"
    and k: "keeps D md req ph ph' s s'"
    and new: "auth_inv (auth s') w'" "store_inv (d_bolt D) (storage s')"
  shows "conc_inv D (cs[i := (md, req, ph')], s', w')"
proof -
  let ?c = "(md, req, ph)" and ?cs = "cs[i := (md, req, ph')]"
  let ?x = "GetPINHash (d_bolt D) (storage s)"
  have same: "GetPINHash (d_bolt D) (storage s') = ?x" "pinConfigured (auth s') = pinConfigured (auth s)"
    "HasPIN D s' = HasPIN D s"
    using k by (simp_all add: keeps_def HasPIN_def)
  have c': "(md, req, ph') \<in> set ?cs" using i(1) by (rule set_update_memI)
  have stay: "c \<in> set ?cs" if "c \<in> set cs" "invalidating c" for c
    using that set_update_other [OF i(1) that(1), of "(md, req, ph')"] i(2) c' k
    by (cases "c = ?c") (auto simp: keeps_def)
  have vouched: "\<exists>c \<in> set ?cs. vouches D ?x token c"
    if "map_of (sessions (auth s')) token \<noteq> None"
      "\<forall>token. map_of (sessions (auth s)) token \<noteq> None \<longrightarrow> (\<exists>c \<in> set cs. vouches D ?x token c)" for token
  proof -
    from k that(1) consider "vouches D ?x token (md, req, ph')"
      | "map_of (sessions (auth s)) token \<noteq> None" "\<not> vouches D ?x token ?c"
      by (auto simp: keeps_def Let_def)
    then show ?thesis
    proof cases
      case 2
      with that(2) obtain c where "c \<in> set cs" "vouches D ?x token c" "c \<noteq> ?c" by blast
      with set_update_other [OF i(1)] i(2) show ?thesis by metis
    qed (use c' in blast)
  qed
  have "invalidating (md', req', SetConfigure)" for md' req' by (simp add: invalidating_def)
  with inv stay have "HasPIN D s \<longrightarrow> pinConfigured (auth s) \<or> (\<exists>md req. (md, req, SetConfigure) \<in> set ?cs)"
    unfolding conc_inv_def by blast
  moreover have "HasPIN D s \<longrightarrow> (\<exists>c \<in> set ?cs. invalidating c) \<or>
      (\<forall>token. map_of (sessions (auth s')) token \<noteq> None \<longrightarrow> (\<exists>c \<in> set ?cs. vouches D ?x token c))"
    using inv stay vouched unfolding conc_inv_def by blast
  ultimately show ?thesis using new same by (simp add: conc_inv_def)
qed

text \<open>A call in the phase that drops every session makes the last clause hold by itself.\<close>

lemma conc_inv_invalidating:
  assumes "i < length cs" "invalidating (md, req, ph')" "auth_inv (auth s') w'" "store_inv (d_bolt D) (storage s')"
    and "pinConfigured (auth s') \<or> ph' = SetConfigure"
  shows "conc_inv D (cs[i := (md, req, ph')], s', w')"
proof -
  have "(md, req, ph') \<in> set (cs[i := (md, req, ph')])" using assms(1) by (rule set_update_memI)
  with assms(2-5) show ?thesis unfolding conc_inv_def by blast
qed

context server_env begin

lemma conc_inv_section:
  assumes inv: "conc_inv D (cs, s, w)" and i: "i < length cs" "cs ! i = (md, req, ph)"
    and fresh: "fresh_uuid (d_bolt D) (storage s) w"
    and run: "call_section D md req ph s w = (ph', s', w')"
  shows "conc_inv D (cs[i := (md, req, ph')], s', w')"
proof -
  have auth: "auth_inv (auth s) w" and st: "store_inv (d_bolt D) (storage s)"
    using inv by (auto simp: conc_inv_def)
  note go = conc_inv_keeps [OF inv i]
  have same: "conc_inv D (cs[i := (md, req, ph)], s, w)" using inv i by (metis list_update_id)
  consider (arrived) "ph = Arrived" | (unlock) t p where "ph \<noteq> Arrived" "req = ReqUnlock t p"
    | (set) c n where "ph \<noteq> Arrived" "req = ReqSetPIN c n"
    | (other) "ph \<noteq> Arrived" "\<forall>t p c n. req \<noteq> ReqUnlock t p \<and> req \<noteq> ReqSetPIN c n" by blast
  then show ?thesis
  proof cases
    case arrived
    with run have "intercept_section md req s w = (ph', s', w')" by (simp add: call_section_def)
    from intercept_section_keeps [OF this auth] st arrived show ?thesis by (auto intro: go)
  next
    case (unlock t p)
    with run have u: "unlock_section D t p ph s w = (ph', s', w')" by simp
    note k = unlock_section_keeps [OF u auth unlock(1), of md]
    show ?thesis
    proof (cases "ph' = ph \<and> s' = s")
      case True
      with same k show ?thesis by (simp add: conc_inv_def)
    next
      case False
      with k unlock(2) have "keeps D md req ph ph' s s'" by blast
      then show ?thesis by (rule go) (use k st in simp_all)
    qed
  next
    case (set c n)
    with run have u: "set_pin_section D c n ph s w = (ph', s', w')" by simp
    from u auth set(1) show ?thesis
    proof (cases rule: set_pin_section_cases [where md = md])
      case idle
      with same show ?thesis by simp
    next
      case kept
      with set(2) have "keeps D md req ph ph' s s'" by simp
      then show ?thesis by (rule go) (use kept st in simp_all)
    next
      case (stored h salt w1)
      with st StorePINHash_get(3) [OF stored(4)] show ?thesis
        by (intro conc_inv_invalidating [OF i(1)]) (auto simp: invalidating_def)
    next
      case configured
      with auth st show ?thesis
        by (intro conc_inv_invalidating [OF i(1)]) (auto simp: invalidating_def)
    next
      case cleared
      have "(md', req', SetConfigure) \<in> set (cs[i := (md, req, ph')])"
        if "(md', req', SetConfigure) \<in> set cs" for md' req'
        using set_update_other [OF i(1) that] i(2) cleared(1) by simp
      with inv auth cleared show ?thesis unfolding conc_inv_def by (simp add: HasPIN_def) blast
    qed
  next
    case other
    show ?thesis
    proof (cases "ph = Admitted")
      case False
      with run other have "ph' = ph" "s' = s" "w' = w" by (auto simp: call_section_def split: request.splits)
      with same show ?thesis by simp
    next
      case True
      obtain r where h: "handle D req s w = (r, s', w')" and r: "ph' = Answered r"
        using run other True by (cases req) (auto simp: call_section_def split: prod.splits)
      have "store_inv (d_bolt D) (storage s') \<and> bucketAuth (storage s') = bucketAuth (storage s)
          \<and> pinConfigured (auth s') = pinConfigured (auth s)"
        using handle_entry_ops [OF h st fresh] other(2) by blast
      then have keep: "store_inv (d_bolt D) (storage s')" "pinConfigured (auth s') = pinConfigured (auth s)"
        "GetPINHash (d_bolt D) (storage s') = GetPINHash (d_bolt D) (storage s)"
        by (auto intro: GetPINHash_auth)
      have auth': "auth_inv (auth s') w'" using handle_auth_inv [OF h auth] .
      show ?thesis
      proof (cases "pinConfigured (auth s)")
        case True
        from handle_keeps [OF h other(2) auth this keep(3,2), of md] show ?thesis
          using go keep(1) auth' r \<open>ph = Admitted\<close> by simp
      next
        case nopin: False
        have "(md', req', SetConfigure) \<in> set (cs[i := (md, req, ph')])"
          if "(md', req', SetConfigure) \<in> set cs" for md' req'
          using set_update_other [OF i(1) that] i(2) True by simp
        moreover have "invalidating (md', req', SetConfigure)" for md' req' by (simp add: invalidating_def)
        ultimately show ?thesis
          using inv nopin keep auth' HasPIN_same [OF keep(3)] unfolding conc_inv_def by blast
      qed
    qed
  qed
qed

lemma conc_inv_step:
  assumes "conc_inv D x" "conc_step D x y"
  shows "conc_inv D y"
  using assms(2,1)
proof (cases rule: conc_step.cases)
  case (arrives cs s w md req)
  with assms(1) show ?thesis by (auto simp: conc_inv_def)
next
  case (runs i cs md req ph s w ph' s' w')
  from conc_inv_section [OF assms(1) [unfolded runs(1)] runs(3-6)] show ?thesis by (simp add: runs(2))
next
  case (waits w w1 cs s)
  then show ?thesis using assms(1) by (auto simp: conc_inv_def intro: auth_inv_clock)
next
  case (sweeps s w am w' cs)
  have inv: "auth_inv (auth s) w" using assms(1) sweeps(1) by (auto simp: conc_inv_def)
  then have "sess_le am (auth s)" and pin: "pinConfigured am = pinConfigured (auth s)"
    using sweeps(3) by (auto simp: SweepExpired_def Let_def auth_inv_def split: prod.splits intro: sess_le_sweep)
  moreover have "HasPIN D (s\<lparr>auth := am\<rparr>) = HasPIN D s" by (simp add: HasPIN_def)
  ultimately show ?thesis
    using assms(1) auth_inv_SweepExpired [OF sweeps(3) inv] sweeps(1,2)
    by (fastforce simp: conc_inv_def sess_le_def)
qed

end

lemma NewServer_sessions: "sessions (auth (NewServer D st (NewAuthManager pk) g)) = []"
  by (simp add: NewServer_def Let_def NewAuthManager_def SetPINConfigured_def SetGPGFingerprint_def
      split: sum.split prod.split)

sublocale server_env \<subseteq> conc: invariant_system "conc_start D" "conc_step D" "conc_inv D"
proof unfold_locales
  show "conc_inv D x" if "conc_start D x" for x
  proof -
    obtain s w where x: "x = ([], s, w)" "server_start D (s, w)"
      using \<open>conc_start D x\<close> by (cases x) (auto simp: conc_start_def)
    have "sessions (auth s) = []" using x(2) by (auto simp: server_start_def NewServer_sessions)
    moreover have "server_inv D s w" using run.start_inv [OF x(2)] by simp
    ultimately show ?thesis by (auto simp: x(1) conc_inv_def server_inv_def)
  qed
  show "conc_inv D y" if "conc_inv D x" "conc_step D x y" for x y
    using conc_inv_step that .
qed

context server_env begin

lemmas conc_reach_inv = conc.reach_inv

end

subsection \<open>Schedules\<close>

text \<open>
  A schedule is what happens, in order. It gets stuck where a call would run that has not
  arrived, or an identifier be drawn that is in use.
\<close>

datatype schedule = Arrive "string list option" request | Run nat | Sweep | Wait nat

fun conc_run :: "('b, 'g) deps \<Rightarrow> schedule list \<Rightarrow> rpc_call list \<times> ('b, 'g) server \<times> world \<Rightarrow>
    (rpc_call list \<times> ('b, 'g) server \<times> world) option" where
  "conc_run D [] x = Some x"
| "conc_run D (Arrive md req # es) (cs, s, w) = conc_run D es (cs @ [(md, req, Arrived)], s, w)"
| "conc_run D (Run i # es) (cs, s, w) =
     (if i < length cs \<and> fresh_uuid (d_bolt D) (storage s) w then
        (case cs ! i of (md, req, ph) \<Rightarrow>
           (case call_section D md req ph s w of (ph', s', w') \<Rightarrow>
              conc_run D es (cs[i := (md, req, ph')], s', w')))
      else None)"
| "conc_run D (Sweep # es) (cs, s, w) =
     (case SweepExpired (auth s) w of (am, w) \<Rightarrow> conc_run D es (cs, s\<lparr>auth := am\<rparr>, w))"
| "conc_run D (Wait n # es) (cs, s, w) = conc_run D es (cs, s, w\<lparr>w_clock := w_clock w + int n\<rparr>)"

lemma conc_run_reach:
  "reach_from (conc_start D) (conc_step D) x \<Longrightarrow> conc_run D es x = Some y \<Longrightarrow>
   reach_from (conc_start D) (conc_step D) y"
proof (induction D es x rule: conc_run.induct)
  case (2 D md req es cs s w)
  from "2.IH" [OF reach_trans [OF "2.prems"(1) arrives]] "2.prems"(2) show ?case by simp
next
  case (3 D i es cs s w)
  obtain md req ph where c: "cs ! i = (md, req, ph)" by (rule prod_cases3)
  obtain ph' s' w' where r: "call_section D md req ph s w = (ph', s', w')" by (rule prod_cases3)
  from "3.prems"(2) have i: "i < length cs" "fresh_uuid (d_bolt D) (storage s) w" by (auto split: if_splits)
  from "3.IH" [OF _ c [symmetric] refl _ refl] show ?case
    using reach_trans [OF "3.prems"(1) runs [OF i(1) c i(2) r]] "3.prems"(2) i c r by auto
next
  case (4 D es cs s w)
  obtain am w' where a: "SweepExpired (auth s) w = (am, w')" by force
  from "4.IH" [OF a [symmetric]] "4.prems" reach_trans [OF "4.prems"(1) sweeps [OF a]] a show ?case by simp
next
  case (5 D n es cs s w)
  have "w_clock w \<le> w_clock (w\<lparr>w_clock := w_clock w + int n\<rparr>)" by simp
  from "5.IH" [OF reach_trans [OF "5.prems"(1) waits [OF this]]] "5.prems"(2) show ?case by simp
qed simp

subsection \<open>An example\<close>

definition demo_conc_world :: world where
  "demo_conc_world = \<lparr>w_clock = 1735689600 * second, w_ticks = [],
     w_rand = map (\<lambda>n. Some (replicate 32 (char_of n))) [1::nat, 2, 3, 4, 5, 6, 7, 8, 9, 10], w_uuid = []\<rparr>"

definition sections :: "nat \<Rightarrow> nat \<Rightarrow> schedule list" where
  "sections n i = replicate n (Run i)"

text \<open>
  Log in without a PIN (calls 0 and 1). Two clients then set the first PIN: 3 reads that there
  is none after 2 did, before 2 has stored its own. Two more logins (4 to 7) end with tickets,
  and 8 and 9 unlock with them: 9 asks for the back-off before 8 has failed.
\<close>

definition demo_schedule :: "schedule list" where
  "demo_schedule =
     [Arrive None (ReqAuthenticate ''me''), Run 0, Run 0,
      Arrive None (ReqVerifyChallenge (nth_token 1)), Run 1, Run 1,
      Arrive (Some [nth_token 2]) (ReqSetPIN [] ''1234''), Run 2, Run 2,
      Arrive (Some [nth_token 2]) (ReqSetPIN [] ''5678''), Run 3, Run 3]
     @ sections 3 2 @ sections 3 3 @
     [Arrive None (ReqAuthenticate ''me''), Run 4, Run 4,
      Arrive None (ReqVerifyChallenge (nth_token 5)), Run 5, Run 5,
      Arrive None (ReqAuthenticate ''me''), Run 6, Run 6,
      Arrive None (ReqVerifyChallenge (nth_token 7)), Run 7, Run 7,
      Arrive None (ReqUnlock (nth_token 6) ''0000''), Run 8, Run 8,
      Arrive None (ReqUnlock (nth_token 8) ''5678''), Run 9, Run 9]
     @ sections 4 8 @ sections 3 9"

definition demo_conc_facts :: "(rpc_call list \<times> ((bytes, bytes) rbt, unit) server \<times> world) option \<Rightarrow> bool" where
  "demo_conc_facts x \<longleftrightarrow>
     (case x of None \<Rightarrow> False | Some (cs, s, w) \<Rightarrow>
        cs ! 2 = (Some [nth_token 2], ReqSetPIN [] ''1234'', Answered (Inr SetPINResponse)) \<and>
        cs ! 3 = (Some [nth_token 2], ReqSetPIN [] ''5678'', Answered (Inr SetPINResponse)) \<and>
        cs ! 8 = (None, ReqUnlock (nth_token 6) ''0000'',
          Answered (Inl (StatusError PermissionDenied ''incorrect PIN''))) \<and>
        w_clock w = w_clock demo_conc_world \<and>
        list_all (\<lambda>(md, req, ph). ph \<noteq> SetConfigure \<and> ph \<noteq> SetInvalidate) cs \<and>
        map fst (sessions (auth s)) = [nth_token 10] \<and> HasPIN demo_deps s)"

lemma demo_conc_observed:
  "demo_conc_facts (conc_run demo_deps demo_schedule ([], demo_server, demo_conc_world))"
  by code_simp

definition demo_conc :: "rpc_call list \<times> ((bytes, bytes) rbt, unit) server \<times> world" where
  "demo_conc = the (conc_run demo_deps demo_schedule ([], demo_server, demo_conc_world))"

lemma demo_conc_run: "conc_run demo_deps demo_schedule ([], demo_server, demo_conc_world) = Some demo_conc"
  using demo_conc_observed
  by (cases "conc_run demo_deps demo_schedule ([], demo_server, demo_conc_world)")
    (simp_all add: demo_conc_facts_def demo_conc_def)

lemma demo_conc_reach: "reach_from (conc_start demo_deps) (conc_step demo_deps) demo_conc"
proof (rule conc_run_reach [OF _ demo_conc_run])
  have "conc_start demo_deps ([], demo_server, demo_conc_world)"
    using demo_store_inv
    by (auto simp: conc_start_def server_start_def demo_server_def demo_deps_def)
  then show "reach_from (conc_start demo_deps) (conc_step demo_deps) ([], demo_server, demo_conc_world)"
    by (rule reach_start)
qed

text \<open>
  Two races the locks leave open. Two clients that set the first PIN at once both succeed,
  though the second gave no current PIN; and a PIN is judged within the back-off of a wrong
  one when its call had asked for the back-off before.
\<close>

lemma pin_races:
  "\<exists>cs s w. reach_from (conc_start demo_deps) (conc_step demo_deps) (cs, s, w) \<and>
     cs ! 2 = (Some [nth_token 2], ReqSetPIN [] ''1234'', Answered (Inr SetPINResponse)) \<and>
     cs ! 3 = (Some [nth_token 2], ReqSetPIN [] ''5678'', Answered (Inr SetPINResponse)) \<and>
     cs ! 8 = (None, ReqUnlock (nth_token 6) ''0000'',
       Answered (Inl (StatusError PermissionDenied ''incorrect PIN''))) \<and>
     w_clock w = w_clock demo_conc_world \<and> map fst (sessions (auth s)) = [nth_token 10]"
proof -
  obtain cs s w where d: "demo_conc = (cs, s, w)" by (rule prod_cases3)
  have "reach_from (conc_start demo_deps) (conc_step demo_deps) (cs, s, w)"
    using demo_conc_reach by (simp only: d)
  moreover have "demo_conc_facts (Some (cs, s, w))"
    using demo_conc_observed by (simp only: demo_conc_run d)
  ultimately show ?thesis unfolding demo_conc_facts_def option.case prod.case
    by (elim conjE, intro exI [of _ cs] exI [of _ s] exI [of _ w] conjI) assumption+
qed

subsection \<open>Properties\<close>

text \<open>
  C13: Whatever the interleaving, no session outlives the PIN it was opened with: in every
  state the concurrent server can reach in which a PIN is stored and no call is between storing
  one and dropping the sessions, each session in the table belongs to an unlock that has yet to
  judge its PIN, or to one that has just refused (for a wrong PIN, or as it found none stored)
  and has yet to revoke the session, whose token it will not answer, or it was answered to an
  unlock whose PIN matches the hash that is stored now.
\<close>

theorem sessions_match_stored_pin:
  assumes "bbolt (d_bolt D)" "reach_from (conc_start D) (conc_step D) (cs, s, w)"
    and "GetPINHash (d_bolt D) (storage s) = Inr (h, salt)"
    and "\<forall>(md, req, ph) \<in> set cs. ph \<noteq> SetConfigure \<and> ph \<noteq> SetInvalidate"
    and "map_of (sessions (auth s)) token \<noteq> None"
  shows "\<exists>md ticket pin ph. (md, ReqUnlock ticket pin, ph) \<in> set cs \<and>
    ((\<exists>e. ph = UnlockHash token e) \<or> (\<exists>e. ph = UnlockVerify token e h salt) \<or>
     (\<exists>e. ph = UnlockRevoke token e) \<or>
     (\<exists>e. ph = Answered (Inr (UnlockResponse token e)) \<and> Verify (d_kdf D) pin h salt))"
proof -
  have "conc_inv D (cs, s, w)"
    using server_env.conc_reach_inv [OF _ assms(2)] assms(1) by (simp add: server_env_def)
  moreover have "HasPIN D s" using assms(3) by (simp add: HasPIN_def)
  moreover have "\<not> (\<exists>c \<in> set cs. invalidating c)" using assms(4) by (fastforce simp: invalidating_def)
  ultimately obtain md req ph where c: "(md, req, ph) \<in> set cs" "vouches D (Inr (h, salt)) token (md, req, ph)"
    using assms(3,5) unfolding conc_inv_def by auto
  from c(2) obtain ticket pin where "req = ReqUnlock ticket pin" by (auto simp: vouches_def)
  with c show ?thesis unfolding vouches_def by blast
qed

theorem sessions_match_stored_pin_witness:
  "\<exists>cs s w h salt md ticket pin e. demo_conc = (cs, s, w) \<and>
     GetPINHash rbt_bolt (storage s) = Inr (h, salt) \<and> map_of (sessions (auth s)) (nth_token 10) \<noteq> None \<and>
     (\<exists>ph. (md, ReqUnlock ticket pin, ph) \<in> set cs \<and> ph \<noteq> Arrived \<and> ph \<noteq> Answered (Inl e))"
proof -
  obtain cs s w where d: "demo_conc = (cs, s, w)" by (rule prod_cases3)
  have facts: "demo_conc_facts (Some (cs, s, w))" using demo_conc_observed by (simp only: demo_conc_run d)
  have reach: "reach_from (conc_start demo_deps) (conc_step demo_deps) (cs, s, w)"
    using demo_conc_reach by (simp only: d)
  from facts obtain h salt where hash: "GetPINHash (d_bolt demo_deps) (storage s) = Inr (h, salt)"
    by (auto simp: demo_conc_facts_def HasPIN_def split: sum.splits)
  have calm: "\<forall>(md, req, ph) \<in> set cs. ph \<noteq> SetConfigure \<and> ph \<noteq> SetInvalidate"
    using facts by (simp add: demo_conc_facts_def list_all_iff)
  have "nth_token 10 \<in> set (map fst (sessions (auth s)))"
    using facts unfolding demo_conc_facts_def option.case prod.case by (metis list.set_intros(1))
  then have live: "map_of (sessions (auth s)) (nth_token 10) \<noteq> None"
    by (simp add: map_of_eq_None_iff del: not_None_eq)
  from sessions_match_stored_pin [OF demo_deps_bolt reach hash calm live] hash live d
  show ?thesis by (fastforce simp: demo_deps_def)
qed

text \<open>
  Cutting the handlers at their locks changes nothing by itself: run one after the other with
  no other call in between, the sections of a call are the call.
\<close>

lemma sections_compose:
  "call_alone 7 D md req Arrived s w =
     (case UnaryInterceptor D md req s w of (r, s', w') \<Rightarrow> (Answered r, s', w'))"
  using sections_alone [of D md req s w] by (cases "UnaryInterceptor D md req s w") auto

end
