(* ===== verification/Form_Layout.thy ===== *)
theory Form_Layout
  imports Entry_Forms "HOL-Library.Sublist"
begin

text \<open>
  The widgets of the two forms of the overlay: the labelled fields of
  \<^verbatim>\<open>internal/adapters/gui/widget/entry.go\<close> and how \<^verbatim>\<open>omnibox/add.go\<close> and
  \<^verbatim>\<open>detail.go\<close> put them, their copy buttons and the row of buttons into the box of the form.
  GTK may fail to make any widget (\<^verbatim>\<open>SafeNewWidget\<close> of \<^verbatim>\<open>pkg/gtkutil\<close>): the
  outcomes of the constructors are a list, which is all successes once it is used up. What
  Entry_Forms says of the fields is the case of no failure; here the order in which Tab visits
  the form is compared with the order in which it is drawn. Margins, style classes and sizes are
  left out. At the end, the images of \<^verbatim>\<open>gui/widget/icons.go\<close>.
\<close>

subsection \<open>Widgets\<close>

datatype gtk =
    GBox "gtk list"
  | GScrolled "gtk list"
  | GLabel string
  | GEntry widget string
  | GPassword widget string
  | GTextView widget
  | GButton widget string

type_synonym made = "bool list"

definition SafeNewWidget :: "'a \<Rightarrow> made \<Rightarrow> 'a option \<times> made" where
  "SafeNewWidget x m = (case m of [] \<Rightarrow> (Some x, []) | ok # m \<Rightarrow> (if ok then Some x else None, m))"

text \<open>Callbacks are kept from the garbage collector by a list that only grows until the form is built anew.\<close>

definition RetainCallback :: "'a list \<Rightarrow> 'a \<Rightarrow> 'a list" where
  "RetainCallback callbacks cb = callbacks @ [cb]"

definition opt_list :: "'a option \<Rightarrow> 'a list" where
  "opt_list x = (case x of None \<Rightarrow> [] | Some y \<Rightarrow> [y])"

record labeled =
  le_Box :: "gtk option"
  le_Label :: "gtk option"
  le_Entry :: "gtk option"

definition NewLabeledEntry :: "widget \<Rightarrow> string \<Rightarrow> string \<Rightarrow> made \<Rightarrow> labeled \<times> made" where
  "NewLabeledEntry wid labelText placeholder m =
     (let (box, m) = SafeNewWidget () m;
          (label, m) = SafeNewWidget (GLabel labelText) m;
          (entry, m) = SafeNewWidget (GEntry wid placeholder) m
      in (\<lparr>le_Box = map_option (\<lambda>_. GBox (opt_list label @ opt_list entry)) box,
           le_Label = label, le_Entry = entry\<rparr>, m))"

definition NewLabeledPassword :: "widget \<Rightarrow> string \<Rightarrow> string \<Rightarrow> made \<Rightarrow> labeled \<times> made" where
  "NewLabeledPassword wid labelText placeholder m =
     (let (box, m) = SafeNewWidget () m;
          (label, m) = SafeNewWidget (GLabel labelText) m;
          (entry, m) = SafeNewWidget (GPassword wid placeholder) m
      in (\<lparr>le_Box = map_option (\<lambda>_. GBox (opt_list label @ opt_list entry)) box,
           le_Label = label, le_Entry = entry\<rparr>, m))"

text \<open>
  A form: the children of its root box, the widgets its fields and buttons point to in the
  order in which they were set, and the constructors to come.
\<close>

record form_ui =
  ui_root :: "gtk list"
  ui_set :: "widget list"
  ui_made :: made

definition ui_append :: "gtk option \<Rightarrow> widget list \<Rightarrow> made \<Rightarrow> form_ui \<Rightarrow> form_ui" where
  "ui_append child ws m ui =
     ui\<lparr>ui_root := ui_root ui @ opt_list child, ui_set := ui_set ui @ ws, ui_made := m\<rparr>"

definition pointer :: "'a option \<Rightarrow> widget \<Rightarrow> widget list" where
  "pointer x wid = (if x = None then [] else [wid])"

subsection \<open>The form to add an entry\<close>

definition ui_add_entry :: "form_field \<Rightarrow> string \<Rightarrow> string \<Rightarrow> form_ui \<Rightarrow> form_ui" where
  "ui_add_entry f labelText placeholder ui =
     (case NewLabeledEntry (AddField f) labelText placeholder (ui_made ui) of
        (le, m) \<Rightarrow> ui_append (le_Box le) (pointer (le_Entry le) (AddField f)) m ui)"

definition ui_add_password :: "form_field \<Rightarrow> string \<Rightarrow> form_ui \<Rightarrow> form_ui" where
  "ui_add_password f labelText ui =
     (case NewLabeledPassword (AddField f) labelText [] (ui_made ui) of
        (le, m) \<Rightarrow> ui_append (le_Box le) (pointer (le_Entry le) (AddField f)) m ui)"

definition ui_buildLoginForm :: "form_ui \<Rightarrow> form_ui" where
  "ui_buildLoginForm ui =
     ui_add_password LoginPassword ''Password''
       (ui_add_entry LoginUsername ''Username'' ''user@example.com''
         (ui_add_entry LoginSite ''Site'' ''https://example.com'' ui))"

definition ui_buildNoteForm :: "form_ui \<Rightarrow> form_ui" where
  "ui_buildNoteForm ui =
     (let ui = ui_add_entry NoteName ''Name'' ''My note'' ui;
          (label, m) = SafeNewWidget (GLabel ''Content'') (ui_made ui);
          ui = ui_append label [] m ui;
          (view, m) = SafeNewWidget (GTextView (AddField NoteContent)) (ui_made ui);
          (scroll, m) = SafeNewWidget () m
      in ui_append (map_option (\<lambda>_. GScrolled (opt_list view)) scroll) (pointer view (AddField NoteContent)) m ui)"

definition ui_buildSecretForm :: "form_ui \<Rightarrow> form_ui" where
  "ui_buildSecretForm ui =
     ui_add_password SecretValue ''Value'' (ui_add_entry SecretName ''Name'' ''API key name'' ui)"

text \<open>Both forms end with a row of two buttons; without its box neither is made.\<close>

definition ui_buttons :: "widget \<Rightarrow> string \<Rightarrow> widget \<Rightarrow> string \<Rightarrow> form_ui \<Rightarrow> form_ui" where
  "ui_buttons w1 t1 w2 t2 ui =
     (case SafeNewWidget () (ui_made ui) of
        (None, m) \<Rightarrow> ui\<lparr>ui_made := m\<rparr>
      | (Some _, m) \<Rightarrow>
          let (b1, m) = SafeNewWidget (GButton w1 t1) m;
              (b2, m) = SafeNewWidget (GButton w2 t2) m
          in ui_append (Some (GBox (opt_list b1 @ opt_list b2))) (pointer b1 w1 @ pointer b2 w2) m ui)"

definition ui_add_buildButtons :: "form_ui \<Rightarrow> form_ui" where
  "ui_add_buildButtons = ui_buttons AddCancel ''Cancel'' AddSaveButton ''Save''"

definition ui_add_buildForm :: "add_kind \<Rightarrow> made \<Rightarrow> form_ui" where
  "ui_add_buildForm k m =
     (let ui = \<lparr>ui_root = [], ui_set = [], ui_made = m\<rparr>
      in ui_add_buildButtons
           (case k of
              AddFormLogin \<Rightarrow> ui_buildLoginForm ui
            | AddFormNote \<Rightarrow> ui_buildNoteForm ui
            | AddFormSecret \<Rightarrow> ui_buildSecretForm ui))"

text \<open>Which of the pointers \<^verbatim>\<open>Focusables\<close> asks for are set, in the order it asks.\<close>

definition ui_add_Focusables :: "add_kind \<Rightarrow> form_ui \<Rightarrow> widget list" where
  "ui_add_Focusables k ui =
     filter (\<lambda>x. x \<in> set (ui_set ui)) (map AddField (add_fields k) @ [AddCancel, AddSaveButton])"

subsection \<open>The form of an entry\<close>

definition newCopyButton :: "form_field \<Rightarrow> made \<Rightarrow> gtk option \<times> made" where
  "newCopyButton f m = SafeNewWidget (GButton (DetailCopy f) (encode_rune 0x29C9)) m"

text \<open>A row holds the box of a field and its copy button; without the row neither is drawn.\<close>

definition appendFieldRow :: "gtk option \<Rightarrow> gtk option \<Rightarrow> widget list \<Rightarrow> made \<Rightarrow> form_ui \<Rightarrow> form_ui" where
  "appendFieldRow fieldBox copyBtn ws m ui =
     (case SafeNewWidget () m of
        (None, m) \<Rightarrow> ui_append None ws m ui
      | (Some _, m) \<Rightarrow> ui_append (Some (GBox (opt_list fieldBox @ opt_list copyBtn))) ws m ui)"

definition ui_detail_row :: "form_field \<Rightarrow> labeled \<times> made \<Rightarrow> form_ui \<Rightarrow> form_ui" where
  "ui_detail_row f lem ui =
     (case lem of (le, m) \<Rightarrow>
        let (btn, m) = newCopyButton f m
        in appendFieldRow (le_Box le) btn (pointer (le_Entry le) (DetailField f) @ pointer btn (DetailCopy f)) m ui)"

definition ui_detail_entry :: "form_field \<Rightarrow> string \<Rightarrow> string \<Rightarrow> form_ui \<Rightarrow> form_ui" where
  "ui_detail_entry f labelText placeholder ui =
     ui_detail_row f (NewLabeledEntry (DetailField f) labelText placeholder (ui_made ui)) ui"

definition ui_detail_password :: "form_field \<Rightarrow> string \<Rightarrow> form_ui \<Rightarrow> form_ui" where
  "ui_detail_password f labelText ui =
     ui_detail_row f (NewLabeledPassword (DetailField f) labelText [] (ui_made ui)) ui"

definition ui_buildLoginDetail :: "form_ui \<Rightarrow> form_ui" where
  "ui_buildLoginDetail ui =
     ui_detail_entry LoginNotes ''Notes'' []
       (ui_detail_password LoginPassword ''Password''
         (ui_detail_entry LoginUsername ''Username'' ''user@example.com''
           (ui_detail_entry LoginSite ''Site'' ''https://example.com'' ui)))"

definition ui_buildNoteDetail :: "form_ui \<Rightarrow> form_ui" where
  "ui_buildNoteDetail ui =
     (let ui = ui_detail_entry NoteName ''Name'' ''My note'' ui;
          (label, m) = SafeNewWidget (GLabel ''Content'') (ui_made ui);
          (view, m) = SafeNewWidget (GTextView (DetailField NoteContent)) m;
          (scroll, m) = SafeNewWidget () m;
          (btn, m) = newCopyButton NoteContent m;
          (box, m) = SafeNewWidget () m
      in appendFieldRow
           (map_option (\<lambda>_. GBox (opt_list label @
              opt_list (map_option (\<lambda>_. GScrolled (opt_list view)) scroll))) box)
           btn (pointer view (DetailField NoteContent) @ pointer btn (DetailCopy NoteContent)) m ui)"

definition ui_buildSecretDetail :: "form_ui \<Rightarrow> form_ui" where
  "ui_buildSecretDetail ui =
     ui_detail_password SecretValue ''Value'' (ui_detail_entry SecretName ''Name'' ''API key name'' ui)"

definition ui_detail_buildButtons :: "form_ui \<Rightarrow> form_ui" where
  "ui_detail_buildButtons = ui_buttons DetailBack (encode_rune 0x2190 @ '' Back'') DetailSaveButton ''Save''"

definition ui_detail_buildForm :: "detail_kind \<Rightarrow> made \<Rightarrow> form_ui" where
  "ui_detail_buildForm k m =
     (let ui = \<lparr>ui_root = [], ui_set = [], ui_made = m\<rparr>
      in ui_detail_buildButtons
           (case k of
              DetailFormLogin \<Rightarrow> ui_buildLoginDetail ui
            | DetailFormNote \<Rightarrow> ui_buildNoteDetail ui
            | DetailFormSecret \<Rightarrow> ui_buildSecretDetail ui))"

definition ui_detail_Focusables :: "detail_kind \<Rightarrow> form_ui \<Rightarrow> widget list" where
  "ui_detail_Focusables k ui =
     filter (\<lambda>x. x \<in> set (ui_set ui))
       (concat (map (\<lambda>f. [DetailField f, DetailCopy f]) (detail_fields k)) @ [DetailBack, DetailSaveButton])"

subsection \<open>Tab follows the layout\<close>

text \<open>The widgets that can have the focus, from left to right and from top to bottom.\<close>

fun drawn :: "gtk \<Rightarrow> widget list" where
  "drawn (GBox gs) = concat (map drawn gs)"
| "drawn (GScrolled gs) = concat (map drawn gs)"
| "drawn (GLabel t) = []"
| "drawn (GEntry x p) = [x]"
| "drawn (GPassword x p) = [x]"
| "drawn (GTextView x) = [x]"
| "drawn (GButton x t) = [x]"

definition ui_drawn :: "form_ui \<Rightarrow> widget list" where
  "ui_drawn ui = concat (map drawn (ui_root ui))"

text \<open>
  The invariant of building: what is drawn is a part of what is pointed to, in the same order,
  and that is a part of the widgets the form was meant to have so far.
\<close>

definition ui_ordered :: "widget list \<Rightarrow> form_ui \<Rightarrow> bool" where
  "ui_ordered meant ui \<longleftrightarrow> subseq (ui_drawn ui) (ui_set ui) \<and> subseq (ui_set ui) meant"

lemma ui_ordered_append:
  assumes "ui_ordered meant ui" "subseq (concat (map drawn (opt_list child))) ws" "subseq ws ws'"
  shows "ui_ordered (meant @ ws') (ui_append child ws m ui)"
  using assms by (simp add: ui_ordered_def ui_drawn_def ui_append_def list_emb_append_mono)

lemma SafeNewWidget_made: "SafeNewWidget x m = (r, m') \<Longrightarrow> r = None \<or> r = Some x"
  by (auto simp: SafeNewWidget_def split: list.splits if_splits)

lemma opt_list_simps [simp]: "opt_list None = []" "opt_list (Some x) = [x]"
  by (simp_all add: opt_list_def)

lemma pointer_simps [simp]: "pointer None x = []" "pointer (Some y) x = [x]"
  by (simp_all add: pointer_def)

lemma pointer_subseq: "subseq (pointer y x) [x]"
  by (simp add: pointer_def)

text \<open>What a labelled field draws is its entry, if it has one and a box.\<close>

lemma labeled_drawn:
  assumes "NewLabeledEntry x t p m = (le, m') \<or> NewLabeledPassword x t p m = (le, m')"
  shows "subseq (concat (map drawn (opt_list (le_Box le)))) (pointer (le_Entry le) x)"
  using assms
  by (auto simp: NewLabeledEntry_def NewLabeledPassword_def Let_def dest!: SafeNewWidget_made split: prod.splits)

lemma ui_ordered_add_entry:
  "ui_ordered meant ui \<Longrightarrow> ui_ordered (meant @ [AddField f]) (ui_add_entry f t p ui)"
  unfolding ui_add_entry_def
  by (auto split: prod.split intro!: ui_ordered_append pointer_subseq labeled_drawn)

lemma ui_ordered_add_password:
  "ui_ordered meant ui \<Longrightarrow> ui_ordered (meant @ [AddField f]) (ui_add_password f t ui)"
  unfolding ui_add_password_def
  by (auto split: prod.split intro!: ui_ordered_append pointer_subseq labeled_drawn)

lemma ui_ordered_more: "ui_ordered meant ui \<Longrightarrow> ui_ordered (meant @ ws) ui"
  by (auto simp: ui_ordered_def intro: subseq_order.trans)

lemma ui_ordered_made [simp]: "ui_ordered meant (ui\<lparr>ui_made := m\<rparr>) = ui_ordered meant ui"
  by (simp add: ui_ordered_def ui_drawn_def)

lemma ui_ordered_buttons:
  assumes "ui_ordered meant ui"
  shows "ui_ordered (meant @ [w1, w2]) (ui_buttons w1 t1 w2 t2 ui)"
proof -
  have row: "ui_ordered (meant @ [w1, w2])
      (ui_append (Some (GBox (opt_list b1 @ opt_list b2))) (pointer b1 w1 @ pointer b2 w2) m ui)"
    if "SafeNewWidget (GButton w1 t1) m1 = (b1, m2)" "SafeNewWidget (GButton w2 t2) m2 = (b2, m)" for b1 b2 m m1 m2
    using SafeNewWidget_made [OF that(1)] SafeNewWidget_made [OF that(2)]
    by (intro ui_ordered_append [OF assms]) (auto intro: list_emb_append_mono [of _ "[w1]", simplified])
  then show ?thesis
    using ui_ordered_more [OF assms] by (auto simp: ui_buttons_def Let_def split: prod.split option.split)
qed

lemma ui_ordered_row:
  assumes "ui_ordered meant ui" "subseq (concat (map drawn (opt_list box))) (pointer e (DetailField f))"
    and "newCopyButton f m = (btn, m')"
  shows "ui_ordered (meant @ [DetailField f, DetailCopy f])
    (appendFieldRow box btn (pointer e (DetailField f) @ pointer btn (DetailCopy f)) m2 ui)"
proof -
  let ?ws = "pointer e (DetailField f) @ pointer btn (DetailCopy f)"
  have btn: "concat (map drawn (opt_list btn)) = pointer btn (DetailCopy f)"
    using SafeNewWidget_made [OF assms(3) [unfolded newCopyButton_def]] by auto
  have ws: "subseq ?ws [DetailField f, DetailCopy f]"
    using list_emb_append_mono [OF pointer_subseq [of e "DetailField f"] pointer_subseq [of btn "DetailCopy f"]]
    by simp
  have "subseq (concat (map drawn (opt_list (Some (GBox (opt_list box @ opt_list btn)))))) ?ws"
    using list_emb_append_mono [OF assms(2) subseq_order.order_refl [of "pointer btn (DetailCopy f)"]] by (simp add: btn)
  with ws show ?thesis
    unfolding appendFieldRow_def
    by (auto split: prod.split option.split intro!: ui_ordered_append [OF assms(1)])
qed

lemma ui_ordered_detail_entry:
  "ui_ordered meant ui \<Longrightarrow> ui_ordered (meant @ [DetailField f, DetailCopy f]) (ui_detail_entry f t p ui)"
  unfolding ui_detail_entry_def ui_detail_row_def Let_def
  by (auto split: prod.split intro!: ui_ordered_row labeled_drawn)

lemma ui_ordered_detail_password:
  "ui_ordered meant ui \<Longrightarrow> ui_ordered (meant @ [DetailField f, DetailCopy f]) (ui_detail_password f t ui)"
  unfolding ui_detail_password_def ui_detail_row_def Let_def
  by (auto split: prod.split intro!: ui_ordered_row labeled_drawn)

lemma view_drawn: "SafeNewWidget (GTextView x) m = (v, m') \<Longrightarrow> concat (map drawn (opt_list v)) = pointer v x"
  by (auto dest: SafeNewWidget_made)

lemma ui_ordered_buildNoteForm:
  assumes "ui_ordered meant ui"
  shows "ui_ordered (meant @ [AddField NoteName, AddField NoteContent]) (ui_buildNoteForm ui)"
proof -
  have label: "ui_ordered (meant @ [AddField NoteName]) (ui_append l [] m (ui_add_entry NoteName t p ui))"
    if "SafeNewWidget (GLabel c) m0 = (l, m)" for l m m0 t p c
    using ui_ordered_append [OF ui_ordered_add_entry [OF assms], of l "[]" "[]"] SafeNewWidget_made [OF that]
    by auto
  have view: "ui_ordered ((meant @ [AddField NoteName]) @ [AddField NoteContent])
      (ui_append (map_option (\<lambda>_. GScrolled (opt_list v)) r) (pointer v (AddField NoteContent)) m ui1)"
    if "ui_ordered (meant @ [AddField NoteName]) ui1" "SafeNewWidget (GTextView (AddField NoteContent)) m0 = (v, m1)"
    for v r m ui1 m0 m1
    using view_drawn [OF that(2)]
    by (intro ui_ordered_append [OF that(1)] pointer_subseq) (cases r; simp)
  show ?thesis
    unfolding ui_buildNoteForm_def Let_def
    by (auto split: prod.split intro!: view [OF label, simplified])
qed

lemma ui_ordered_buildNoteDetail:
  assumes "ui_ordered meant ui"
  shows "ui_ordered (meant @ [DetailField NoteName, DetailCopy NoteName, DetailField NoteContent, DetailCopy NoteContent])
    (ui_buildNoteDetail ui)"
proof -
  have box: "subseq (concat (map drawn (opt_list (map_option (\<lambda>_. GBox (opt_list l @
      opt_list (map_option (\<lambda>_. GScrolled (opt_list v)) r))) b)))) (pointer v (DetailField NoteContent))"
    if "SafeNewWidget (GLabel c) m0 = (l, m1)" "SafeNewWidget (GTextView (DetailField NoteContent)) m1 = (v, m2)"
    for l v r b m0 m1 m2 c
    using SafeNewWidget_made [OF that(1)] view_drawn [OF that(2)] by (cases r; cases b) auto
  note row = ui_ordered_row [OF ui_ordered_detail_entry [OF assms]]
  show ?thesis
    unfolding ui_buildNoteDetail_def Let_def
    by (auto split: prod.split intro!: row [OF box, simplified])
qed

lemma subseq_filter:
  assumes "subseq xs ys" "distinct ys"
  shows "filter (\<lambda>y. y \<in> set xs) ys = xs"
  using assms
proof (induction xs ys rule: list_emb.induct)
  case (list_emb_Cons xs ys y)
  then have "y \<notin> set xs" by (auto dest: list_emb_set)
  with list_emb_Cons show ?case by simp
next
  case (list_emb_Cons2 x y xs ys)
  then have "filter (\<lambda>z. z = y \<or> z \<in> set xs) ys = filter (\<lambda>z. z \<in> set xs) ys"
    by (intro filter_cong) auto
  with list_emb_Cons2 show ?case by simp
qed simp

lemma ui_ordered_start: "ui_ordered [] \<lparr>ui_root = [], ui_set = [], ui_made = m\<rparr>"
  by (simp add: ui_ordered_def ui_drawn_def)

lemmas ui_ordered_steps = ui_ordered_add_entry ui_ordered_add_password ui_ordered_buildNoteForm
  ui_ordered_detail_entry ui_ordered_detail_password ui_ordered_buildNoteDetail ui_ordered_buttons

lemma ui_add_ordered:
  "ui_ordered (map AddField (add_fields k) @ [AddCancel, AddSaveButton]) (ui_add_buildForm k m)"
proof (cases k)
  case AddFormLogin
  show ?thesis
    using ui_ordered_buttons [OF ui_ordered_add_password [OF ui_ordered_add_entry [OF ui_ordered_add_entry [OF ui_ordered_start]]]]
    by (simp add: AddFormLogin ui_add_buildForm_def ui_add_buildButtons_def ui_buildLoginForm_def)
next
  case AddFormNote
  show ?thesis
    using ui_ordered_buttons [OF ui_ordered_buildNoteForm [OF ui_ordered_start]]
    by (simp add: AddFormNote ui_add_buildForm_def ui_add_buildButtons_def)
next
  case AddFormSecret
  show ?thesis
    using ui_ordered_buttons [OF ui_ordered_add_password [OF ui_ordered_add_entry [OF ui_ordered_start]]]
    by (simp add: AddFormSecret ui_add_buildForm_def ui_add_buildButtons_def ui_buildSecretForm_def)
qed

lemma ui_detail_ordered:
  "ui_ordered (concat (map (\<lambda>f. [DetailField f, DetailCopy f]) (detail_fields k)) @ [DetailBack, DetailSaveButton])
    (ui_detail_buildForm k m)"
proof (cases k)
  case DetailFormLogin
  show ?thesis
    using ui_ordered_buttons [OF ui_ordered_detail_entry [OF ui_ordered_detail_password [OF
        ui_ordered_detail_entry [OF ui_ordered_detail_entry [OF ui_ordered_start]]]]]
    by (simp add: DetailFormLogin ui_detail_buildForm_def ui_detail_buildButtons_def ui_buildLoginDetail_def)
next
  case DetailFormNote
  show ?thesis
    using ui_ordered_buttons [OF ui_ordered_buildNoteDetail [OF ui_ordered_start]]
    by (simp add: DetailFormNote ui_detail_buildForm_def ui_detail_buildButtons_def)
next
  case DetailFormSecret
  show ?thesis
    using ui_ordered_buttons [OF ui_ordered_detail_password [OF ui_ordered_detail_entry [OF ui_ordered_start]]]
    by (simp add: DetailFormSecret ui_detail_buildForm_def ui_detail_buildButtons_def ui_buildSecretDetail_def)
qed

text \<open>
  Whatever GTK fails to make, Tab visits what is drawn in the order in which it is drawn, between
  widgets that have no place in the form because their box is missing; and when nothing fails it
  visits exactly what is drawn, which is what Entry_Forms says of the form.
\<close>

theorem tab_follows_layout_add:
  "subseq (ui_drawn (ui_add_buildForm k m)) (ui_add_Focusables k (ui_add_buildForm k m)) \<and>
   ui_drawn (ui_add_buildForm k []) = ui_add_Focusables k (ui_add_buildForm k []) \<and>
   ui_drawn (ui_add_buildForm k []) = AddView_Focusables (add_buildForm (av\<lparr>av_kind := k\<rparr>))"
proof -
  have "distinct (map AddField (add_fields k) @ [AddCancel, AddSaveButton])" by (cases k) auto
  then have foc: "ui_add_Focusables k (ui_add_buildForm k m) = ui_set (ui_add_buildForm k m)" for m
    unfolding ui_add_Focusables_def
    by (intro subseq_filter) (use ui_add_ordered [of k m] in \<open>simp_all add: ui_ordered_def\<close>)
  have "ui_drawn (ui_add_buildForm k []) = ui_set (ui_add_buildForm k []) \<and>
      ui_drawn (ui_add_buildForm k []) = AddView_Focusables (add_buildForm (av\<lparr>av_kind := k\<rparr>))"
    by (cases k) (simp_all add: ui_drawn_def ui_add_buildForm_def ui_add_buildButtons_def ui_buttons_def
        ui_buildLoginForm_def ui_buildNoteForm_def ui_buildSecretForm_def ui_add_entry_def ui_add_password_def
        NewLabeledEntry_def NewLabeledPassword_def SafeNewWidget_def ui_append_def Let_def
        AddView_Focusables_def add_buildForm_def field_widgets_def buildLoginForm_def buildNoteForm_def
        buildSecretForm_def)
  then show ?thesis using ui_add_ordered [of k m] unfolding foc ui_ordered_def by blast
qed

theorem tab_follows_layout_detail:
  "subseq (ui_drawn (ui_detail_buildForm k m)) (ui_detail_Focusables k (ui_detail_buildForm k m)) \<and>
   ui_drawn (ui_detail_buildForm k []) = ui_detail_Focusables k (ui_detail_buildForm k []) \<and>
   ui_drawn (ui_detail_buildForm k []) =
     DetailView_Focusables (fst (detail_buildForm G cfg pt (dv\<lparr>dv_kind := k\<rparr>) d))"
proof -
  have "distinct (concat (map (\<lambda>f. [DetailField f, DetailCopy f]) (detail_fields k)) @ [DetailBack, DetailSaveButton])"
    by (cases k) auto
  then have foc: "ui_detail_Focusables k (ui_detail_buildForm k m) = ui_set (ui_detail_buildForm k m)" for m
    unfolding ui_detail_Focusables_def
    by (intro subseq_filter) (use ui_detail_ordered [of k m] in \<open>simp_all add: ui_ordered_def\<close>)
  have "ui_drawn (ui_detail_buildForm k []) = ui_set (ui_detail_buildForm k []) \<and>
      ui_drawn (ui_detail_buildForm k []) =
        DetailView_Focusables (fst (detail_buildForm G cfg pt (dv\<lparr>dv_kind := k\<rparr>) d))"
    by (cases k; cases "unmarshal_login pt"; cases "unmarshal_note pt"; cases "unmarshal_secret pt")
      (simp_all add: ui_drawn_def ui_detail_buildForm_def ui_detail_buildButtons_def ui_buttons_def
        ui_buildLoginDetail_def ui_buildNoteDetail_def ui_buildSecretDetail_def ui_detail_entry_def
        ui_detail_password_def ui_detail_row_def newCopyButton_def appendFieldRow_def
        NewLabeledEntry_def NewLabeledPassword_def SafeNewWidget_def ui_append_def Let_def
        DetailView_Focusables_def detail_buildForm_def resetFields_def field_widgets_def buildLoginDetail_def
        buildNoteDetail_def buildSecretDetail_def)
  then show ?thesis using ui_detail_ordered [of k m] unfolding foc ui_ordered_def by blast
qed

subsection \<open>Icons\<close>

text \<open>
  \<^verbatim>\<open>gui/widget/icons.go\<close>: a drawing is a text in which \<^verbatim>\<open>currentColor\<close> is replaced, and an image
  is what the loader of GDK makes of it; each of its calls may fail, which is printed.
\<close>

function strings_ReplaceAll :: "string \<Rightarrow> string \<Rightarrow> string \<Rightarrow> string" where
  "strings_ReplaceAll s old new =
     (if s = [] then []
      else if old \<noteq> [] \<and> has_prefix s old then new @ strings_ReplaceAll (drop (length old) s) old new
      else hd s # strings_ReplaceAll (tl s) old new)"
  by pat_completeness auto
termination
  by (relation "measure (\<lambda>(s, old, new). length s)") auto

declare strings_ReplaceAll.simps [simp del]

record 'p pixbuf_loader =
  pl_new :: "go_error option"
  pl_write :: "bytes \<Rightarrow> go_error option"
  pl_close :: "bytes \<Rightarrow> go_error option"
  pl_pixbuf :: "bytes \<Rightarrow> 'p option"

definition NewIconImage :: "'p pixbuf_loader \<Rightarrow> string \<Rightarrow> string \<Rightarrow> string list \<times> 'p option" where
  "NewIconImage L svgTemplate color =
     (let svg = strings_ReplaceAll svgTemplate ''currentColor'' color
      in case pl_new L of
           Some e \<Rightarrow> ([''sekeve: icon loader error: '' @ error_string e], None)
         | None \<Rightarrow>
            (case pl_write L svg of
               Some e \<Rightarrow> ([''sekeve: icon write error: '' @ error_string e], None)
             | None \<Rightarrow>
                (case pl_close L svg of
                   Some e \<Rightarrow> ([''sekeve: icon close error: '' @ error_string e], None)
                 | None \<Rightarrow> ([], pl_pixbuf L svg))))"

lemma ReplaceAll_none:
  "(\<And>t. suffix t s \<Longrightarrow> t \<noteq> [] \<Longrightarrow> \<not> has_prefix t old) \<Longrightarrow> strings_ReplaceAll s old new = s"
proof (induction s)
  case (Cons c s)
  have "strings_ReplaceAll s old new = s"
    by (rule Cons.IH) (use Cons.prems in \<open>auto intro: suffix_ConsI\<close>)
  with Cons.prems [of "c # s"] show ?case by (simp add: strings_ReplaceAll.simps [of "c # s"])
qed (simp add: strings_ReplaceAll.simps)

lemma ReplaceAll_first:
  assumes "old \<noteq> []"
  shows "strings_ReplaceAll (old @ s) old new = new @ strings_ReplaceAll s old new"
  using assms by (subst strings_ReplaceAll.simps) simp

text \<open>An icon is drawn or, unless only the result is missing, one line is printed.\<close>

lemma NewIconImage_reports:
  "snd (NewIconImage L svg color) \<noteq> None \<Longrightarrow> fst (NewIconImage L svg color) = []"
  "length (fst (NewIconImage L svg color)) \<le> 1"
  by (auto simp: NewIconImage_def Let_def split: option.splits)

end
