(* ===== verification/Spec2Isabelle.thy ===== *)
theory Spec2Isabelle
  imports Prelude Go_Text Go_Strings Go_World Go_Time Pin_Hash Auth_Manager Entity Json Codec
    Envelope_Codec Storage Gpg Server Server_Safety Grpc_Client Session Client_Server Search
    Login_Name Cli_Base Inject Cli Editor Bitwarden Import_Entries Config Setup Server_Setup Commands
    Storage_Spec Surfaces Focus_Ring Gui_Base Search_View Entry_Forms Omnibox Omnibox_Views Omnibox_Search
    Omnibox_Rest Pin_Window Overlay Server_Concurrent Form_Layout
begin

text \<open>
  A model of sekeve, a secret manager whose entries are encrypted to a GPG key: a gRPC server
  that stores the encrypted entries and hands out sessions, and a command line and desktop
  client that holds the key.

  Theories and the code they model (paths under \<^verbatim>\<open>src/\<close>):

  \<^item> \<^verbatim>\<open>Prelude\<close>: generic lemmas; Go maps as association lists in iteration order, the
    expiring tables and invariants of transition systems as locales.
  \<^item> \<^verbatim>\<open>Go_Text\<close>, \<^verbatim>\<open>Go_World\<close>, \<^verbatim>\<open>Go_Time\<close>: what the code uses of the Go language and standard
    library. Strings are byte strings, runes are decoded from UTF-8; a \<^verbatim>\<open>world\<close> supplies the
    clock, random bytes and UUIDs; errors are a datatype with the wrapping and the gRPC status
    codes; RFC 3339 times.
  \<^item> \<^verbatim>\<open>Pin_Hash\<close>: \<^verbatim>\<open>internal/pinhash/pinhash.go\<close>, with the argon2 key derivation a parameter.
  \<^item> \<^verbatim>\<open>Auth_Manager\<close>: \<^verbatim>\<open>internal/adapters/grpc/auth.go\<close>: nonces, one-time unlock tickets,
    sessions, PIN back-off, the sweeper.
  \<^item> \<^verbatim>\<open>Entity\<close>, \<^verbatim>\<open>Json\<close>, \<^verbatim>\<open>Codec\<close>, \<^verbatim>\<open>Envelope_Codec\<close>: \<^verbatim>\<open>internal/domain/entity\<close> and the JSON form
    its struct tags give the entities, over a model of \<^verbatim>\<open>encoding/json\<close> (a scanner and a token
    machine with the nesting bound 10000 of that package).
  \<^item> \<^verbatim>\<open>Storage\<close>: \<^verbatim>\<open>internal/adapters/storage/bbolt.go\<close>, over a record of the bucket operations of
    bbolt; the locale \<^verbatim>\<open>bbolt\<close> states their laws and is interpreted on red-black trees.
  \<^item> \<^verbatim>\<open>Gpg\<close>: \<^verbatim>\<open>internal/adapters/crypto/gpg.go\<close>; the gpg program is a parameter.
  \<^item> \<^verbatim>\<open>Server\<close>, \<^verbatim>\<open>Server_Safety\<close>: \<^verbatim>\<open>internal/adapters/grpc/server.go\<close>, \<^verbatim>\<open>converter.go\<close> and the
    interceptor; every handler, the calls of the server as a step relation, and its safety.
  \<^item> \<^verbatim>\<open>Server_Concurrent\<close>: the same calls cut where the code lets go of the lock of the manager or
    ends a transaction of the storage, and interleaved: a call alone is the call of \<^verbatim>\<open>Server\<close>, in
    at most seven sections; no session outlives the PIN it was opened with; and the races that the locks leave open.

  \<^item> \<^verbatim>\<open>Grpc_Client\<close>: \<^verbatim>\<open>internal/adapters/grpc/client.go\<close> and
    \<^verbatim>\<open>internal/domain/service/vault.go\<close>. What the client process meets outside the repository
    (the stub with the network and a server behind it, gpg, files, YAML) is the record
    \<open>client_env\<close>.
  \<^item> \<^verbatim>\<open>Session\<close>: the session file of \<^verbatim>\<open>internal/adapters/config/viper.go\<close>, login and PIN
    retries of \<^verbatim>\<open>internal/app\<close>, connecting in \<^verbatim>\<open>cliconfig.go\<close>, the terminal prompt of
    \<^verbatim>\<open>gui/pin/tty.go\<close>.
  \<^item> \<^verbatim>\<open>Client_Server\<close>: the client with the model of the server as its network; login, the
    cached session, PIN retries and an entry's way to the server and back.
  \<^item> \<^verbatim>\<open>Go_Strings\<close>, \<^verbatim>\<open>Search\<close>: filters, fuzzy score and search, resolution of a query with the
    picker, the lines for dmenu. A locale states what a sort of a slice promises.
  \<^item> \<^verbatim>\<open>Login_Name\<close>: names of logins, with \<^verbatim>\<open>net/url\<close> as a parameter.
  \<^item> \<^verbatim>\<open>Cli_Base\<close>, \<^verbatim>\<open>Cli\<close>, \<^verbatim>\<open>Editor\<close>, \<^verbatim>\<open>Inject\<close>: the commands of
    \<^verbatim>\<open>internal/adapters/cli/client\<close> as functions of their flags, inputs, client and outputs;
    the temporary file of the editor; dotenv files and the environment of a child.
  \<^item> \<^verbatim>\<open>Bitwarden\<close>, \<^verbatim>\<open>Import_Entries\<close>: the import of a Bitwarden export; its worker goroutines
    are a state machine run under a schedule, of which every one gives the result of adding
    the new items one after the other; the progress display runs beside it, and what it leaves
    when it is interrupted depends on whether the result had been assigned.
  \<^item> \<^verbatim>\<open>Config\<close>: \<^verbatim>\<open>internal/adapters/xdg/xdg.go\<close> and the settings of \<^verbatim>\<open>viper.go\<close>, over a record
    of what viper does with them; the locale \<^verbatim>\<open>settings\<close> states its laws.
  \<^item> \<^verbatim>\<open>Setup\<close>: the onboarding form, the health check and \<^verbatim>\<open>sekeve init\<close>
    (\<^verbatim>\<open>cliconfig/onboarding.go\<close>, \<^verbatim>\<open>client/init.go\<close>); a terminal program is its model and the
    messages that reach it.
  \<^item> \<^verbatim>\<open>Server_Setup\<close>: \<^verbatim>\<open>internal/adapters/cli/server\<close>: registering the public key, and starting the
    server up to the point where it serves.
  \<^item> \<^verbatim>\<open>Commands\<close>: the tree of commands of \<^verbatim>\<open>root.go\<close> with its hooks, what each command finds in
    its context (which hooks cobra runs is a parameter with its documented rule as a
    hypothesis), the restart of \<^verbatim>\<open>client/setup.go\<close> for the layer shell, \<^verbatim>\<open>pkg/clipboard\<close>.

  \<^item> \<^verbatim>\<open>Storage_Spec\<close>: the port of the storage as an abstract map, and that \<^verbatim>\<open>Storage\<close> refines it,
    by a locale for refinement with an abstraction function.
  \<^item> \<^verbatim>\<open>Focus_Ring\<close>: \<^verbatim>\<open>pkg/focusring\<close> and \<^verbatim>\<open>gui/widget/tabbar.go\<close>.
  \<^item> \<^verbatim>\<open>Gui_Base\<close>, \<^verbatim>\<open>Search_View\<close>, \<^verbatim>\<open>Entry_Forms\<close>, \<^verbatim>\<open>Omnibox\<close>: the overlay of
    \<^verbatim>\<open>internal/adapters/gui/omnibox\<close>: the callbacks of \<^verbatim>\<open>port/gui.go\<close> as functions on the state of
    the vault; the search with its list, the forms that add and change entries, the modes, the
    focus and the keys. Goroutines are jobs cut at their calls of the vault, functions queued for
    the GTK thread are a queue, and everything that happens is an event of one step function,
    so any interleaving is a list of events.
  \<^item> \<^verbatim>\<open>Form_Layout\<close>: \<^verbatim>\<open>gui/widget/entry.go\<close> and the widgets of both forms, any of which GTK may
    fail to make: Tab visits the form in the order in which it is drawn. Also the images of
    \<^verbatim>\<open>gui/widget/icons.go\<close>.
  \<^item> \<^verbatim>\<open>Omnibox_Views\<close>, \<^verbatim>\<open>Omnibox_Search\<close>, \<^verbatim>\<open>Omnibox_Rest\<close>: its invariants (one view is visible, the
    list shows the entries of the category), and that it comes to rest: a weight of the jobs
    and idle functions bounds the steps that go on by themselves.
  \<^item> \<^verbatim>\<open>Pin_Window\<close>: \<^verbatim>\<open>gui/pin/pin.go\<close>: the PIN prompt as a window and as a pane of the overlay.
  \<^item> \<^verbatim>\<open>Overlay\<close>: \<^verbatim>\<open>gui/app.go\<close>, \<^verbatim>\<open>app_stub.go\<close> and the command \<^verbatim>\<open>omnibox\<close>: the window that asks for a
    pending PIN and becomes the overlay, and the cache of its state. It composes the login of
    \<^verbatim>\<open>Session\<close>, the pane of \<^verbatim>\<open>Pin_Window\<close> and the overlay of \<^verbatim>\<open>Omnibox\<close>.
  \<^item> \<^verbatim>\<open>Surfaces\<close>: the notifiers, what \<^verbatim>\<open>cli/styles\<close> writes (its indented JSON reads back), how \<^verbatim>\<open>Serve\<close> ends,
    and the layer shell, with D-Bus, the renderer, the gRPC server and GTK as parameters.

  Fuel is used only where a loop of the code has a bound of its own (the nesting bound of JSON,
  the attempts of the terminal prompt); a schedule takes its place for the import workers, and
  that long enough schedules finish is a theorem. Runs of the desktop windows are lists of
  events without a bound.

  The desktop model takes these from GTK and the libraries around it: outside \<^verbatim>\<open>Form_Layout\<close>
  constructors return a widget, so the branches for nil are left out; a hidden or detached widget gets no events and
  no focus; functions of the idle queue run in the order in which they were queued; what a text
  widget keeps of a text is the parameter \<open>dt_text\<close>; decryption calls back at most once. Each
  goroutine is atomic between two calls of the vault, and the inactivity watcher of the PIN pane
  checks and closes its channel in one step.

  Not modelled: generated protobuf code and mocks; the listener and the gRPC server behind
  \<^verbatim>\<open>Serve\<close>; logging; the style sheet, the look of widgets and the drawing of terminal
  forms; wrappers of the GTK bindings.
\<close>

end
